(* ===== verification/Svn_Prelude.thy ===== *)
theory Svn_Prelude
  imports Main "HOL-Library.Word"
begin

section \<open>Prelude: faults, characters and shared list facts\<close>

text \<open>
  What every component of the model shares.

  \<^item> The ways a C++ operation of the server can stop other than by returning: an uncaught
    exception or an access the language leaves undefined. A fallible operation returns
    \<open>fault + 'a\<close>, and \<open>andThen\<close> sequences such operations.
  \<^item> The integer widths of the source (\<open>std::uint8_t\<close>, \<open>std::uint16_t\<close>,
    \<open>std::uint32_t\<close>) as words, and the two readings of a \<open>char\<close>.
  \<^item> List facts used by several components, and the collections \<open>fault_simps\<close>
    and \<open>scan_simps\<close> that carry their proofs.
\<close>

named_theorems fault_simps "rewriting of fallible computations"
named_theorems scan_simps "rewriting of scans over character lists"

subsection \<open>Faults\<close>

datatype fault =
    OutOfBounds           \<comment> \<open>an access outside an object (undefined behaviour)\<close>
  | NullDeref             \<comment> \<open>a member access through a null pointer (undefined behaviour)\<close>
  | LengthError           \<comment> \<open>\<open>std::length_error\<close>\<close>
  | OutOfRange            \<comment> \<open>\<open>std::out_of_range\<close>\<close>
  | InvalidArgument       \<comment> \<open>\<open>std::invalid_argument\<close>\<close>
  | UseAfterClose         \<comment> \<open>a use of a \<open>FILE\<close> after \<open>fclose\<close> (undefined behaviour)\<close>
  | IntOverflow           \<comment> \<open>a number an \<open>int\<close> cannot hold (undefined behaviour)\<close>
  | DivideByZero          \<comment> \<open>an integer division by zero (undefined behaviour)\<close>
  | RuntimeError string   \<comment> \<open>\<open>std::runtime_error\<close>\<close>
  | ParseException string \<comment> \<open>\<open>cpptoml::parse_exception\<close>\<close>
  | SystemError           \<comment> \<open>\<open>boost::system::system_error\<close>\<close>

type_synonym 'a eff = "fault + 'a"

definition andThen :: "'e + 'a \<Rightarrow> ('a \<Rightarrow> 'e + 'b) \<Rightarrow> 'e + 'b" where
  "andThen m f = (case m of Inl e \<Rightarrow> Inl e | Inr x \<Rightarrow> f x)"

lemma andThen_simps [simp, fault_simps]:
  "andThen (Inl e) f = Inl e"
  "andThen (Inr x) f = f x"
  by (simp_all add: andThen_def)

lemma andThen_eq_Inr [fault_simps]:
  "andThen m f = Inr y \<longleftrightarrow> (\<exists>x. m = Inr x \<and> f x = Inr y)"
  by (cases m) auto

lemma andThen_eq_Inl [fault_simps]:
  "andThen m f = Inl e \<longleftrightarrow> m = Inl e \<or> (\<exists>x. m = Inr x \<and> f x = Inl e)"
  by (cases m) auto

lemma andThen_cong [fundef_cong]:
  "m = m' \<Longrightarrow> (\<And>x. m' = Inr x \<Longrightarrow> f x = g x) \<Longrightarrow> andThen m f = andThen m' g"
  by (cases m') auto

lemma andThen_assoc: "andThen (andThen m f) g = andThen m (\<lambda>x. andThen (f x) g)"
  by (cases m) auto

text \<open>\<open>returns\<close> says that a computation comes back with a value.\<close>

definition returns :: "'e + 'a \<Rightarrow> bool" where
  "returns m \<longleftrightarrow> (\<exists>x. m = Inr x)"

lemma returns_simps [simp, fault_simps]:
  "returns (Inr x)"
  "\<not> returns (Inl e)"
  by (simp_all add: returns_def)

lemma returns_andThen [fault_simps]:
  "returns (andThen m f) \<longleftrightarrow> (\<exists>x. m = Inr x \<and> returns (f x))"
  by (cases m) auto

lemma returnsE:
  assumes "returns m"
  obtains x where "m = Inr x"
  using assms by (auto simp: returns_def)

subsection \<open>Integer widths and characters\<close>

type_synonym u8 = "8 word"
type_synonym u16 = "16 word"
type_synonym u32 = "32 word"

text \<open>
  A \<open>char\<close> is one byte. Where the source uses it as a number it is first promoted to
  \<open>int\<close>: \<open>uchar\<close> is the value of an \<open>unsigned char\<close> (or \<open>uint8_t\<close>), \<open>schar\<close> that of
  a plain \<open>char\<close>, which is signed on the platforms the makefiles name.
\<close>

abbreviation nul :: char where
  "nul \<equiv> CHR 0x00"

definition uchar :: "char \<Rightarrow> int" where
  "uchar c = of_char c"

definition schar :: "char \<Rightarrow> int" where
  "schar c = (if uchar c < 128 then uchar c else uchar c - 256)"

lemma uchar_nat: "uchar c = int (of_char c)"
  by (simp only: uchar_def of_nat_of_char)

lemma uchar_bounds: "0 \<le> uchar c" "uchar c < 256"
proof -
  have "(of_char c :: nat) < 256"
    using range_nat_of_char by auto
  then show "0 \<le> uchar c" "uchar c < 256"
    by (simp_all only: uchar_nat)
qed

lemma schar_bounds: "-128 \<le> schar c" "schar c < 128"
  using uchar_bounds [of c] by (auto simp: schar_def)

lemma schar_ascii: "uchar c < 128 \<Longrightarrow> schar c = uchar c"
  by (simp add: schar_def)

lemma uchar_inject: "uchar c = uchar d \<longleftrightarrow> c = d"
  by (simp only: uchar_nat of_nat_eq_iff of_char_eq_iff)

subsection \<open>Lists\<close>

text \<open>What a \<open>while\<close> loop over a pointer skips, and what is left at the stop.\<close>

lemma takeWhile_append_stop [scan_simps]:
  assumes "\<forall>x \<in> set xs. P x" and "\<not> P y"
  shows "takeWhile P (xs @ y # ys) = xs"
  using assms by (induction xs) auto

lemma dropWhile_append_stop [scan_simps]:
  assumes "\<forall>x \<in> set xs. P x" and "\<not> P y"
  shows "dropWhile P (xs @ y # ys) = y # ys"
  using assms by (induction xs) auto

lemma takeWhile_all [scan_simps]: "\<forall>x \<in> set xs. P x \<Longrightarrow> takeWhile P xs = xs"
  by (induction xs) auto

lemma dropWhile_all [scan_simps]: "\<forall>x \<in> set xs. P x \<Longrightarrow> dropWhile P xs = []"
  by (induction xs) auto

text \<open>The C string a buffer holds ends at its first NUL.\<close>

definition c_str :: "string \<Rightarrow> string" where
  "c_str s = takeWhile (\<lambda>c. c \<noteq> nul) s"

lemma c_str_id: "nul \<notin> set s \<Longrightarrow> c_str s = s"
  by (auto simp: c_str_def intro!: takeWhile_all)

lemma nul_notin_c_str: "nul \<notin> set (c_str s)"
  using set_takeWhileD [of nul "\<lambda>c. c \<noteq> nul" s] by (auto simp: c_str_def)

lemma length_c_str: "length (c_str s) \<le> length s"
  by (simp add: c_str_def length_takeWhile_le)

end
