(* ===== verification/C_Runtime.thy ===== *)
theory C_Runtime
  imports Svn_Prelude
begin

section \<open>The pieces of the C library the server calls\<close>

text \<open>
  \<open>isspace\<close>, \<open>isdigit\<close> and \<open>strtol\<close> (base 10, 64-bit \<open>long\<close>) as the C standard gives
  them in the \<open>"C"\<close> locale, the digits \<open>printf\<close> writes for \<open>%d\<close> and \<open>%u\<close>, and
  \<open>std::string::assign\<close> from a pointer and a count. The lemmas show that \<open>strtol\<close>
  reads back what \<open>%u\<close> wrote and always returns a \<open>long\<close>.
\<close>

subsection \<open>Character classes and numbers\<close>

definition is_space :: "char \<Rightarrow> bool" where
  "is_space c \<longleftrightarrow> c = CHR '' '' \<or> (9 \<le> uchar c \<and> uchar c \<le> 13)"

definition is_digit :: "char \<Rightarrow> bool" where
  "is_digit c \<longleftrightarrow> 48 \<le> uchar c \<and> uchar c \<le> 57"

definition digits_value :: "string \<Rightarrow> int" where
  "digits_value s = foldl (\<lambda>v c. 10 * v + (uchar c - 48)) 0 s"

definition LONG_MAX :: int where
  "LONG_MAX = 9223372036854775807"

definition LONG_MIN :: int where
  "LONG_MIN = - 9223372036854775808"

text \<open>
  \<open>strtol(s, &c, 10)\<close>: white space, an optional sign, digits; the value saturates at
  the ends of \<open>long\<close>, and no digits give 0. The end pointer is not used by the source.
\<close>

definition strtol :: "string \<Rightarrow> int" where
  "strtol s =
     (let t = dropWhile is_space (c_str s);
          neg = (case t of [] \<Rightarrow> False | c # _ \<Rightarrow> c = CHR ''-'');
          u = (case t of [] \<Rightarrow> [] | c # r \<Rightarrow> if c = CHR ''-'' \<or> c = CHR ''+'' then r else t);
          v = digits_value (takeWhile is_digit u)
      in if neg then max LONG_MIN (- v) else min LONG_MAX v)"

text \<open>The decimal digits of a number, as \<open>printf\<close> writes them.\<close>

definition digit :: "nat \<Rightarrow> char" where
  "digit d = char_of (48 + d)"

fun show_nat :: "nat \<Rightarrow> string" where
  "show_nat n = (if n < 10 then [digit n] else show_nat (n div 10) @ [digit (n mod 10)])"

declare show_nat.simps [simp del]

definition show_int :: "int \<Rightarrow> string" where
  "show_int i = (if i < 0 then CHR ''-'' # show_nat (nat (- i)) else show_nat (nat i))"

text \<open>\<open>%02d\<close>, and what \<open>snprintf(buf, n, ...)\<close> leaves in \<open>buf\<close> (before its NUL).\<close>

definition show_02d :: "int \<Rightarrow> string" where
  "show_02d i = (let s = show_int i in if length s < 2 then CHR ''0'' # s else s)"

definition snprintf_text :: "nat \<Rightarrow> string \<Rightarrow> string" where
  "snprintf_text n s = take (n - 1) s"

subsection \<open>Strings\<close>

text \<open>
  \<open>s.assign(p, n)\<close> where \<open>p\<close> points at the characters \<open>rest\<close> of the buffer and \<open>n\<close> is a
  \<open>long\<close>: the count is converted to \<open>size_t\<close>, so a negative one is larger than
  \<open>max_size()\<close> and the call throws \<open>std::length_error\<close>; a count past the end of the
  buffer would read outside it.
\<close>

definition string_assign :: "string \<Rightarrow> int \<Rightarrow> string eff" where
  "string_assign rest n =
     (if n < 0 then Inl LengthError
      else if length rest < nat n then Inl OutOfBounds
      else Inr (take (nat n) rest))"

subsection \<open>Facts\<close>

lemma uchar_digit: "d < 10 \<Longrightarrow> uchar (digit d) = 48 + int d"
proof -
  assume "d < 10"
  then have "(of_char (digit d) :: nat) = 48 + d"
    by (simp add: digit_def)
  then show ?thesis by (simp only: uchar_nat)
qed

lemma is_digit_digit [simp]: "d < 10 \<Longrightarrow> is_digit (digit d)"
  by (simp add: is_digit_def uchar_digit)

lemma digits_value_Nil [simp]: "digits_value [] = 0"
  by (simp add: digits_value_def)

lemma digits_value_snoc: "digits_value (s @ [c]) = 10 * digits_value s + (uchar c - 48)"
  by (simp add: digits_value_def)

lemma digits_value_nonneg: "\<forall>c \<in> set s. is_digit c \<Longrightarrow> 0 \<le> digits_value s"
  by (induction s rule: rev_induct) (auto simp: digits_value_snoc is_digit_def)

lemma show_nat_digits: "\<forall>c \<in> set (show_nat n). is_digit c"
proof (induction n rule: show_nat.induct)
  case (1 n)
  then show ?case by (subst show_nat.simps) auto
qed

lemma show_nat_nonempty [simp]: "show_nat n \<noteq> []"
  by (subst show_nat.simps) simp

lemma digits_value_show_nat: "digits_value (show_nat n) = int n"
proof (induction n rule: show_nat.induct)
  case (1 n)
  show ?case
  proof (cases "n < 10")
    case True
    then show ?thesis
      using digits_value_snoc [of "[]" "digit n"] by (subst show_nat.simps) (simp add: uchar_digit)
  next
    case False
    with 1 have "digits_value (show_nat n) = 10 * int (n div 10) + int (n mod 10)"
      by (subst show_nat.simps) (simp add: digits_value_snoc uchar_digit)
    then show ?thesis
      by (metis mult_div_mod_eq of_nat_add of_nat_mult of_nat_numeral)
  qed
qed

lemma length_show_nat: "n < 10 ^ k \<Longrightarrow> 0 < k \<Longrightarrow> length (show_nat n) \<le> k"
proof (induction n arbitrary: k rule: show_nat.induct)
  case (1 n)
  show ?case
  proof (cases "n < 10")
    case True
    with 1 show ?thesis by (subst show_nat.simps) simp
  next
    case False
    with "1.prems" obtain j where k: "k = Suc j" and "0 < j"
      by (cases k; cases "k - 1") auto
    with "1.prems" have "n div 10 < 10 ^ j" by (simp add: less_mult_imp_div_less mult.commute)
    with False \<open>0 < j\<close> have "length (show_nat (n div 10)) \<le> j" using "1.IH" by blast
    with False k show ?thesis by (subst show_nat.simps) simp
  qed
qed

lemma digit_facts:
  assumes "is_digit c"
  shows "\<not> is_space c" "c \<noteq> CHR ''-''" "c \<noteq> CHR ''+''" "c \<noteq> nul" "c \<noteq> CHR '':''"
    "c \<noteq> CHR ''(''" "c \<noteq> CHR '')''" "c \<noteq> CHR '' ''" "c \<noteq> CHR 0x0A"
  using assms by (auto simp: is_digit_def is_space_def uchar_def)

lemma strtol_digits:
  assumes "s \<noteq> []" "\<forall>c \<in> set s. is_digit c"
  shows "strtol s = min LONG_MAX (digits_value s)"
proof -
  obtain d r where s: "s = d # r" using assms(1) by (cases s) auto
  then have "is_digit d" using assms(2) by simp
  note d = digit_facts [OF this]
  have "c_str s = s"
    using assms(2) digit_facts(4) by (intro c_str_id) blast
  then show ?thesis
    using assms(2) s d by (simp add: strtol_def takeWhile_all)
qed

lemma strtol_show_nat: "int n \<le> LONG_MAX \<Longrightarrow> strtol (show_nat n) = int n"
  using strtol_digits [OF show_nat_nonempty show_nat_digits]
  by (simp add: digits_value_show_nat)

lemma strtol_bounds: "LONG_MIN \<le> strtol s" "strtol s \<le> LONG_MAX"
proof -
  have nn: "0 \<le> digits_value (takeWhile is_digit u)" for u
    using set_takeWhileD by (intro digits_value_nonneg) fastforce
  have "LONG_MIN \<le> (if b then max LONG_MIN (- v) else min LONG_MAX v)
      \<and> (if b then max LONG_MIN (- v) else min LONG_MAX v) \<le> LONG_MAX" if "0 \<le> v" for b v
    using that by (auto simp: LONG_MIN_def LONG_MAX_def)
  from this [OF nn] show "LONG_MIN \<le> strtol s" "strtol s \<le> LONG_MAX"
    by (simp_all only: strtol_def Let_def)
qed

lemma string_assign_simps [fault_simps]:
  "n < 0 \<Longrightarrow> string_assign rest n = Inl LengthError"
  "0 \<le> n \<Longrightarrow> nat n \<le> length rest \<Longrightarrow> string_assign rest n = Inr (take (nat n) rest)"
  by (simp_all add: string_assign_def)

end
