(* ===== verification/Toml.thy ===== *)
theory Toml
  imports Svn_Prelude "HOL-Library.AList"
begin

section \<open>The TOML tree (\<open>cpptoml.h\<close>: \<open>base\<close>, \<open>value\<close>, \<open>array\<close>, \<open>table_array\<close>, \<open>table\<close>)\<close>

text \<open>
  The configuration files are read into a tree of \<open>cpptoml::base\<close> objects, which the
  server queries by "qualified" keys such as \<open>Host.address\<close>. \<open>toml\<close> is that tree: one
  constructor for each concrete class, with \<open>value<T>\<close> split by its five types. The
  type of \<open>double\<close> is the parameter \<open>'d\<close>, because the server never looks inside a float.
  A table's \<open>unordered_map\<close> is an association list whose keys are distinct
  (\<open>table_inv\<close>). A null \<open>shared_ptr\<close> result is \<open>None\<close>.

  What the lookups promise their clients is stated as the interface \<open>keyed_store\<close>
  (a key that is contained can be got, one that is not throws) and its extension
  \<open>updatable_store\<close>, both interpreted here on the operations of \<open>table\<close>.
\<close>

subsection \<open>Data\<close>

record datetime =
  year :: int
  month :: int
  day :: int
  hour :: int
  minute :: int
  second :: int
  microsecond :: int
  hour_offset :: int
  minute_offset :: int

datatype 'd toml =
    TString string
  | TInt int
  | TDouble 'd
  | TDatetime datetime
  | TBool bool
  | TArray "'d toml list"
  | TTable "(string \<times> 'd toml) list"
  | TTableArray "(string \<times> 'd toml) list list"

type_synonym 'd table = "(string \<times> 'd toml) list"

subsection \<open>\<open>base\<close>: kinds and conversions\<close>

fun is_value :: "'d toml \<Rightarrow> bool" where
  "is_value (TArray _) = False"
| "is_value (TTable _) = False"
| "is_value (TTableArray _) = False"
| "is_value _ = True"

fun is_table :: "'d toml \<Rightarrow> bool" where
  "is_table (TTable _) = True"
| "is_table _ = False"

fun is_array :: "'d toml \<Rightarrow> bool" where
  "is_array (TArray _) = True"
| "is_array _ = False"

fun is_table_array :: "'d toml \<Rightarrow> bool" where
  "is_table_array (TTableArray _) = True"
| "is_table_array _ = False"

fun as_table :: "'d toml \<Rightarrow> 'd table option" where
  "as_table (TTable t) = Some t"
| "as_table _ = None"

fun as_array :: "'d toml \<Rightarrow> 'd toml list option" where
  "as_array (TArray a) = Some a"
| "as_array _ = None"

fun as_table_array :: "'d toml \<Rightarrow> 'd table list option" where
  "as_table_array (TTableArray ts) = Some ts"
| "as_table_array _ = None"

text \<open>\<open>as<T>()\<close> for the four types with no conversion, then \<open>double\<close>, which an integer converts to.\<close>

fun as_string :: "'d toml \<Rightarrow> string option" where
  "as_string (TString s) = Some s"
| "as_string _ = None"

fun as_int :: "'d toml \<Rightarrow> int option" where
  "as_int (TInt i) = Some i"
| "as_int _ = None"

fun as_bool :: "'d toml \<Rightarrow> bool option" where
  "as_bool (TBool b) = Some b"
| "as_bool _ = None"

fun as_datetime :: "'d toml \<Rightarrow> datetime option" where
  "as_datetime (TDatetime d) = Some d"
| "as_datetime _ = None"

fun as_double :: "(int \<Rightarrow> 'd) \<Rightarrow> 'd toml \<Rightarrow> 'd option" where
  "as_double cast (TDouble d) = Some d"
| "as_double cast (TInt i) = Some (cast i)"
| "as_double cast _ = None"

text \<open>\<open>p->as<T>()->get()\<close>, with the null pointer of a failed conversion dereferenced.\<close>

definition deref :: "'a option \<Rightarrow> 'a eff" where
  "deref p = (case p of None \<Rightarrow> Inl NullDeref | Some x \<Rightarrow> Inr x)"

lemma deref_simps [simp, fault_simps]:
  "deref (Some x) = Inr x"
  "deref None = Inl NullDeref"
  by (simp_all add: deref_def)

subsection \<open>\<open>array\<close>\<close>

text \<open>
  \<open>push_back(shared_ptr<value<T>>)\<close> tests \<open>values_[0]->as<T>()\<close>, where \<open>T\<close> is the type of
  the new value; \<open>push_back(shared_ptr<array>)\<close> tests \<open>values_[0]->is_array()\<close>.
\<close>

fun converts_to_type_of :: "'d toml \<Rightarrow> 'd toml \<Rightarrow> bool" where
  "converts_to_type_of x (TString _) = (as_string x \<noteq> None)"
| "converts_to_type_of x (TInt _) = (as_int x \<noteq> None)"
| "converts_to_type_of x (TDouble d) = (as_double (\<lambda>_. d) x \<noteq> None)"
| "converts_to_type_of x (TDatetime _) = (as_datetime x \<noteq> None)"
| "converts_to_type_of x (TBool _) = (as_bool x \<noteq> None)"
| "converts_to_type_of x v = False"

definition array_push_value :: "'d toml list \<Rightarrow> 'd toml \<Rightarrow> 'd toml list eff" where
  "array_push_value a v =
     (case a of
        [] \<Rightarrow> Inr (a @ [v])
      | x # _ \<Rightarrow> if converts_to_type_of x v then Inr (a @ [v])
                else Inl (RuntimeError ''Arrays must be homogenous.''))"

definition array_push_array :: "'d toml list \<Rightarrow> 'd toml list \<Rightarrow> 'd toml list eff" where
  "array_push_array a v =
     (case a of
        [] \<Rightarrow> Inr (a @ [TArray v])
      | x # _ \<Rightarrow> if is_array x then Inr (a @ [TArray v])
                else Inl (RuntimeError ''Arrays must be homogenous.''))"

definition array_at :: "'d toml list \<Rightarrow> nat \<Rightarrow> 'd toml eff" where
  "array_at a i = (if i < length a then Inr (a ! i) else Inl OutOfRange)"

definition nested_array :: "'d toml list \<Rightarrow> 'd toml list option list" where
  "nested_array a = map (\<lambda>v. if is_array v then as_array v else None) a"

subsection \<open>\<open>table\<close>\<close>

definition contains :: "'d table \<Rightarrow> string \<Rightarrow> bool" where
  "contains t k \<longleftrightarrow> map_of t k \<noteq> None"

definition get :: "'d table \<Rightarrow> string \<Rightarrow> 'd toml eff" where
  "get t k = (case map_of t k of None \<Rightarrow> Inl OutOfRange | Some v \<Rightarrow> Inr v)"

definition insert_key :: "'d table \<Rightarrow> string \<Rightarrow> 'd toml \<Rightarrow> 'd table" where
  "insert_key t k v = AList.update k v t"

definition erase_key :: "'d table \<Rightarrow> string \<Rightarrow> 'd table" where
  "erase_key t k = AList.delete k t"

definition get_table :: "'d table \<Rightarrow> string \<Rightarrow> 'd table option eff" where
  "get_table t k =
     (if contains t k then
        andThen (get t k) (\<lambda>b. if is_table b then andThen (get t k) (\<lambda>c. Inr (as_table c)) else Inr None)
      else Inr None)"

definition get_array :: "'d table \<Rightarrow> string \<Rightarrow> 'd toml list option eff" where
  "get_array t k = (if \<not> contains t k then Inr None else andThen (get t k) (\<lambda>b. Inr (as_array b)))"

definition get_table_array :: "'d table \<Rightarrow> string \<Rightarrow> 'd table list option eff" where
  "get_table_array t k = (if \<not> contains t k then Inr None else andThen (get t k) (\<lambda>b. Inr (as_table_array b)))"

text \<open>\<open>split\<close>: the pieces between separators; there is always a last one.\<close>

function split :: "string \<Rightarrow> char \<Rightarrow> string list" where
  "split v sep =
     (case dropWhile (\<lambda>c. c \<noteq> sep) v of
        [] \<Rightarrow> [v]
      | _ # r \<Rightarrow> takeWhile (\<lambda>c. c \<noteq> sep) v # split r sep)"
  by pat_completeness auto
termination
proof (relation "measure (\<lambda>(v, sep). length v)")
  fix v sep x r
  assume "dropWhile (\<lambda>c. c \<noteq> sep) v = x # r"
  then have "length (x # r) \<le> length v" by (metis length_dropWhile_le)
  then show "((r, sep), (v, sep)) \<in> measure (\<lambda>(v, sep). length v)" by simp
qed simp

declare split.simps [simp del]

text \<open>
  \<open>resolve_qualified\<close>: the tables named by all parts but the last, then the last part in
  the table reached. With an output pointer a missing part throws \<open>std::out_of_range\<close> and
  the entry is stored through it; without one the result only says whether it is there.
\<close>

fun walk_tables :: "'d table \<Rightarrow> string list \<Rightarrow> 'd table option eff" where
  "walk_tables t [] = Inr (Some t)"
| "walk_tables t (part # parts) =
     andThen (get_table t part) (\<lambda>u. case u of None \<Rightarrow> Inr None | Some t' \<Rightarrow> walk_tables t' parts)"

definition resolve_qualified :: "'d table \<Rightarrow> string \<Rightarrow> bool \<Rightarrow> (bool \<times> 'd toml option) eff" where
  "resolve_qualified t key out =
     (let parts = split key (CHR ''.''); last_key = last parts
      in andThen (walk_tables t (butlast parts)) (\<lambda>u.
           case u of
             None \<Rightarrow> if out then Inl OutOfRange else Inr (False, None)
           | Some t' \<Rightarrow>
               if \<not> out then Inr (contains t' last_key, None)
               else andThen (get t' last_key) (\<lambda>v. Inr (True, Some v))))"

definition contains_qualified :: "'d table \<Rightarrow> string \<Rightarrow> bool" where
  "contains_qualified t key = (case resolve_qualified t key False of Inr (b, _) \<Rightarrow> b | Inl _ \<Rightarrow> False)"

definition get_qualified :: "'d table \<Rightarrow> string \<Rightarrow> 'd toml eff" where
  "get_qualified t key = andThen (resolve_qualified t key True) (\<lambda>(_, p). deref p)"

definition get_table_qualified :: "'d table \<Rightarrow> string \<Rightarrow> 'd table option eff" where
  "get_table_qualified t k =
     (if contains_qualified t k then
        andThen (get_qualified t k) (\<lambda>b.
          if is_table b then andThen (get_qualified t k) (\<lambda>c. Inr (as_table c)) else Inr None)
      else Inr None)"

definition get_array_qualified :: "'d table \<Rightarrow> string \<Rightarrow> 'd toml list option eff" where
  "get_array_qualified t k =
     (if \<not> contains_qualified t k then Inr None else andThen (get_qualified t k) (\<lambda>b. Inr (as_array b)))"

definition get_table_array_qualified :: "'d table \<Rightarrow> string \<Rightarrow> 'd table list option eff" where
  "get_table_array_qualified t k =
     (if \<not> contains_qualified t k then Inr None
      else andThen (get_qualified t k) (\<lambda>b. Inr (as_table_array b)))"

text \<open>\<open>get_as<T>\<close> and \<open>get_qualified_as<T>\<close>, for a conversion \<open>as\<close>; only \<open>out_of_range\<close> is caught.\<close>

definition catch_out_of_range :: "'a option eff \<Rightarrow> 'a option eff" where
  "catch_out_of_range m = (case m of Inl OutOfRange \<Rightarrow> Inr None | _ \<Rightarrow> m)"

definition get_as :: "('d toml \<Rightarrow> 'a option) \<Rightarrow> 'd table \<Rightarrow> string \<Rightarrow> 'a option eff" where
  "get_as conv t k = catch_out_of_range (andThen (get t k) (\<lambda>b. Inr (conv b)))"

definition get_qualified_as :: "('d toml \<Rightarrow> 'a option) \<Rightarrow> 'd table \<Rightarrow> string \<Rightarrow> 'a option eff" where
  "get_qualified_as conv t k = catch_out_of_range (andThen (get_qualified t k) (\<lambda>b. Inr (conv b)))"

subsection \<open>The interface the clients rely on\<close>

text \<open>
  Every client first asks whether a key is there and only then fetches it. The law that
  makes this safe: a key that is there can be fetched, one that is not throws
  \<open>std::out_of_range\<close>.
\<close>

locale keyed_store =
  fixes has :: "'t \<Rightarrow> 'k \<Rightarrow> bool"
    and fetch :: "'t \<Rightarrow> 'k \<Rightarrow> 'v eff"
  assumes fetch_present: "has t k \<Longrightarrow> returns (fetch t k)"
    and fetch_absent: "\<not> has t k \<Longrightarrow> fetch t k = Inl OutOfRange"
begin

lemma has_iff_fetch: "has t k \<longleftrightarrow> (\<exists>v. fetch t k = Inr v)"
  using fetch_present [of t k] fetch_absent [of t k] by (cases "has t k") (auto simp: returns_def)

lemma guarded_fetch:
  "(if has t k then andThen (fetch t k) f else d) = (case fetch t k of Inr v \<Rightarrow> f v | Inl _ \<Rightarrow> d)"
  using fetch_present [of t k] fetch_absent [of t k] by (cases "has t k") (auto simp: returns_def)

lemma guarded_in_range:
  assumes "\<And>v. f v \<noteq> Inl OutOfRange" and "d \<noteq> Inl OutOfRange"
  shows "(if has t k then andThen (fetch t k) f else d) \<noteq> Inl OutOfRange"
  using assms unfolding guarded_fetch by (auto split: sum.splits)

end

text \<open>A store that can also be written: what was put is what is fetched, and nothing else changes.\<close>

locale updatable_store = keyed_store +
  fixes put :: "'t \<Rightarrow> 'k \<Rightarrow> 'v \<Rightarrow> 't"
    and remove :: "'t \<Rightarrow> 'k \<Rightarrow> 't"
  assumes fetch_put: "fetch (put t k v) j = (if j = k then Inr v else fetch t j)"
    and fetch_remove: "fetch (remove t k) j = (if j = k then Inl OutOfRange else fetch t j)"
begin

lemma has_put: "has (put t k v) j \<longleftrightarrow> j = k \<or> has t j"
  by (simp add: has_iff_fetch fetch_put)

lemma has_remove: "has (remove t k) j \<longleftrightarrow> j \<noteq> k \<and> has t j"
  by (simp add: has_iff_fetch fetch_remove)

lemma remove_put: "fetch (remove (put t k v) k) j = fetch (remove t k) j"
  by (simp add: fetch_put fetch_remove)

end

interpretation plain_keys: updatable_store contains get insert_key erase_key
  by unfold_locales
    (auto simp: contains_def get_def insert_key_def erase_key_def AList.update_conv' AList.delete_conv'
      split: option.splits)

subsection \<open>\<open>split\<close> and qualified keys\<close>

definition join_dots :: "string list \<Rightarrow> string" where
  "join_dots ps = concat (map (\<lambda>p. p @ ''.'') (butlast ps)) @ last ps"

lemma split_end: "dropWhile (\<lambda>c. c \<noteq> sep) v = [] \<Longrightarrow> split v sep = [v]"
  by (simp only: split.simps [of v sep] list.case)

lemma split_step:
  "dropWhile (\<lambda>c. c \<noteq> sep) v = x # r \<Longrightarrow> split v sep = takeWhile (\<lambda>c. c \<noteq> sep) v # split r sep"
  by (simp only: split.simps [of v sep] list.case)

lemma split_nonempty [simp]: "split v sep \<noteq> []"
  by (cases "dropWhile (\<lambda>c. c \<noteq> sep) v") (simp_all add: split_end split_step)

lemma split_last: "sep \<notin> set p \<Longrightarrow> split p sep = [p]"
  by (rule split_end) (auto simp: dropWhile_eq_Nil_conv)

lemma split_cons:
  assumes "sep \<notin> set p"
  shows "split (p @ sep # v) sep = p # split v sep"
proof -
  have p: "\<forall>c \<in> set p. c \<noteq> sep" using assms by auto
  show ?thesis
    using split_step [OF dropWhile_append_stop [OF p]] takeWhile_append_stop [OF p] by simp
qed

lemma split_join:
  "ps \<noteq> [] \<Longrightarrow> \<forall>p \<in> set ps. CHR ''.'' \<notin> set p \<Longrightarrow> split (join_dots ps) (CHR ''.'') = ps"
proof (induction ps)
  case (Cons p ps)
  then show ?case
    by (cases ps) (auto simp: join_dots_def split_last split_cons)
qed simp

lemma join_split: "join_dots (split v (CHR ''.'')) = v"
proof (induction v "CHR ''.''" rule: split.induct)
  case (1 v)
  show ?case
  proof (cases "dropWhile (\<lambda>c. c \<noteq> CHR ''.'') v")
    case Nil
    then show ?thesis by (simp add: split_end join_dots_def)
  next
    case (Cons x r)
    have x: "x = CHR ''.''" using hd_dropWhile [of "\<lambda>c. c \<noteq> CHR ''.''" v] Cons by auto
    have "join_dots (split v (CHR ''.'')) =
        takeWhile (\<lambda>c. c \<noteq> CHR ''.'') v @ CHR ''.'' # join_dots (split r (CHR ''.''))"
      using split_step [OF Cons] by (simp add: join_dots_def)
    also have "\<dots> = takeWhile (\<lambda>c. c \<noteq> CHR ''.'') v @ dropWhile (\<lambda>c. c \<noteq> CHR ''.'') v"
      using 1 [OF Cons] Cons x by simp
    finally show ?thesis by simp
  qed
qed

lemma split_parts: "p \<in> set (split v sep) \<Longrightarrow> sep \<notin> set p"
proof (induction v sep rule: split.induct)
  case (1 v sep)
  show ?case
  proof (cases "dropWhile (\<lambda>c. c \<noteq> sep) v")
    case Nil
    with "1.prems" show ?thesis by (auto simp: split_end dropWhile_eq_Nil_conv)
  next
    case (Cons x r)
    with "1.prems" have "p = takeWhile (\<lambda>c. c \<noteq> sep) v \<or> p \<in> set (split r sep)"
      by (simp add: split_step)
    then show ?thesis using "1.IH" [OF Cons] by (auto dest: set_takeWhileD)
  qed
qed

text \<open>What a qualified key means: the value at the end of a path of tables.\<close>

fun path_lookup :: "'d table \<Rightarrow> string list \<Rightarrow> 'd toml option" where
  "path_lookup t [] = None"
| "path_lookup t [k] = map_of t k"
| "path_lookup t (k # ks) = (case map_of t k of Some (TTable u) \<Rightarrow> path_lookup u ks | _ \<Rightarrow> None)"

lemma get_table_eq:
  "get_table t k = Inr (case map_of t k of Some (TTable u) \<Rightarrow> Some u | _ \<Rightarrow> None)"
  by (auto simp: get_table_def contains_def get_def split: option.splits toml.splits)

lemma path_lookup_walk:
  "ks \<noteq> [] \<Longrightarrow> \<exists>u. walk_tables t (butlast ks) = Inr u \<and>
     path_lookup t ks = (case u of None \<Rightarrow> None | Some t' \<Rightarrow> map_of t' (last ks))"
proof (induction t ks rule: path_lookup.induct)
  case (3 t k j ks)
  show ?case
  proof (cases "\<exists>u. map_of t k = Some (TTable u)")
    case True
    then obtain u where u: "map_of t k = Some (TTable u)" by blast
    have "walk_tables t (butlast (k # j # ks)) = walk_tables u (butlast (j # ks))"
      by (simp add: get_table_eq u)
    moreover have "path_lookup t (k # j # ks) = path_lookup u (j # ks)"
      by (simp add: u)
    moreover have "last (k # j # ks) = last (j # ks)" by simp
    ultimately show ?thesis using "3.IH" [OF u refl list.distinct(2)] by (simp only:)
  next
    case False
    then show ?thesis by (auto simp: get_table_eq split: option.splits toml.splits)
  qed
qed auto

lemma resolve_qualified_eq:
  "resolve_qualified t key out =
     (case path_lookup t (split key (CHR ''.'')) of
        None \<Rightarrow> if out then Inl OutOfRange else Inr (False, None)
      | Some v \<Rightarrow> Inr (True, if out then Some v else None))"
  using path_lookup_walk [of "split key (CHR ''.'')" t]
  by (auto simp: resolve_qualified_def Let_def contains_def get_def split: option.splits)

lemma get_qualified_eq:
  "get_qualified t key =
     (case path_lookup t (split key (CHR ''.'')) of None \<Rightarrow> Inl OutOfRange | Some v \<Rightarrow> Inr v)"
  by (auto simp: get_qualified_def resolve_qualified_eq split: option.splits)

lemma contains_qualified_eq:
  "contains_qualified t key \<longleftrightarrow> path_lookup t (split key (CHR ''.'')) \<noteq> None"
  by (auto simp: contains_qualified_def resolve_qualified_eq split: option.splits)

interpretation dotted_keys: keyed_store contains_qualified get_qualified
  by unfold_locales (auto simp: contains_qualified_eq get_qualified_eq split: option.splits)

lemma get_table_array_qualified_eq:
  "get_table_array_qualified t k =
     Inr (case path_lookup t (split k (CHR ''.'')) of Some (TTableArray ts) \<Rightarrow> Some ts | _ \<Rightarrow> None)"
  by (auto simp: get_table_array_qualified_def get_qualified_eq contains_qualified_eq
      split: option.splits toml.splits)

text \<open>
  The access pattern of every client:
  \<open>if (g->contains_qualified(key)) return g->get_qualified(key)->as<T>()->get(); return v;\<close>
\<close>

definition qualified_or :: "('d toml \<Rightarrow> 'a option) \<Rightarrow> 'd table \<Rightarrow> string \<Rightarrow> 'a \<Rightarrow> 'a eff" where
  "qualified_or conv g key v =
     (if contains_qualified g key then andThen (get_qualified g key) (\<lambda>b. deref (conv b)) else Inr v)"

lemma qualified_or_eq:
  "qualified_or conv g key v =
     (case path_lookup g (split key (CHR ''.'')) of None \<Rightarrow> Inr v | Some b \<Rightarrow> deref (conv b))"
  unfolding qualified_or_def dotted_keys.guarded_fetch
  by (simp add: get_qualified_eq split: option.splits)

lemma qualified_or_fault: "qualified_or conv g key v = Inl f \<Longrightarrow> f = NullDeref"
  by (auto simp: qualified_or_eq deref_def split: option.splits)

subsection \<open>Properties\<close>

text \<open>
  C20: a dotted key is a path. For key parts without dots, the qualified lookup of
  \<open>k1.k2...kn\<close> returns the value at the end of that path of tables, and throws
  \<open>std::out_of_range\<close> exactly when there is none, which \<open>contains_qualified\<close> tells
  beforehand.
\<close>

theorem qualified_lookup_is_path:
  assumes "ks \<noteq> []" and "\<forall>k \<in> set ks. CHR ''.'' \<notin> set k"
  shows "get_qualified t (join_dots ks) =
      (case path_lookup t ks of None \<Rightarrow> Inl OutOfRange | Some v \<Rightarrow> Inr v) \<and>
    contains_qualified t (join_dots ks) = (path_lookup t ks \<noteq> None)"
  using split_join [OF assms] by (simp add: get_qualified_eq contains_qualified_eq)

theorem qualified_lookup_is_path_witness:
  "get_qualified [(''Host'', TTable [(''port'', TInt 3690)])] ''Host.port'' = Inr (TInt 3690 :: nat toml)"
  using qualified_lookup_is_path
    [of "[''Host'', ''port'']" "[(''Host'', TTable [(''port'', TInt 3690 :: nat toml)])]"]
  by (simp add: join_dots_def)

text \<open>
  Splitting a key loses nothing. Joining the parts with dots gives the key back, no
  part holds a dot, and the parts of a joined list are that list.
\<close>

theorem split_join_roundtrip:
  "join_dots (split v (CHR ''.'')) = v \<and> (\<exists>p \<in> set (split v (CHR ''.'')). CHR ''.'' \<in> set p) = False"
  using join_split split_parts by blast

fun same_kind :: "'d toml \<Rightarrow> 'd toml \<Rightarrow> bool" where
  "same_kind (TString _) (TString _) = True"
| "same_kind (TInt _) (TInt _) = True"
| "same_kind (TDouble _) (TDouble _) = True"
| "same_kind (TDatetime _) (TDatetime _) = True"
| "same_kind (TBool _) (TBool _) = True"
| "same_kind (TArray _) (TArray _) = True"
| "same_kind _ _ = False"

inductive built_array :: "'d toml list \<Rightarrow> bool" where
  empty: "built_array []"
| push_value: "built_array a \<Longrightarrow> is_value v \<Longrightarrow> array_push_value a v = Inr b \<Longrightarrow> built_array b"
| push_array: "built_array a \<Longrightarrow> array_push_array a v = Inr b \<Longrightarrow> built_array b"

definition array_inv :: "'d toml list \<Rightarrow> bool" where
  "array_inv a \<longleftrightarrow> (\<forall>x \<in> set a. same_kind (hd a) x \<or> as_int (hd a) \<noteq> None \<and> (\<exists>d. x = TDouble d))"

lemma array_push_value_inv:
  assumes "array_inv a" "is_value v" "array_push_value a v = Inr b"
  shows "array_inv b"
proof (cases a)
  case Nil
  with assms show ?thesis by (cases v) (auto simp: array_inv_def array_push_value_def)
next
  case (Cons x xs)
  with assms show ?thesis
    by (cases v; cases x) (auto simp: array_inv_def array_push_value_def split: if_splits)
qed

lemma array_push_array_inv:
  assumes "array_inv a" "array_push_array a v = Inr b"
  shows "array_inv b"
proof (cases a)
  case Nil
  with assms show ?thesis by (auto simp: array_inv_def array_push_array_def)
next
  case (Cons x xs)
  with assms show ?thesis
    by (cases x) (auto simp: array_inv_def array_push_array_def split: if_splits)
qed

text \<open>
  What an array built by \<open>push_back\<close> can hold. Either every element has the type of
  the first, or the first is an integer and every other element an integer or a double:
  the "homogenous" test lets a double follow an integer, though not the reverse.
\<close>

theorem built_array_kinds:
  assumes "built_array a"
  shows "array_inv a"
  using assms
proof (induction rule: built_array.induct)
  case empty
  then show ?case by (simp add: array_inv_def)
qed (blast intro: array_push_value_inv array_push_array_inv)+

theorem built_array_kinds_witness:
  "array_inv [TInt 1, TDouble (0::nat)] \<and> \<not> same_kind (TInt 1) (TDouble (0::nat))"
proof -
  have "built_array [TInt 1 :: nat toml]"
    by (rule built_array.push_value [OF built_array.empty, of "TInt 1"]) (simp_all add: array_push_value_def)
  then have "built_array [TInt 1, TDouble (0::nat)]"
    by (rule built_array.push_value [of _ "TDouble 0"]) (simp_all add: array_push_value_def)
  from built_array_kinds [OF this] show ?thesis by simp
qed

end
