(* ===== verification/Toml_Parser.thy ===== *)
theory Toml_Parser
  imports C_Runtime Toml
begin

section \<open>Reading TOML (\<open>cpptoml.h\<close>: \<open>parser\<close>, \<open>parse_file\<close>)\<close>

text \<open>
  The parser works line by line: \<open>line_\<close> is the current line, \<open>it\<close> runs to its \<open>end\<close>, and values that span lines
  fetch the next with \<open>getline\<close>. A \<open>scanner\<close> has what is left of the line from \<open>it\<close> on, the lines not yet read, and
  the number of lines read. Dereferencing \<open>it\<close> at the end of the line is undefined and is the fault
  \<open>OutOfBounds\<close>, as is moving past it. The functions that stay on a line take the number of the line and the
  rest of it.

  \<open>curr_table\<close>, a pointer into the tree, is the path of keys from the root; a table array on the path stands for its last
  element, which is where the code's pointer is. \<open>std::stod\<close> is the argument \<open>stod\<close> (\<open>None\<close> is
  \<open>std::out_of_range\<close>), as the model does not look inside a float. No build of the repository defines
  \<open>CPPTOML_HAS_STD_REGEX\<close>, so a date is recognised by the look ahead at its separators; the test by the regular expression is
  \<open>is_date_regex\<close>, which is stricter.

  Values nest, so the functions for them have fuel; the result \<open>None\<close> is out of fuel, and
  \<open>Toml_Reading\<close> shows that \<open>parse\<close> gives enough.
\<close>

subsection \<open>The scanner\<close>

record scanner =
  cur :: string
  input_lines :: "string list"
  line_number :: nat

text \<open>\<open>throw_parse_exception\<close>.\<close>

definition throw :: "nat \<Rightarrow> string \<Rightarrow> 'a eff" where
  "throw ln err = Inl (ParseException (err @ '' at line '' @ show_nat ln))"

definition peek :: "string \<Rightarrow> char eff" where
  "peek r = (case r of [] \<Rightarrow> Inl OutOfBounds | c # _ \<Rightarrow> Inr c)"

definition advance :: "string \<Rightarrow> string eff" where
  "advance r = (case r of [] \<Rightarrow> Inl OutOfBounds | _ # q \<Rightarrow> Inr q)"

lemma peek_simps [simp, fault_simps]: "peek [] = Inl OutOfBounds" "peek (c # r) = Inr c"
  by (simp_all add: peek_def)

lemma advance_simps [simp, fault_simps]: "advance [] = Inl OutOfBounds" "advance (c # r) = Inr r"
  by (simp_all add: advance_def)

abbreviation dquote :: char where "dquote \<equiv> CHR 0x22"
abbreviation squote :: char where "squote \<equiv> CHR 0x27"
abbreviation backslash :: char where "backslash \<equiv> CHR 0x5C"
abbreviation linefeed :: char where "linefeed \<equiv> CHR 0x0A"

definition is_blank :: "char \<Rightarrow> bool" where
  "is_blank c \<longleftrightarrow> c = CHR '' '' \<or> c = CHR 0x09"

definition consume_whitespace :: "string \<Rightarrow> string" where
  "consume_whitespace r = dropWhile is_blank r"

definition is_number :: "char \<Rightarrow> bool" where
  "is_number c \<longleftrightarrow> is_digit c"

definition eol_or_comment :: "nat \<Rightarrow> string \<Rightarrow> unit eff" where
  "eol_or_comment ln r =
     (case r of
        [] \<Rightarrow> Inr ()
      | c # _ \<Rightarrow> if c \<noteq> CHR ''#'' then throw ln (''Unidentified trailing character '' @ [c] @ ''---did you forget a '' @ [squote] @ ''#'' @ [squote] @ ''?'')
                 else Inr ())"

text \<open>\<open>getline\<close> until the end of the stream: the lines without their line feeds; what follows the last one is a line unless it is empty.\<close>

fun lines_of :: "string \<Rightarrow> string \<Rightarrow> string list" where
  "lines_of l [] = (if l = [] then [] else [l])"
| "lines_of l (c # r) = (if c = linefeed then l # lines_of [] r else lines_of (l @ [c]) r)"

subsection \<open>Strings\<close>

definition parse_escape_code :: "nat \<Rightarrow> string \<Rightarrow> (char \<times> string) eff" where
  "parse_escape_code ln r =
     (case tl r of
        [] \<Rightarrow> throw ln ''Invalid escape sequence''
      | c # q \<Rightarrow>
          if c = CHR ''b'' then Inr (CHR 0x08, q)
          else if c = CHR ''t'' then Inr (CHR 0x09, q)
          else if c = CHR ''n'' then Inr (CHR 0x0A, q)
          else if c = CHR ''f'' then Inr (CHR 0x0C, q)
          else if c = CHR ''r'' then Inr (CHR 0x0D, q)
          else if c = dquote then Inr (dquote, q)
          else if c = backslash then Inr (backslash, q)
          else throw ln ''Invalid escape sequence'')"

lemma parse_escape_code_shorter: "parse_escape_code ln (c # r) = Inr (v, q) \<Longrightarrow> length q < length r"
  by (cases r) (auto simp: parse_escape_code_def throw_def split: if_splits)

text \<open>The loop of \<open>string_literal\<close>, behind the opening delimiter.\<close>

function literal_loop :: "nat \<Rightarrow> char \<Rightarrow> string \<Rightarrow> string \<Rightarrow> (string \<times> string) eff" where
  "literal_loop ln delim val [] = throw ln ''Unterminated string literal''"
| "literal_loop ln delim val (c # r) =
     (if delim = dquote \<and> c = backslash then
        andThen (parse_escape_code ln (c # r)) (\<lambda>(v, q). literal_loop ln delim (val @ [v]) q)
      else if c = delim then Inr (val, consume_whitespace r)
      else literal_loop ln delim (val @ [c]) r)"
  by pat_completeness auto
termination
  by (relation "measure (\<lambda>(ln, delim, val, r). length r)") (auto dest: parse_escape_code_shorter)

definition string_literal :: "nat \<Rightarrow> string \<Rightarrow> char \<Rightarrow> (string \<times> string) eff" where
  "string_literal ln r delim = andThen (advance r) (literal_loop ln delim [])"

text \<open>
  \<open>handle_line\<close> of \<open>parse_multiline_string\<close>: the string closed, with the rest of the line, or open, with \<open>consuming\<close>.
\<close>

datatype line_end = Closed string string | Open string bool

function line_loop :: "nat \<Rightarrow> char \<Rightarrow> string \<Rightarrow> string \<Rightarrow> line_end eff" where
  "line_loop ln delim ss [] = Inr (Open ss False)"
| "line_loop ln delim ss (c # r) =
     (if delim = dquote \<and> c = backslash then
        if r = [] then Inr (Open ss True)
        else andThen (parse_escape_code ln (c # r)) (\<lambda>(v, q). line_loop ln delim (ss @ [v]) q)
      else if take 3 (c # r) = [delim, delim, delim] then Inr (Closed ss (drop 3 (c # r)))
      else line_loop ln delim (ss @ [c]) r)"
  by pat_completeness auto
termination
  by (relation "measure (\<lambda>(ln, delim, ss, r). length r)") (auto dest: parse_escape_code_shorter)

definition handle_line :: "nat \<Rightarrow> char \<Rightarrow> bool \<Rightarrow> string \<Rightarrow> string \<Rightarrow> line_end eff" where
  "handle_line ln delim consuming ss r =
     (if consuming then
        let q = dropWhile is_blank r in if q = [] then Inr (Open ss True) else line_loop ln delim ss q
      else line_loop ln delim ss r)"

fun multiline_lines :: "char \<Rightarrow> bool \<Rightarrow> string \<Rightarrow> nat \<Rightarrow> string list \<Rightarrow> (string \<times> scanner) eff" where
  "multiline_lines delim consuming ss ln [] = throw ln ''Unterminated multi-line basic string''"
| "multiline_lines delim consuming ss ln (l # ls) =
     andThen (handle_line (ln + 1) delim consuming ss l) (\<lambda>e.
       case e of
         Closed str r \<Rightarrow> Inr (str, \<lparr>cur = r, input_lines = ls, line_number = ln + 1\<rparr>)
       | Open ss1 c \<Rightarrow> multiline_lines delim c (if c then ss1 else ss1 @ [linefeed]) (ln + 1) ls)"

definition parse_multiline_string :: "char \<Rightarrow> scanner \<Rightarrow> (string \<times> scanner) eff" where
  "parse_multiline_string delim s =
     andThen (handle_line (line_number s) delim False [] (cur s)) (\<lambda>e.
       case e of
         Closed str r \<Rightarrow> Inr (str, s\<lparr>cur := r\<rparr>)
       | Open ss c \<Rightarrow> multiline_lines delim c ss (line_number s) (input_lines s))"

text \<open>The functions that stay on the line, as functions of the scanner.\<close>

definition on_line :: "(nat \<Rightarrow> string \<Rightarrow> ('a \<times> string) eff) \<Rightarrow> scanner \<Rightarrow> ('a \<times> scanner) eff" where
  "on_line f s = andThen (f (line_number s) (cur s)) (\<lambda>(x, r). Inr (x, s\<lparr>cur := r\<rparr>))"

definition parse_string :: "scanner \<Rightarrow> (string \<times> scanner) eff" where
  "parse_string s =
     andThen (peek (cur s)) (\<lambda>delim.
       if take 2 (tl (cur s)) = [delim, delim] then parse_multiline_string delim (s\<lparr>cur := drop 3 (cur s)\<rparr>)
       else on_line (\<lambda>ln r. string_literal ln r delim) s)"

subsection \<open>Keys\<close>

text \<open>
  \<open>parse_bare_key(it, bke)\<close>: \<open>k\<close> is the text up to \<open>bke\<close>, \<open>q\<close> what follows. \<open>consume_backwards_whitespace\<close> stops at the first
  character.
\<close>

definition parse_bare_key :: "nat \<Rightarrow> string \<Rightarrow> string \<Rightarrow> (string \<times> string) eff" where
  "parse_bare_key ln k q =
     (if k = [] then throw ln ''Bare key missing name''
      else
        let key = hd k # rev (dropWhile is_blank (rev (tl k))) in
        if CHR ''#'' \<in> set key then throw ln (''Bare key '' @ key @ '' cannot contain #'')
        else if (\<exists>c \<in> set key. is_blank c) then throw ln (''Bare key '' @ key @ '' cannot contain whitespace'')
        else if CHR ''['' \<in> set key \<or> CHR '']'' \<in> set key then
          throw ln (''Bare key '' @ key @ '' cannot contain '' @ [squote] @ ''['' @ [squote] @ '' or '' @ [squote] @ '']'' @ [squote])
        else Inr (key, q))"

definition parse_key :: "(char \<Rightarrow> bool) \<Rightarrow> nat \<Rightarrow> string \<Rightarrow> (string \<times> string) eff" where
  "parse_key stop ln r =
     (let r1 = consume_whitespace r in
      andThen (peek r1) (\<lambda>c.
        if c = dquote then string_literal ln r1 dquote
        else parse_bare_key ln (takeWhile (\<lambda>c. \<not> stop c) r1) (dropWhile (\<lambda>c. \<not> stop c) r1)))"

subsection \<open>Dates\<close>

definition date_char :: "char \<Rightarrow> bool" where
  "date_char c \<longleftrightarrow> is_number c \<or> c \<in> set ''TZ:-+.''"

text \<open>
  The regular expression \<open>date_pattern_\<close> of the other branch. In a shape \<open>d\<close> stands for a digit and every other character for itself.
\<close>

fun match_shape :: "string \<Rightarrow> string \<Rightarrow> string option" where
  "match_shape [] s = Some s"
| "match_shape (p # ps) [] = None"
| "match_shape (p # ps) (c # s) = (if (if p = CHR ''d'' then is_number c else c = p) then match_shape ps s else None)"

definition matches_date :: "string \<Rightarrow> bool" where
  "matches_date s =
     (case match_shape ''dddd-dd-ddTdd:dd:dd'' s of
        None \<Rightarrow> False
      | Some r \<Rightarrow>
          let q = (case r of
                     c # u \<Rightarrow> if c = CHR ''.'' \<and> takeWhile is_number u \<noteq> [] then dropWhile is_number u else r
                   | [] \<Rightarrow> r)
          in q = ''Z'' \<or> match_shape ''+dd:dd'' q = Some [] \<or> match_shape ''-dd:dd'' q = Some [])"

definition is_date_regex :: "string \<Rightarrow> bool" where
  "is_date_regex r = matches_date (takeWhile date_char r)"

text \<open>The branch that is compiled: the separators at their places.\<close>

definition is_date :: "string \<Rightarrow> bool" where
  "is_date r =
     (let s = takeWhile date_char r in
      20 \<le> length s \<and> s ! 4 = CHR ''-'' \<and> s ! 7 = CHR ''-'' \<and> s ! 10 = CHR ''T'' \<and> s ! 13 = CHR '':'' \<and> s ! 16 = CHR '':'')"

text \<open>
  \<open>parse_date\<close> (\<open>date_fields\<close>) runs on the date \<open>d\<close>, up to \<open>date_end\<close>; \<open>after\<close> is the rest of the line, whose first character is what
  \<open>*it\<close> is at \<open>date_end\<close>.
\<close>

definition eat :: "nat \<Rightarrow> char \<Rightarrow> string \<Rightarrow> string eff" where
  "eat ln c d = (case d of [] \<Rightarrow> throw ln ''Malformed date'' | x # q \<Rightarrow> if x \<noteq> c then throw ln ''Malformed date'' else Inr q)"

fun eat_digits :: "nat \<Rightarrow> string \<Rightarrow> nat \<Rightarrow> int \<Rightarrow> string \<Rightarrow> (int \<times> string) eff" where
  "eat_digits ln after 0 val d = Inr (val, d)"
| "eat_digits ln after (Suc n) val d =
     andThen (peek (d @ after)) (\<lambda>x.
       if \<not> is_number x \<or> d = [] then throw ln ''Malformed date''
       else eat_digits ln after n (10 * val + (uchar x - 48)) (tl d))"

text \<open>The fraction: the digits up to the end of the date; \<open>microsecond\<close> is an \<open>int\<close>.\<close>

fun eat_fraction :: "int \<Rightarrow> string \<Rightarrow> (int \<times> string) eff" where
  "eat_fraction us [] = Inr (us, [])"
| "eat_fraction us (c # d) =
     (if \<not> is_number c then Inr (us, c # d)
      else let v = 10 * us + (uchar c - 48) in if 2147483647 < v then Inl IntOverflow else eat_fraction v d)"

definition date_fields :: "nat \<Rightarrow> string \<Rightarrow> string \<Rightarrow> datetime eff" where
  "date_fields ln after d0 =
     (let digits = (\<lambda>n d. eat_digits ln after n 0 d) in
      andThen (digits 4 d0) (\<lambda>(yy, d). andThen (eat ln (CHR ''-'') d) (\<lambda>d.
      andThen (digits 2 d) (\<lambda>(mm, d). andThen (eat ln (CHR ''-'') d) (\<lambda>d.
      andThen (digits 2 d) (\<lambda>(dd, d). andThen (eat ln (CHR ''T'') d) (\<lambda>d.
      andThen (digits 2 d) (\<lambda>(hh, d). andThen (eat ln (CHR '':'') d) (\<lambda>d.
      andThen (digits 2 d) (\<lambda>(mi, d). andThen (eat ln (CHR '':'') d) (\<lambda>d.
      andThen (digits 2 d) (\<lambda>(ss, d).
      andThen (peek (d @ after)) (\<lambda>c.
      andThen (if c = CHR ''.'' then andThen (advance d) (eat_fraction 0) else Inr (0, d)) (\<lambda>(us, d).
        if d = [] then throw ln ''Malformed date''
        else
          let dt = \<lparr>year = yy, month = mm, day = dd, hour = hh, minute = mi, second = ss, microsecond = us,
                    hour_offset = 0, minute_offset = 0\<rparr> in
          andThen
            (if hd d = CHR ''+'' \<or> hd d = CHR ''-'' then
               let sign = (\<lambda>i. if hd d = CHR ''+'' then i else - i) in
               andThen (digits 2 (tl d)) (\<lambda>(hoff, d1). andThen (eat ln (CHR '':'') d1) (\<lambda>d2.
               andThen (digits 2 d2) (\<lambda>(moff, d3).
                 Inr (dt\<lparr>hour_offset := sign hoff, minute_offset := sign moff\<rparr>, d3))))
             else if hd d = CHR ''Z'' then Inr (dt, tl d)
             else Inr (dt, d)) (\<lambda>(dt1, d4).
            if d4 \<noteq> [] then throw ln ''Malformed date'' else Inr dt1)))))))))))))))"

definition parse_date :: "nat \<Rightarrow> string \<Rightarrow> (datetime \<times> string) eff" where
  "parse_date ln r =
     (let after = dropWhile date_char r in
      andThen (date_fields ln after (takeWhile date_char r)) (\<lambda>dt. Inr (dt, after)))"

subsection \<open>Numbers and booleans\<close>

definition eat_sign :: "string \<Rightarrow> string" where
  "eat_sign r = (case r of c # q \<Rightarrow> if c = CHR ''-'' \<or> c = CHR ''+'' then q else r | [] \<Rightarrow> [])"

fun numbers_loop :: "nat \<Rightarrow> string \<Rightarrow> string eff" where
  "numbers_loop ln [] = Inr []"
| "numbers_loop ln [c] = Inr (if is_number c then [] else [c])"
| "numbers_loop ln (c # u # q) =
     (if \<not> is_number c then Inr (c # u # q)
      else if u = CHR ''_'' then
        (case q of [] \<Rightarrow> throw ln ''Malformed number'' | x # _ \<Rightarrow> if \<not> is_number x then throw ln ''Malformed number'' else numbers_loop ln q)
      else numbers_loop ln (u # q))"

definition eat_numbers :: "nat \<Rightarrow> string \<Rightarrow> string eff" where
  "eat_numbers ln r = andThen (numbers_loop ln r) (\<lambda>q. if q = r then throw ln ''Malformed number'' else Inr q)"

text \<open>\<open>std::stoll\<close> on an optional sign and digits: \<open>None\<close> is \<open>std::out_of_range\<close>, whose text is \<open>stoll\<close>.\<close>

definition stoll :: "string \<Rightarrow> int option" where
  "stoll v =
     (let u = eat_sign v; n = digits_value (takeWhile is_digit u);
          i = (if v \<noteq> [] \<and> hd v = CHR ''-'' then - n else n)
      in if i < LONG_MIN \<or> LONG_MAX < i then None else Some i)"

definition parse_int :: "nat \<Rightarrow> string \<Rightarrow> 'd toml eff" where
  "parse_int ln v =
     (case stoll (filter (\<lambda>c. c \<noteq> CHR ''_'') v) of
        None \<Rightarrow> throw ln ''Malformed number (out of range: stoll)''
      | Some i \<Rightarrow> Inr (TInt i))"

definition parse_float :: "(string \<Rightarrow> 'd option) \<Rightarrow> nat \<Rightarrow> string \<Rightarrow> 'd toml eff" where
  "parse_float stod ln v =
     (case stod (filter (\<lambda>c. c \<noteq> CHR ''_'') v) of
        None \<Rightarrow> throw ln ''Malformed number (out of range: stod)''
      | Some x \<Rightarrow> Inr (TDouble x))"

definition is_exponent :: "string \<Rightarrow> bool" where
  "is_exponent q \<longleftrightarrow> q \<noteq> [] \<and> (hd q = CHR ''e'' \<or> hd q = CHR ''E'')"

text \<open>\<open>check_it\<close> runs over the rest \<open>r\<close> of the line; what it has passed is the text of the number.\<close>

definition parse_number :: "(string \<Rightarrow> 'd option) \<Rightarrow> nat \<Rightarrow> string \<Rightarrow> ('d toml \<times> string) eff" where
  "parse_number stod ln r =
     (let passed = (\<lambda>q. take (length r - length q) r) in
      andThen (eat_numbers ln (eat_sign r)) (\<lambda>q.
        if q \<noteq> [] \<and> (hd q = CHR ''.'' \<or> is_exponent q) then
          let is_exp = is_exponent q; q1 = tl q in
          if q1 = [] then throw ln ''Floats must have trailing digits''
          else
            andThen (eat_numbers ln (if is_exp then eat_sign q1 else q1)) (\<lambda>q2.
            andThen (if \<not> is_exp \<and> is_exponent q2 then eat_numbers ln (eat_sign (tl q2)) else Inr q2) (\<lambda>q3.
            andThen (parse_float stod ln (passed q3)) (\<lambda>v. Inr (v, q3))))
        else andThen (parse_int ln (passed q)) (\<lambda>v. Inr (v, q))))"

definition parse_bool :: "nat \<Rightarrow> string \<Rightarrow> (bool \<times> string) eff" where
  "parse_bool ln r =
     (let inside = (\<lambda>c. \<not> is_blank c \<and> c \<noteq> CHR ''#''); v = takeWhile inside r; q = dropWhile inside r in
      if v = ''true'' then Inr (True, q)
      else if v = ''false'' then Inr (False, q)
      else throw ln ''Attempted to parse invalid boolean value'')"

subsection \<open>Kinds of values\<close>

datatype parse_type = STRING | DATE | INTEGER | FLOAT | BOOL | ARRAY | INLINE_TABLE

text \<open>\<open>p\<close> is the text between \<open>it\<close> and \<open>end\<close>.\<close>

definition determine_number_type :: "string \<Rightarrow> parse_type" where
  "determine_number_type p =
     (let q = dropWhile is_number (eat_sign p) in if q \<noteq> [] \<and> hd q = CHR ''.'' then FLOAT else INTEGER)"

text \<open>\<open>determine_value_type(it, end)\<close>, for the rest \<open>r\<close> of the line and the number \<open>n\<close> of characters up to \<open>end\<close>.\<close>

definition determine_value_type :: "nat \<Rightarrow> string \<Rightarrow> nat \<Rightarrow> parse_type eff" where
  "determine_value_type ln r n =
     andThen (peek r) (\<lambda>c.
       if c = dquote \<or> c = squote then Inr STRING
       else if is_date (take n r) then Inr DATE
       else if is_number c \<or> c = CHR ''-'' \<or> c = CHR ''+'' then Inr (determine_number_type (take n r))
       else if c = CHR ''t'' \<or> c = CHR ''f'' then Inr BOOL
       else if c = CHR ''['' then Inr ARRAY
       else if c = CHR ''{'' then Inr INLINE_TABLE
       else throw ln ''Failed to parse value type'')"

subsection \<open>Values\<close>

text \<open>Running out of fuel is the outer \<open>None\<close>.\<close>

definition thenP :: "'a eff option \<Rightarrow> ('a \<Rightarrow> 'b eff option) \<Rightarrow> 'b eff option" where
  "thenP m f = (case m of None \<Rightarrow> None | Some (Inl e) \<Rightarrow> Some (Inl e) | Some (Inr x) \<Rightarrow> f x)"

fun skip_lines :: "nat \<Rightarrow> string list \<Rightarrow> scanner eff" where
  "skip_lines ln [] = throw ln ''Unclosed array''"
| "skip_lines ln (l # ls) =
     (let r = consume_whitespace l in
      if r = [] \<or> hd r = CHR ''#'' then skip_lines (ln + 1) ls
      else Inr \<lparr>cur = r, input_lines = ls, line_number = ln + 1\<rparr>)"

definition skip_whitespace_and_comments :: "scanner \<Rightarrow> scanner eff" where
  "skip_whitespace_and_comments s =
     (let r = consume_whitespace (cur s) in
      if r = [] \<or> hd r = CHR ''#'' then skip_lines (line_number s) (input_lines s) else Inr (s\<lparr>cur := r\<rparr>))"

text \<open>The test \<open>value->as<Value>()\<close> of \<open>parse_value_array<Value>\<close>.\<close>

fun has_type :: "parse_type \<Rightarrow> 'd toml \<Rightarrow> bool" where
  "has_type STRING (TString _) = True"
| "has_type INTEGER (TInt _) = True"
| "has_type FLOAT (TDouble _) = True"
| "has_type FLOAT (TInt _) = True"
| "has_type DATE (TDatetime _) = True"
| "has_type k v = False"

definition skip_one :: "scanner \<Rightarrow> scanner eff" where
  "skip_one s = andThen (advance (cur s)) (\<lambda>r. Inr (s\<lparr>cur := r\<rparr>))"

text \<open>
  The functions that call each other through nested values. A \<open>job\<close> is a call: which function, and what its loop has
  collected. Each function takes as \<open>call\<close> what a call of the others does; \<open>run\<close> ties the knot. \<open>Object_array\<close>
  collects arrays or tables, \<open>Inline_table\<close> is the \<open>do\<close> loop of \<open>parse_inline_table\<close>, at the brace or a comma;
  \<open>Key_value\<close> gives the table with the new key.
\<close>

datatype 'd objects = Arrays "'d toml list" | Tables "'d table list"

datatype 'd job =
    Value
  | Array
  | Value_array parse_type "'d toml list"
  | Object_array "'d objects"
  | Inline_table "'d table"
  | Key_value "'d table"

type_synonym 'd parsed = "('d toml \<times> scanner) eff option"

fun object_result :: "'d objects \<Rightarrow> 'd toml" where
  "object_result (Arrays vs) = TArray vs"
| "object_result (Tables ts) = TTableArray ts"

fun object_delim :: "'d objects \<Rightarrow> char" where
  "object_delim (Arrays _) = CHR ''[''"
| "object_delim (Tables _) = CHR ''{''"

fun object_call :: "'d objects \<Rightarrow> 'd job" where
  "object_call (Arrays _) = Array"
| "object_call (Tables _) = Inline_table []"

fun collect_object :: "'d objects \<Rightarrow> 'd toml \<Rightarrow> 'd objects" where
  "collect_object (Arrays vs) v = Arrays (vs @ [v])"
| "collect_object (Tables ts) (TTable t) = Tables (ts @ [t])"
| "collect_object (Tables ts) v = Tables ts"

definition parse_value :: "('d job \<Rightarrow> scanner \<Rightarrow> 'd parsed) \<Rightarrow> (string \<Rightarrow> 'd option) \<Rightarrow> scanner \<Rightarrow> 'd parsed" where
  "parse_value call stod s =
     thenP (Some (determine_value_type (line_number s) (cur s) (length (cur s)))) (\<lambda>ty.
       case ty of
         STRING \<Rightarrow> Some (andThen (parse_string s) (\<lambda>(v, s1). Inr (TString v, s1)))
       | DATE \<Rightarrow> Some (andThen (on_line parse_date s) (\<lambda>(v, s1). Inr (TDatetime v, s1)))
       | INTEGER \<Rightarrow> Some (on_line (parse_number stod) s)
       | FLOAT \<Rightarrow> Some (on_line (parse_number stod) s)
       | BOOL \<Rightarrow> Some (andThen (on_line parse_bool s) (\<lambda>(v, s1). Inr (TBool v, s1)))
       | ARRAY \<Rightarrow> call Array s
       | INLINE_TABLE \<Rightarrow> call (Inline_table []) s)"

text \<open>The end of the first value of an array, for the test of its kind.\<close>

definition first_value_length :: "string \<Rightarrow> nat" where
  "first_value_length r = length (takeWhile (\<lambda>c. c \<noteq> CHR '','' \<and> c \<noteq> CHR '']'' \<and> c \<noteq> CHR ''#'') r)"

definition parse_array :: "('d job \<Rightarrow> scanner \<Rightarrow> 'd parsed) \<Rightarrow> scanner \<Rightarrow> 'd parsed" where
  "parse_array call s =
     thenP (Some (andThen (skip_one s) skip_whitespace_and_comments)) (\<lambda>s2.
       if hd (cur s2) = CHR '']'' then Some (Inr (TArray [], s2\<lparr>cur := tl (cur s2)\<rparr>))
       else
         thenP (Some (determine_value_type (line_number s2) (cur s2) (first_value_length (cur s2)))) (\<lambda>ty.
           case ty of
             ARRAY \<Rightarrow> call (Object_array (Arrays [])) s2
           | INLINE_TABLE \<Rightarrow> call (Object_array (Tables [])) s2
           | BOOL \<Rightarrow> Some (throw (line_number s2) ''Unable to parse array'')
           | _ \<Rightarrow> call (Value_array ty []) s2))"

definition value_array :: "('d job \<Rightarrow> scanner \<Rightarrow> 'd parsed) \<Rightarrow> parse_type \<Rightarrow> 'd toml list \<Rightarrow> scanner \<Rightarrow> 'd parsed" where
  "value_array call ty vs s =
     (if cur s = [] \<or> hd (cur s) = CHR '']'' then Some (Inr (TArray vs, s\<lparr>cur := tl (cur s)\<rparr>))
      else
        thenP (call Value s) (\<lambda>(v, s1).
          if \<not> has_type ty v then Some (throw (line_number s1) ''Arrays must be heterogeneous'')
          else
            thenP (Some (skip_whitespace_and_comments s1)) (\<lambda>s2.
              if hd (cur s2) \<noteq> CHR '','' then Some (Inr (TArray (vs @ [v]), s2\<lparr>cur := tl (cur s2)\<rparr>))
              else
                thenP (Some (andThen (skip_one s2) skip_whitespace_and_comments)) (\<lambda>s3.
                  call (Value_array ty (vs @ [v])) s3))))"

definition object_array_end :: "'d objects \<Rightarrow> scanner \<Rightarrow> 'd parsed" where
  "object_array_end os s =
     Some (if cur s = [] \<or> hd (cur s) \<noteq> CHR '']'' then throw (line_number s) ''Unterminated array''
           else Inr (object_result os, s\<lparr>cur := tl (cur s)\<rparr>))"

definition object_array :: "('d job \<Rightarrow> scanner \<Rightarrow> 'd parsed) \<Rightarrow> 'd objects \<Rightarrow> scanner \<Rightarrow> 'd parsed" where
  "object_array call os s =
     (if cur s = [] \<or> hd (cur s) = CHR '']'' then object_array_end os s
      else if hd (cur s) \<noteq> object_delim os then Some (throw (line_number s) ''Unexpected character in array'')
      else
        thenP (call (object_call os) s) (\<lambda>(v, s1).
        thenP (Some (skip_whitespace_and_comments s1)) (\<lambda>s2.
          if hd (cur s2) \<noteq> CHR '','' then object_array_end (collect_object os v) s2
          else
            thenP (Some (andThen (skip_one s2) skip_whitespace_and_comments)) (\<lambda>s3.
              call (Object_array (collect_object os v)) s3))))"

definition inline_table :: "('d job \<Rightarrow> scanner \<Rightarrow> 'd parsed) \<Rightarrow> 'd table \<Rightarrow> scanner \<Rightarrow> 'd parsed" where
  "inline_table call t s =
     thenP (Some (skip_one s)) (\<lambda>s1.
       if cur s1 = [] then Some (throw (line_number s1) ''Unterminated inline table'')
       else
         thenP (call (Key_value t) (s1\<lparr>cur := consume_whitespace (cur s1)\<rparr>)) (\<lambda>(v, s2).
           let s3 = s2\<lparr>cur := consume_whitespace (cur s2)\<rparr>; t1 = (case as_table v of None \<Rightarrow> [] | Some u \<Rightarrow> u) in
           thenP (Some (peek (cur s3))) (\<lambda>c.
             if c = CHR '','' then call (Inline_table t1) s3
             else if c \<noteq> CHR ''}'' then Some (throw (line_number s3) ''Unterminated inline table'')
             else Some (Inr (TTable t1, s3\<lparr>cur := consume_whitespace (tl (cur s3))\<rparr>)))))"

definition parse_key_value :: "('d job \<Rightarrow> scanner \<Rightarrow> 'd parsed) \<Rightarrow> 'd table \<Rightarrow> scanner \<Rightarrow> 'd parsed" where
  "parse_key_value call t s =
     thenP (Some (on_line (parse_key (\<lambda>c. c = CHR ''='')) s)) (\<lambda>(key, s1).
       if contains t key then Some (throw (line_number s1) (''Key '' @ key @ '' already present''))
       else
         thenP (Some (peek (cur s1))) (\<lambda>c.
           if c \<noteq> CHR ''='' then Some (throw (line_number s1) (''Value must follow after a '' @ [squote] @ ''='' @ [squote]))
           else
             thenP (call Value (s1\<lparr>cur := consume_whitespace (tl (cur s1))\<rparr>)) (\<lambda>(v, s2).
               Some (Inr (TTable (insert_key t key v), s2\<lparr>cur := consume_whitespace (cur s2)\<rparr>)))))"

definition job_step :: "('d job \<Rightarrow> scanner \<Rightarrow> 'd parsed) \<Rightarrow> (string \<Rightarrow> 'd option) \<Rightarrow> 'd job \<Rightarrow> scanner \<Rightarrow> 'd parsed" where
  "job_step call stod j s =
     (case j of
        Value \<Rightarrow> parse_value call stod s
      | Array \<Rightarrow> parse_array call s
      | Value_array ty vs \<Rightarrow> value_array call ty vs s
      | Object_array os \<Rightarrow> object_array call os s
      | Inline_table t \<Rightarrow> inline_table call t s
      | Key_value t \<Rightarrow> parse_key_value call t s)"

primrec run :: "(string \<Rightarrow> 'd option) \<Rightarrow> nat \<Rightarrow> 'd job \<Rightarrow> scanner \<Rightarrow> 'd parsed" where
  "run stod 0 = (\<lambda>j s. None)"
| "run stod (Suc n) = job_step (run stod n) stod"

subsection \<open>Table headers\<close>

text \<open>The table a path leads to, and the tree with that table changed.\<close>

fun table_at :: "string list \<Rightarrow> 'd table \<Rightarrow> 'd table option" where
  "table_at [] t = Some t"
| "table_at (k # ks) t =
     (case map_of t k of
        Some (TTable u) \<Rightarrow> table_at ks u
      | Some (TTableArray us) \<Rightarrow> if us = [] then None else table_at ks (last us)
      | _ \<Rightarrow> None)"

fun update_at :: "string list \<Rightarrow> ('d table \<Rightarrow> 'd table) \<Rightarrow> 'd table \<Rightarrow> 'd table" where
  "update_at [] f t = f t"
| "update_at (k # ks) f t =
     (case map_of t k of
        Some (TTable u) \<Rightarrow> insert_key t k (TTable (update_at ks f u))
      | Some (TTableArray us) \<Rightarrow> insert_key t k (TTableArray (butlast us @ [update_at ks f (last us)]))
      | _ \<Rightarrow> t)"

abbreviation header_stop :: "char \<Rightarrow> bool" where
  "header_stop c \<equiv> c = CHR ''.'' \<or> c = CHR '']''"

text \<open>One step down: into the table of the name, or into the last element of its table array.\<close>

definition descend :: "nat \<Rightarrow> string \<Rightarrow> string list \<Rightarrow> 'd toml \<Rightarrow> string \<Rightarrow> string list eff" where
  "descend ln msg path b part =
     (case b of
        TTable _ \<Rightarrow> Inr (path @ [part])
      | TTableArray us \<Rightarrow> if us = [] then Inl OutOfBounds else Inr (path @ [part])
      | _ \<Rightarrow> throw ln msg)"

lemma dropWhile_shorter: "length (dropWhile P r) \<le> length r"
  by (rule length_dropWhile_le)

lemma literal_loop_shorter: "literal_loop ln delim val r = Inr (v, q) \<Longrightarrow> length q < length r"
proof (induction ln delim val r rule: literal_loop.induct)
  case (2 ln delim val c r)
  show ?case
  proof (cases "delim = dquote \<and> c = backslash")
    case True
    with 2(3) obtain w p where "parse_escape_code ln (c # r) = Inr (w, p)" "literal_loop ln delim (val @ [w]) p = Inr (v, q)"
      by (auto simp: fault_simps)
    with 2(1) True parse_escape_code_shorter show ?thesis by fastforce
  next
    case False
    then show ?thesis using 2 dropWhile_shorter [of is_blank r]
      by (auto simp: consume_whitespace_def less_Suc_eq_le split: if_splits)
  qed
qed (simp add: throw_def)

lemma parse_key_shorter: "parse_key stop ln r = Inr (k, q) \<Longrightarrow> length q < length r"
proof -
  assume k: "parse_key stop ln r = Inr (k, q)"
  let ?r = "consume_whitespace r"
  have le: "length ?r \<le> length r" by (simp add: consume_whitespace_def dropWhile_shorter)
  obtain c u where r: "?r = c # u" using k by (cases ?r) (auto simp: parse_key_def)
  show ?thesis
  proof (cases "c = dquote")
    case True
    with k r have "literal_loop ln dquote [] u = Inr (k, q)" by (simp add: parse_key_def string_literal_def)
    from literal_loop_shorter [OF this] show ?thesis using le r by simp
  next
    case False
    with k r have "parse_bare_key ln (takeWhile (\<lambda>c. \<not> stop c) ?r) (dropWhile (\<lambda>c. \<not> stop c) ?r) = Inr (k, q)"
      by (simp add: parse_key_def)
    then have "takeWhile (\<lambda>c. \<not> stop c) ?r \<noteq> []" "q = dropWhile (\<lambda>c. \<not> stop c) ?r"
      by (auto simp: parse_bare_key_def throw_def Let_def split: if_splits)
    moreover have "length (takeWhile (\<lambda>c. \<not> stop c) ?r) + length (dropWhile (\<lambda>c. \<not> stop c) ?r) = length ?r"
      by (metis length_append takeWhile_dropWhile_id)
    ultimately show ?thesis using le by (metis add_less_same_cancel2 dual_order.strict_trans1 length_greater_0_conv linorder_not_le less_add_same_cancel2)
  qed
qed

text \<open>The dot between two parts, with the white space around it.\<close>

definition skip_dot :: "string \<Rightarrow> string" where
  "skip_dot q =
     (let q1 = consume_whitespace q in consume_whitespace (if q1 \<noteq> [] \<and> hd q1 = CHR ''.'' then tl q1 else q1))"

lemma consume_whitespace_shorter: "length (consume_whitespace q) \<le> length q"
  by (simp add: consume_whitespace_def dropWhile_shorter)

lemma skip_dot_shorter: "length (skip_dot q) \<le> length q"
proof -
  let ?u = "consume_whitespace q"
  let ?v = "if ?u \<noteq> [] \<and> hd ?u = CHR ''.'' then tl ?u else ?u"
  have "length (skip_dot q) \<le> length ?v" unfolding skip_dot_def Let_def by (rule consume_whitespace_shorter)
  also have "length ?v \<le> length ?u" by simp
  also have "length ?u \<le> length q" by (rule consume_whitespace_shorter)
  finally show ?thesis .
qed

text \<open>
  The loops over the name of a table or of a table array: the tree, the path of \<open>curr_table\<close>, the name so far, whether a table was
  inserted, and the rest of the line.
\<close>

definition full_name :: "string \<Rightarrow> string \<Rightarrow> string" where
  "full_name full part = (if full = [] then part else full @ ''.'' @ part)"

definition table_part :: "nat \<Rightarrow> 'd table \<Rightarrow> string list \<Rightarrow> string \<Rightarrow> bool \<Rightarrow> string \<Rightarrow> ('d table \<times> string list \<times> bool) eff" where
  "table_part ln root path full inserted part =
     (case table_at path root of
        None \<Rightarrow> Inl OutOfBounds
      | Some t \<Rightarrow>
          if contains t part then
            andThen (get t part) (\<lambda>b.
            andThen (descend ln (''Key '' @ full @ ''already exists as a value'') path b part) (\<lambda>p. Inr (root, p, inserted)))
          else Inr (update_at path (\<lambda>t. insert_key t part (TTable [])) root, path @ [part], True))"

function single_table_loop ::
    "nat \<Rightarrow> 'd table \<Rightarrow> string list \<Rightarrow> string \<Rightarrow> bool \<Rightarrow> string \<Rightarrow> ('d table \<times> string list \<times> string \<times> bool \<times> string) eff" where
  "single_table_loop ln root path full inserted r =
     (if r = [] \<or> hd r = CHR '']'' then Inr (root, path, full, inserted, r)
      else
        andThen (parse_key header_stop ln r) (\<lambda>(part, q).
          if part = [] then throw ln ''Empty component of table name''
          else
            andThen (table_part ln root path (full_name full part) inserted part) (\<lambda>(root1, path1, ins).
              single_table_loop ln root1 path1 (full_name full part) ins (skip_dot q))))"
  by pat_completeness auto
termination
  by (relation "measure (\<lambda>(ln, root, path, full, inserted, r). length r)")
    (auto dest: parse_key_shorter intro: le_less_trans [OF skip_dot_shorter])

definition parse_single_table :: "nat \<Rightarrow> 'd table \<Rightarrow> string \<Rightarrow> ('d table \<times> string list) eff" where
  "parse_single_table ln root r =
     (if r = [] \<or> hd r = CHR '']'' then throw ln ''Table name cannot be empty''
      else
        andThen (single_table_loop ln root [] [] False r) (\<lambda>(root1, path, full, inserted, q).
        andThen
          (if inserted then Inr ()
           else
             case table_at path root1 of
               None \<Rightarrow> Inl OutOfBounds
             | Some t \<Rightarrow> if t = [] \<or> (\<exists>(k, v) \<in> set t. is_value v) then throw ln (''Redefinition of table '' @ full) else Inr ()) (\<lambda>_.
        andThen (advance q) (\<lambda>q1.
        andThen (eol_or_comment ln (consume_whitespace q1)) (\<lambda>_. Inr (root1, path))))))"

definition array_part :: "nat \<Rightarrow> 'd table \<Rightarrow> string list \<Rightarrow> string \<Rightarrow> bool \<Rightarrow> string \<Rightarrow> ('d table \<times> string list) eff" where
  "array_part ln root path full at_end part =
     (case table_at path root of
        None \<Rightarrow> Inl OutOfBounds
      | Some t \<Rightarrow>
          if contains t part then
            andThen (get t part) (\<lambda>b.
              if at_end then
                (case as_table_array b of
                   None \<Rightarrow> throw ln (''Key '' @ full @ '' is not a table array'')
                 | Some us \<Rightarrow> Inr (update_at path (\<lambda>t. insert_key t part (TTableArray (us @ [[]]))) root, path @ [part]))
              else
                andThen (descend ln (''Key '' @ full @ '' already exists as a value'') path b part) (\<lambda>p. Inr (root, p)))
          else
            Inr (update_at path (\<lambda>t. insert_key t part (if at_end then TTableArray [[]] else TTable [])) root, path @ [part]))"

function table_array_loop ::
    "nat \<Rightarrow> 'd table \<Rightarrow> string list \<Rightarrow> string \<Rightarrow> string \<Rightarrow> ('d table \<times> string list \<times> string) eff" where
  "table_array_loop ln root path full r =
     (if r = [] \<or> hd r = CHR '']'' then Inr (root, path, r)
      else
        andThen (parse_key header_stop ln r) (\<lambda>(part, q).
          if part = [] then throw ln ''Empty component of table array name''
          else
            let q1 = skip_dot q in
            andThen (array_part ln root path (full_name full part) (q1 \<noteq> [] \<and> hd q1 = CHR '']'') part) (\<lambda>(root1, path1).
              table_array_loop ln root1 path1 (full_name full part) q1)))"
  by pat_completeness auto
termination
  by (relation "measure (\<lambda>(ln, root, path, full, r). length r)")
    (auto dest: parse_key_shorter intro: le_less_trans [OF skip_dot_shorter])

declare single_table_loop.simps [simp del] table_array_loop.simps [simp del]

definition parse_table_array :: "nat \<Rightarrow> 'd table \<Rightarrow> string \<Rightarrow> ('d table \<times> string list) eff" where
  "parse_table_array ln root r =
     (let r1 = tl r in
      if r1 = [] \<or> hd r1 = CHR '']'' then throw ln ''Table array name cannot be empty''
      else
        andThen (table_array_loop ln root [] [] r1) (\<lambda>(root1, path, q).
          if length q < 2 then throw ln ''Unterminated table array name''
          else andThen (eol_or_comment ln (consume_whitespace (drop 2 q))) (\<lambda>_. Inr (root1, path))))"

definition parse_table :: "nat \<Rightarrow> 'd table \<Rightarrow> string \<Rightarrow> ('d table \<times> string list) eff" where
  "parse_table ln root r =
     (let r1 = tl r in
      if r1 = [] then throw ln ''Unexpected end of table''
      else if hd r1 = CHR ''['' then parse_table_array ln root r1
      else parse_single_table ln root r1)"

subsection \<open>Files\<close>

text \<open>
  The loop of \<open>parse\<close>, with fuel \<open>n\<close> for lines and for values; \<open>path\<close> is where \<open>curr_table\<close> points.
\<close>

primrec parse_lines ::
    "(string \<Rightarrow> 'd option) \<Rightarrow> nat \<Rightarrow> 'd table \<Rightarrow> string list \<Rightarrow> nat \<Rightarrow> string list \<Rightarrow> 'd table eff option" where
  "parse_lines stod 0 = (\<lambda>root path ln ls. None)"
| "parse_lines stod (Suc n) = (\<lambda>root path ln ls.
     case ls of
       [] \<Rightarrow> Some (Inr root)
     | l # ls1 \<Rightarrow>
         let ln1 = ln + 1; r = consume_whitespace l in
         if r = [] \<or> hd r = CHR ''#'' then parse_lines stod n root path ln1 ls1
         else if hd r = CHR ''['' then
           thenP (Some (parse_table ln1 root r)) (\<lambda>(root1, path1). parse_lines stod n root1 path1 ln1 ls1)
         else
           case table_at path root of
             None \<Rightarrow> Some (Inl OutOfBounds)
           | Some t \<Rightarrow>
               thenP (run stod n (Key_value t) \<lparr>cur = r, input_lines = ls1, line_number = ln1\<rparr>) (\<lambda>(v, s).
                 let t1 = (case as_table v of None \<Rightarrow> [] | Some u \<Rightarrow> u) in
                 thenP (Some (eol_or_comment (line_number s) (consume_whitespace (cur s)))) (\<lambda>_.
                   parse_lines stod n (update_at path (\<lambda>_. t1) root) path (line_number s) (input_lines s))))"

definition parse :: "(string \<Rightarrow> 'd option) \<Rightarrow> string \<Rightarrow> 'd table eff option" where
  "parse stod text = parse_lines stod (3 * length text + 10) [] [] 0 (lines_of [] text)"

text \<open>\<open>files\<close> gives the text of a file that can be opened.\<close>

definition parse_file :: "(string \<Rightarrow> string option) \<Rightarrow> (string \<Rightarrow> 'd option) \<Rightarrow> string \<Rightarrow> 'd table eff" where
  "parse_file files stod name =
     (case files name of
        None \<Rightarrow> Inl (ParseException (name @ '' could not be opened for parsing''))
      | Some text \<Rightarrow> the (parse stod text))"

end
