(* ===== verification/Toml_Reading.thy ===== *)
theory Toml_Reading
  imports Toml_Parser
begin

section \<open>What the TOML parser reads\<close>

text \<open>
  The facts about \<open>Toml_Parser\<close>: strings and numbers are read back as they were printed (\<open>escape_string\<close> is how the library's
  writer prints a string), parsing ends on every text, a file of plain sections and table arrays is read as
  the tables it spells, and the texts on which the parser reads past the line or accepts what is not TOML.
\<close>

subsection \<open>Strings\<close>

text \<open>\<open>toml_writer::escape_string\<close>.\<close>

fun escape_string :: "string \<Rightarrow> string" where
  "escape_string [] = []"
| "escape_string (c # s) =
     (if c = backslash then [backslash, backslash]
      else if c = dquote then [backslash, dquote]
      else if c = linefeed then [backslash, CHR ''n'']
      else [c]) @ escape_string s"

lemma literal_loop_escaped:
  "literal_loop ln dquote val (escape_string s @ dquote # r) = Inr (val @ s, consume_whitespace r)"
  by (induction s arbitrary: val) (simp_all add: parse_escape_code_def)

lemma string_literal_escaped:
  "string_literal ln (dquote # escape_string s @ dquote # r) dquote = Inr (s, consume_whitespace r)"
  by (simp add: string_literal_def literal_loop_escaped)

lemma escape_string_one_line: "linefeed \<notin> set (escape_string s)"
  by (induction s) auto

lemma escape_string_head: "escape_string s = c # q \<Longrightarrow> c \<noteq> dquote"
  by (cases s) (auto split: if_splits)

lemma escaped_string:
  assumes "s \<noteq> [] \<or> r = [] \<or> hd r \<noteq> dquote"
  shows "parse_string \<lparr>cur = dquote # escape_string s @ dquote # r, input_lines = ls, line_number = ln\<rparr> =
    Inr (s, \<lparr>cur = consume_whitespace r, input_lines = ls, line_number = ln\<rparr>) \<and> linefeed \<notin> set (escape_string s)"
proof -
  have "take 2 (escape_string s @ dquote # r) \<noteq> [dquote, dquote]"
  proof (cases "escape_string s")
    case Nil
    then have "s = []" by (cases s) (auto split: if_splits)
    with assms Nil show ?thesis by (cases r) auto
  next
    case (Cons c q)
    with escape_string_head show ?thesis by (auto simp: numeral_2_eq_2)
  qed
  then show ?thesis by (simp add: parse_string_def on_line_def string_literal_escaped escape_string_one_line)
qed

text \<open>
  A string the writer prints is read back as it was, whatever its bytes: the text is one line, and \<open>parse_string\<close> returns
  the string and stops behind the closing quote and the white space after it. Only a quote directly behind an empty string changes
  that, since three quotes open a multi-line string.
\<close>

theorem escaped_string_roundtrip:
  assumes "s \<noteq> [] \<or> r = [] \<or> hd r \<noteq> dquote"
  shows "parse_string \<lparr>cur = dquote # escape_string s @ dquote # r, input_lines = ls, line_number = ln\<rparr> =
    Inr (s, \<lparr>cur = consume_whitespace r, input_lines = ls, line_number = ln\<rparr>) \<and> linefeed \<notin> set (escape_string s)"
  using assms by (rule escaped_string)

theorem escaped_string_roundtrip_witness:
  "parse_string \<lparr>cur = dquote # escape_string [CHR ''a'', dquote, backslash, linefeed, CHR ''b''] @ dquote # '' # x'', input_lines = [], line_number = 1\<rparr> =
     Inr ([CHR ''a'', dquote, backslash, linefeed, CHR ''b''], \<lparr>cur = ''# x'', input_lines = [], line_number = 1\<rparr>)"
  using escaped_string_roundtrip [of "[CHR ''a'', dquote, backslash, linefeed, CHR ''b'']" "'' # x''" "[]" 1]
  by (simp add: consume_whitespace_def is_blank_def)

subsection \<open>Integers\<close>

lemma digit_not_special:
  assumes "is_number c"
  shows "c \<noteq> CHR ''-''" "c \<noteq> CHR ''+''" "c \<noteq> CHR ''_''" "c \<noteq> CHR ''.''" "c \<noteq> dquote" "c \<noteq> squote" "\<not> is_blank c"
    "c \<noteq> CHR ''Z''" "c \<noteq> CHR ''#''" "c \<noteq> CHR ''[''" "c \<noteq> CHR '']''" "c \<noteq> linefeed"
  using assms by (auto simp: is_number_def is_digit_def uchar_def is_blank_def)

text \<open>A text behind which a number ends.\<close>

definition number_ends :: "string \<Rightarrow> bool" where
  "number_ends r \<longleftrightarrow> r = [] \<or> \<not> is_number (hd r) \<and> hd r \<noteq> CHR ''_''"

lemma numbers_loop_digits:
  assumes "ds \<noteq> []" and "\<forall>c \<in> set ds. is_number c" and "number_ends r"
  shows "numbers_loop ln (ds @ r) = Inr r"
  using assms
proof (induction ds)
  case (Cons c ds)
  show ?case
  proof (cases ds)
    case Nil
    with Cons.prems show ?thesis by (cases r; cases "tl r") (auto simp: number_ends_def)
  next
    case (Cons d es)
    with Cons.IH Cons.prems digit_not_special(3) [of d] show ?thesis by simp
  qed
qed simp

lemma eat_numbers_digits:
  assumes "ds \<noteq> []" and "\<forall>c \<in> set ds. is_number c" and "number_ends r"
  shows "eat_numbers ln (ds @ r) = Inr r"
  using numbers_loop_digits [OF assms] assms(1) by (simp add: eat_numbers_def)

lemma eat_sign_show_int: "eat_sign (show_int i @ r) = show_nat (nat \<bar>i\<bar>) @ r"
proof (cases "i < 0")
  case True
  then show ?thesis by (simp add: eat_sign_def show_int_def)
next
  case False
  obtain d ds where n: "show_nat (nat i) = d # ds" using show_nat_nonempty [of "nat i"] by (cases "show_nat (nat i)") auto
  then have "is_number d" using show_nat_digits [of "nat i"] by (simp add: is_number_def)
  from digit_not_special [OF this] n False show ?thesis by (simp add: eat_sign_def show_int_def)
qed

lemma show_nat_numbers: "\<forall>c \<in> set (show_nat n). is_number c"
  using show_nat_digits by (simp add: is_number_def)

lemma stoll_show_int: "LONG_MIN \<le> i \<Longrightarrow> i \<le> LONG_MAX \<Longrightarrow> stoll (show_int i) = Some i"
proof -
  assume i: "LONG_MIN \<le> i" "i \<le> LONG_MAX"
  have "hd (show_int i) = CHR ''-'' \<longleftrightarrow> i < 0"
    using digit_facts(2) show_nat_digits [of "nat i"] by (auto simp: show_int_def)
  moreover have "show_int i \<noteq> []" by (simp add: show_int_def)
  ultimately show ?thesis
    using i eat_sign_show_int [of i "[]"] by (simp add: stoll_def takeWhile_all [OF show_nat_digits] digits_value_show_nat Let_def)
qed

lemma show_int_no_underscore: "filter (\<lambda>c. c \<noteq> CHR ''_'') (show_int i) = show_int i"
proof (rule filter_True)
  have "c \<noteq> CHR ''_''" if "c \<in> set (show_nat n)" for c n
    using that show_nat_numbers [of n] digit_not_special(3) by blast
  then show "\<forall>c \<in> set (show_int i). c \<noteq> CHR ''_''" by (auto simp: show_int_def)
qed

lemma parse_number_show_int:
  assumes "LONG_MIN \<le> i" and "i \<le> LONG_MAX" and "number_ends r" and "r = [] \<or> hd r \<noteq> CHR ''.'' \<and> \<not> is_exponent r"
  shows "parse_number stod ln (show_int i @ r) = Inr (TInt i, r)"
proof -
  have "eat_numbers ln (eat_sign (show_int i @ r)) = Inr r"
    unfolding eat_sign_show_int by (rule eat_numbers_digits [OF show_nat_nonempty show_nat_numbers assms(3)])
  moreover have "\<not> (r \<noteq> [] \<and> (hd r = CHR ''.'' \<or> is_exponent r))" using assms(4) by auto
  ultimately show ?thesis
    by (simp only: parse_number_def Let_def andThen_simps if_False)
      (simp add: parse_int_def show_int_no_underscore stoll_show_int [OF assms(1,2)])
qed

lemma match_shape_at:
  "match_shape ps s = Some r \<Longrightarrow> length s = length ps + length r \<and> (\<forall>i < length ps. ps ! i \<noteq> CHR ''d'' \<longrightarrow> s ! i = ps ! i)"
  by (induction ps s rule: match_shape.induct) (auto simp: nth_Cons split: if_splits nat.splits)

text \<open>What the regular expression takes for a date, the look ahead does too.\<close>

lemma regex_is_date: "is_date_regex r \<Longrightarrow> is_date r"
proof -
  let ?s = "takeWhile date_char r" and ?shape = "''dddd-dd-ddTdd:dd:dd''"
  assume d: "is_date_regex r"
  then obtain q where q: "match_shape ?shape ?s = Some q" by (auto simp: is_date_regex_def matches_date_def split: option.splits)
  moreover have "q \<noteq> []" using d q by (auto simp: is_date_regex_def matches_date_def)
  moreover have "\<forall>i \<in> {4, 7, 10, 13, 16}. ?s ! i = ?shape ! i" using match_shape_at [OF q] by (simp add: eval_nat_numeral)
  ultimately show ?thesis using match_shape_at [OF q] by (cases q) (simp_all add: is_date_def Let_def)
qed

lemma no_dash_no_date:
  assumes "CHR ''-'' \<notin> set (tl r)"
  shows "\<not> is_date r"
proof
  let ?s = "takeWhile date_char r"
  assume "is_date r"
  then have "?s ! 4 = CHR ''-''" "20 \<le> length ?s" by (simp_all add: is_date_def Let_def)
  moreover have "?s ! 4 = r ! 4" using \<open>20 \<le> length ?s\<close> by (intro takeWhile_nth) simp
  moreover have "length ?s \<le> length r" by (rule length_takeWhile_le)
  ultimately have "tl r ! 3 = CHR ''-''" "3 < length (tl r)" by (simp_all add: nth_tl)
  with assms show False by (metis nth_mem)
qed

subsection \<open>The end of a line\<close>

text \<open>What may follow a value on its line: nothing, white space, a comment.\<close>

definition trailing :: "string \<Rightarrow> bool" where
  "trailing r \<longleftrightarrow> (r = [] \<or> is_blank (hd r) \<or> hd r = CHR ''#'') \<and>
     (consume_whitespace r = [] \<or> hd (consume_whitespace r) = CHR ''#'')"

lemma trailing_head: "trailing (c # r) \<Longrightarrow> c = CHR '' '' \<or> c = CHR 0x09 \<or> c = CHR ''#''"
  by (auto simp: trailing_def is_blank_def)

lemma trailing_comment: "trailing r \<Longrightarrow> eol_or_comment ln (consume_whitespace r) = Inr ()"
  by (cases "consume_whitespace r") (simp_all add: trailing_def eol_or_comment_def)

lemma takeWhile_trailing:
  assumes "trailing r" and "\<not> P (CHR '' '')" and "\<not> P (CHR 0x09)" and "\<not> P (CHR ''#'')"
  shows "takeWhile P (v @ r) = takeWhile P v"
proof (induction v)
  case Nil
  have "\<not> P c" if "r = c # q" for c q using trailing_head [of c q] assms that by auto
  then show ?case by (cases r) simp_all
qed simp

lemma dropWhile_trailing:
  assumes "trailing r" and "\<not> P (CHR '' '')" and "\<not> P (CHR 0x09)" and "\<not> P (CHR ''#'')"
  shows "dropWhile P (v @ r) = dropWhile P v @ r"
proof (induction v)
  case Nil
  have "\<not> P c" if "r = c # q" for c q using trailing_head [of c q] assms that by auto
  then show ?case by (cases r) simp_all
qed simp

subsection \<open>Parsing ends\<close>

text \<open>What is left to read; every function leaves at most as much.\<close>

definition lines_size :: "string list \<Rightarrow> nat" where
  "lines_size ls = sum_list (map (\<lambda>l. length l + 1) ls)"

definition input_size :: "scanner \<Rightarrow> nat" where
  "input_size s = length (cur s) + lines_size (input_lines s)"

definition shrinks :: "scanner \<Rightarrow> ('a \<times> scanner) eff \<Rightarrow> bool" where
  "shrinks s m \<longleftrightarrow> (\<forall>v s'. m = Inr (v, s') \<longrightarrow> input_size s' \<le> input_size s)"

lemma lines_size_simps [simp]: "lines_size [] = 0" "lines_size (l # ls) = length l + 1 + lines_size ls"
  by (simp_all add: lines_size_def)

lemma thenP_simps [simp]:
  "thenP None f = None"
  "thenP (Some (Inl e)) f = Some (Inl e)"
  "thenP (Some (Inr x)) f = f x"
  by (simp_all add: thenP_def)

lemma thenP_Inr: "thenP m f = Some (Inr y) \<longleftrightarrow> (\<exists>x. m = Some (Inr x) \<and> f x = Some (Inr y))"
  by (auto simp: thenP_def split: option.splits sum.splits)

lemma thenP_None: "thenP m f = None \<longleftrightarrow> m = None \<or> (\<exists>x. m = Some (Inr x) \<and> f x = None)"
  by (auto simp: thenP_def split: option.splits sum.splits)

lemma throw_not_Inr [simp]: "throw ln e \<noteq> Inr x" "Inr x \<noteq> throw ln e"
  by (simp_all add: throw_def)

lemma shrinks_on_line:
  assumes "\<And>v q. f (line_number s) (cur s) = Inr (v, q) \<Longrightarrow> length q \<le> length (cur s)"
  shows "shrinks s (on_line f s)"
  using assms by (auto simp: shrinks_def on_line_def fault_simps input_size_def)

lemma eat_digits_shorter: "eat_digits ln after n val d = Inr (v, q) \<Longrightarrow> length q \<le> length d"
  by (induction ln after n val d rule: eat_digits.induct) (fastforce simp: fault_simps split: if_splits)+

lemma parse_date_shorter: "parse_date ln r = Inr (v, q) \<Longrightarrow> length q \<le> length r"
  by (auto simp: parse_date_def Let_def fault_simps dropWhile_shorter)

lemma numbers_loop_shorter: "numbers_loop ln r = Inr q \<Longrightarrow> length q \<le> length r"
  by (induction ln r rule: numbers_loop.induct) (auto split: if_splits list.splits)

lemma eat_numbers_shorter: "eat_numbers ln r = Inr q \<Longrightarrow> length q \<le> length r"
  by (auto simp: eat_numbers_def fault_simps dest: numbers_loop_shorter split: if_splits)

lemma eat_sign_shorter: "length (eat_sign r) \<le> length r"
  by (auto simp: eat_sign_def split: list.splits)

lemma eat_signed_shorter: "eat_numbers ln (eat_sign r) = Inr q \<Longrightarrow> length q \<le> length r"
  using eat_numbers_shorter eat_sign_shorter order_trans by blast

lemma parse_number_shorter:
  assumes "parse_number stod ln r = Inr (v, q)"
  shows "length q \<le> length r"
proof -
  obtain p where p: "eat_numbers ln (eat_sign r) = Inr p"
    using assms by (auto simp: parse_number_def Let_def fault_simps)
  then have l: "length p \<le> length r" by (rule eat_signed_shorter)
  show ?thesis
  proof (cases "p \<noteq> [] \<and> (hd p = CHR ''.'' \<or> is_exponent p)")
    case True
    with assms p obtain p2 where p2: "eat_numbers ln (if is_exponent p then eat_sign (tl p) else tl p) = Inr p2"
      and q: "(if \<not> is_exponent p \<and> is_exponent p2 then eat_numbers ln (eat_sign (tl p2)) else Inr p2) = Inr q"
      by (auto simp: parse_number_def Let_def fault_simps split: if_splits)
    have "length p2 \<le> length (tl p)" using p2 eat_signed_shorter [of _ "tl p" p2] eat_numbers_shorter [of _ "tl p" p2] by (auto split: if_splits)
    moreover have "length q \<le> length p2"
      using q by (auto split: if_splits dest!: eat_signed_shorter)
    ultimately show ?thesis using l by simp
  next
    case False
    with assms p l show ?thesis by (auto simp: parse_number_def Let_def fault_simps simp del: de_Morgan_conj)
  qed
qed

lemma parse_bool_shorter: "parse_bool ln r = Inr (v, q) \<Longrightarrow> length q \<le> length r"
  by (auto simp: parse_bool_def Let_def dropWhile_shorter split: if_splits)

lemma string_literal_shorter: "string_literal ln r d = Inr (v, q) \<Longrightarrow> length q \<le> length r"
  by (cases r) (auto simp: string_literal_def dest!: literal_loop_shorter)

lemma line_loop_shorter: "line_loop ln delim ss r = Inr (Closed v q) \<Longrightarrow> length q \<le> length r"
proof (induction ln delim ss r rule: line_loop.induct)
  case (2 ln delim ss c r)
  then show ?case by (fastforce simp: fault_simps dest: parse_escape_code_shorter split: if_splits)
qed simp

lemma handle_line_shorter: "handle_line ln delim consuming ss r = Inr (Closed v q) \<Longrightarrow> length q \<le> length r"
  using line_loop_shorter [of ln delim ss] dropWhile_shorter [of is_blank r]
  by (fastforce simp: handle_line_def Let_def split: if_splits)

lemma multiline_lines_shorter: "multiline_lines delim consuming ss ln ls = Inr (v, s) \<Longrightarrow> input_size s \<le> lines_size ls"
proof (induction delim consuming ss ln ls rule: multiline_lines.induct)
  case (2 delim consuming ss ln l ls)
  from 2(2) obtain e where e: "handle_line (ln + 1) delim consuming ss l = Inr e" by (auto simp: fault_simps)
  with 2 show ?case by (cases e) (fastforce simp: input_size_def dest: handle_line_shorter)+
qed simp

lemma parse_string_shrinks: "shrinks s (parse_string s)"
proof (unfold shrinks_def, intro allI impI)
  fix v s' assume s': "parse_string s = Inr (v, s')"
  show "input_size s' \<le> input_size s"
  proof (cases "take 2 (tl (cur s)) = [hd (cur s), hd (cur s)] \<and> cur s \<noteq> []")
    case True
    then obtain c q where c: "cur s = c # q" by (cases "cur s") auto
    with s' True have "parse_multiline_string c (s\<lparr>cur := drop 2 q\<rparr>) = Inr (v, s')" by (simp add: parse_string_def)
    then obtain e where e: "handle_line (line_number s) c False [] (drop 2 q) = Inr e"
      by (auto simp: parse_multiline_string_def fault_simps)
    then show ?thesis
      using \<open>parse_multiline_string c (s\<lparr>cur := drop 2 q\<rparr>) = Inr (v, s')\<close> c
      by (cases e) (auto simp: parse_multiline_string_def input_size_def dest!: handle_line_shorter multiline_lines_shorter)
  next
    case False
    with s' show ?thesis
      by (cases "cur s") (auto simp: parse_string_def on_line_def fault_simps input_size_def split: if_splits dest!: string_literal_shorter)
  qed
qed

lemma skip_lines_shorter: "skip_lines ln ls = Inr s \<Longrightarrow> input_size s < lines_size ls \<and> cur s \<noteq> []"
proof (induction ln ls rule: skip_lines.induct)
  case (2 ln l ls)
  with consume_whitespace_shorter [of l] show ?case by (fastforce simp: Let_def input_size_def split: if_splits)
qed simp

lemma skip_whitespace_shorter:
  "skip_whitespace_and_comments s = Inr s' \<Longrightarrow> input_size s' \<le> input_size s \<and> cur s' \<noteq> []"
  using consume_whitespace_shorter [of "cur s"]
  by (auto simp: skip_whitespace_and_comments_def Let_def input_size_def split: if_splits dest!: skip_lines_shorter)

lemma skip_one_shorter: "skip_one s = Inr s' \<Longrightarrow> input_size s' < input_size s"
  by (cases "cur s") (auto simp: skip_one_def input_size_def)

lemma tl_shorter: "input_size (s\<lparr>cur := tl (cur s)\<rparr>) \<le> input_size s"
  by (simp add: input_size_def)

text \<open>No function leaves more than it found, if the calls it makes do not.\<close>

definition calls_shrink :: "('d job \<Rightarrow> scanner \<Rightarrow> 'd parsed) \<Rightarrow> bool" where
  "calls_shrink call \<longleftrightarrow> (\<forall>j s v s'. call j s = Some (Inr (v, s')) \<longrightarrow> input_size s' \<le> input_size s)"

lemma calls_shrinkD: "calls_shrink call \<Longrightarrow> call j s = Some (Inr (v, s')) \<Longrightarrow> input_size s' \<le> input_size s"
  by (simp add: calls_shrink_def)

lemma shrinksD: "shrinks s m \<Longrightarrow> m = Inr (v, s') \<Longrightarrow> input_size s' \<le> input_size s"
  by (simp add: shrinks_def)

lemma cur_shorter: "length q \<le> length (cur s) \<Longrightarrow> input_size (s\<lparr>cur := q\<rparr>) \<le> input_size s"
  by (simp add: input_size_def)

lemma blanks_shorter: "input_size (s\<lparr>cur := consume_whitespace (cur s)\<rparr>) \<le> input_size s"
  by (simp add: input_size_def consume_whitespace_shorter)

lemma skip_both_shorter: "andThen (skip_one s) skip_whitespace_and_comments = Inr s' \<Longrightarrow> input_size s' < input_size s \<and> cur s' \<noteq> []"
  by (auto simp: fault_simps dest!: skip_one_shorter skip_whitespace_shorter)

lemma parse_value_shrinks:
  assumes "calls_shrink call" and "parse_value call stod s = Some (Inr (v, s'))"
  shows "input_size s' \<le> input_size s"
proof -
  have "shrinks s (on_line parse_date s)" "shrinks s (on_line (parse_number stod) s)" "shrinks s (on_line parse_bool s)"
    by (auto intro!: shrinks_on_line dest: parse_date_shorter parse_number_shorter parse_bool_shorter)
  with assms parse_string_shrinks [of s] show ?thesis
    by (auto simp: parse_value_def thenP_Inr fault_simps split: parse_type.splits dest: calls_shrinkD shrinksD)
      (metis parse_type.exhaust)
qed

lemma parse_array_shrinks:
  assumes "calls_shrink call" and "parse_array call s = Some (Inr (v, s'))"
  shows "input_size s' \<le> input_size s"
proof -
  obtain s2 where s2: "andThen (skip_one s) skip_whitespace_and_comments = Inr s2"
    using assms(2) by (auto simp: parse_array_def thenP_Inr)
  from assms(2) s2 consider "s' = s2\<lparr>cur := tl (cur s2)\<rparr>" | j where "call j s2 = Some (Inr (v, s'))"
    by (auto simp: parse_array_def thenP_Inr split: if_splits parse_type.splits) (metis parse_type.exhaust)
  then show ?thesis
  proof cases
    case 1
    with skip_both_shorter [OF s2] tl_shorter [of s2] show ?thesis by auto
  next
    case (2 j)
    with skip_both_shorter [OF s2] calls_shrinkD [OF assms(1)] show ?thesis by fastforce
  qed
qed

lemma value_array_shrinks:
  assumes "calls_shrink call" and "value_array call ty vs s = Some (Inr (v, s'))"
  shows "input_size s' \<le> input_size s"
proof (cases "cur s = [] \<or> hd (cur s) = CHR '']''")
  case True
  with assms(2) show ?thesis using tl_shorter [of s] by (auto simp: value_array_def)
next
  case False
  with assms(2) obtain w s1 s2 where 1: "call Value s = Some (Inr (w, s1))" and 2: "skip_whitespace_and_comments s1 = Inr s2"
    and "s' = s2\<lparr>cur := tl (cur s2)\<rparr> \<or> (\<exists>s3. andThen (skip_one s2) skip_whitespace_and_comments = Inr s3 \<and>
      call (Value_array ty (vs @ [w])) s3 = Some (Inr (v, s')))"
    by (auto simp: value_array_def thenP_Inr split: if_splits)
  then show ?thesis
    using calls_shrinkD [OF assms(1) 1] skip_whitespace_shorter [OF 2] tl_shorter [of s2]
    by (auto dest!: skip_both_shorter calls_shrinkD [OF assms(1)])
qed

lemma object_array_end_shrinks: "object_array_end os s = Some (Inr (v, s')) \<Longrightarrow> input_size s' \<le> input_size s"
  using tl_shorter [of s] by (auto simp: object_array_end_def split: if_splits)

lemma object_array_shrinks:
  assumes "calls_shrink call" and "object_array call os s = Some (Inr (v, s'))"
  shows "input_size s' \<le> input_size s"
proof (cases "cur s = [] \<or> hd (cur s) = CHR '']''")
  case True
  with assms(2) show ?thesis by (auto simp: object_array_def dest: object_array_end_shrinks)
next
  case False
  with assms(2) obtain w s1 s2 where 1: "call (object_call os) s = Some (Inr (w, s1))" and 2: "skip_whitespace_and_comments s1 = Inr s2"
    and "object_array_end (collect_object os w) s2 = Some (Inr (v, s')) \<or>
      (\<exists>s3. andThen (skip_one s2) skip_whitespace_and_comments = Inr s3 \<and>
        call (Object_array (collect_object os w)) s3 = Some (Inr (v, s')))"
    by (auto simp: object_array_def thenP_Inr split: if_splits)
  then show ?thesis
    using calls_shrinkD [OF assms(1) 1] skip_whitespace_shorter [OF 2]
    by (auto dest!: skip_both_shorter calls_shrinkD [OF assms(1)] object_array_end_shrinks)
qed

lemma inline_table_shrinks:
  assumes "calls_shrink call" and "inline_table call t s = Some (Inr (v, s'))"
  shows "input_size s' \<le> input_size s"
proof -
  obtain s1 w s2 t1 where 1: "skip_one s = Inr s1"
    and 2: "call (Key_value t) (s1\<lparr>cur := consume_whitespace (cur s1)\<rparr>) = Some (Inr (w, s2))"
    and "call (Inline_table t1) (s2\<lparr>cur := consume_whitespace (cur s2)\<rparr>) = Some (Inr (v, s')) \<or>
      s' = s2\<lparr>cur := consume_whitespace (tl (consume_whitespace (cur s2)))\<rparr>"
    using assms(2) by (auto simp: inline_table_def thenP_Inr Let_def split: if_splits)
  moreover have "input_size s2 \<le> input_size s"
    using skip_one_shorter [OF 1] blanks_shorter [of s1] calls_shrinkD [OF assms(1) 2] by simp
  moreover have "length (consume_whitespace (tl (consume_whitespace (cur s2)))) \<le> length (cur s2)"
  proof -
    have "length (consume_whitespace (tl (consume_whitespace (cur s2)))) \<le> length (tl (consume_whitespace (cur s2)))"
      by (rule consume_whitespace_shorter)
    also have "\<dots> \<le> length (consume_whitespace (cur s2))" by simp
    also have "\<dots> \<le> length (cur s2)" by (rule consume_whitespace_shorter)
    finally show ?thesis .
  qed
  ultimately show ?thesis
    using blanks_shorter [of s2] cur_shorter [of _ s2] calls_shrinkD [OF assms(1)] by (meson order_trans)
qed

lemma parse_key_value_shrinks:
  assumes "calls_shrink call" and "parse_key_value call t s = Some (Inr (v, s'))"
  shows "input_size s' \<le> input_size s"
proof -
  obtain key s1 w s2 where 1: "on_line (parse_key (\<lambda>c. c = CHR ''='')) s = Inr (key, s1)"
    and 2: "call Value (s1\<lparr>cur := consume_whitespace (tl (cur s1))\<rparr>) = Some (Inr (w, s2))"
    and s': "s' = s2\<lparr>cur := consume_whitespace (cur s2)\<rparr>"
    using assms(2) by (auto simp: parse_key_value_def thenP_Inr split: if_splits)
  have "shrinks s (on_line (parse_key (\<lambda>c. c = CHR ''='')) s)"
    by (rule shrinks_on_line) (auto dest: parse_key_shorter)
  from shrinksD [OF this 1] have "input_size s1 \<le> input_size s" .
  moreover have "length (consume_whitespace (tl (cur s1))) \<le> length (cur s1)"
    using consume_whitespace_shorter [of "tl (cur s1)"] by simp
  ultimately show ?thesis
    unfolding s' using calls_shrinkD [OF assms(1) 2] blanks_shorter [of s2] cur_shorter [of _ s1] by (meson order_trans)
qed

lemma run_shrinks: "calls_shrink (run stod n)"
proof (induction n)
  case 0
  show ?case by (simp add: calls_shrink_def)
next
  case (Suc n)
  show ?case
    unfolding calls_shrink_def
  proof (intro allI impI)
    fix j s and v :: "'a toml" and s' assume "run stod (Suc n) j s = Some (Inr (v, s'))"
    then show "input_size s' \<le> input_size s"
      using Suc parse_value_shrinks parse_array_shrinks value_array_shrinks object_array_shrinks inline_table_shrinks
        parse_key_value_shrinks by (cases j) (simp_all add: job_step_def, blast+)
  qed
qed

text \<open>The fuel a call needs, by what is left to read.\<close>

fun need :: "'d job \<Rightarrow> scanner \<Rightarrow> nat" where
  "need Value s = 3 * input_size s + 2"
| "need Array s = 3 * input_size s + 1"
| "need (Value_array ty vs) s = 3 * input_size s + 3"
| "need (Object_array os) s = 3 * input_size s + 2"
| "need (Inline_table t) s = 3 * input_size s + 1"
| "need (Key_value t) s = 3 * input_size s + 1"

lemma need_object_call [simp]: "need (object_call os) s = 3 * input_size s + 1"
  by (cases os) simp_all

definition fuelled :: "('d job \<Rightarrow> scanner \<Rightarrow> 'd parsed) \<Rightarrow> nat \<Rightarrow> bool" where
  "fuelled call n \<longleftrightarrow> calls_shrink call \<and> (\<forall>j s. call j s = None \<longrightarrow> n < need j s)"

lemma fuelledD: "fuelled call n \<Longrightarrow> call j s = None \<Longrightarrow> n < need j s"
  by (simp add: fuelled_def)

lemma fuelled_shrinks: "fuelled call n \<Longrightarrow> call j s = Some (Inr (v, s')) \<Longrightarrow> input_size s' \<le> input_size s"
  unfolding fuelled_def by (blast dest: calls_shrinkD)

lemma parse_value_fuelled:
  assumes "fuelled call n" and "parse_value call stod s = None"
  shows "Suc n < need Value s"
proof -
  have "call Array s = None \<or> call (Inline_table []) s = None"
    using assms(2) by (auto simp: parse_value_def thenP_None split: parse_type.splits) (metis parse_type.exhaust)
  then show ?thesis by (auto dest!: fuelledD [OF assms(1)])
qed

lemma parse_array_fuelled:
  assumes "fuelled call n" and "parse_array call s = None"
  shows "Suc n < need Array s"
proof -
  obtain s2 ty os where s2: "andThen (skip_one s) skip_whitespace_and_comments = Inr s2"
    and "call (Value_array ty []) s2 = None \<or> call (Object_array os) s2 = None"
    using assms(2) by (auto simp: parse_array_def thenP_None split: if_splits parse_type.splits) (metis parse_type.exhaust)
  then show ?thesis using skip_both_shorter [OF s2] by (auto dest!: fuelledD [OF assms(1)])
qed

lemma value_array_fuelled:
  assumes "fuelled call n" and "value_array call ty vs s = None"
  shows "Suc n < need (Value_array ty vs) s"
proof (cases "call Value s = None")
  case True
  from fuelledD [OF assms(1) this] show ?thesis by simp
next
  case False
  with assms(2) obtain v s1 s2 s3 where 1: "call Value s = Some (Inr (v, s1))" and 2: "skip_whitespace_and_comments s1 = Inr s2"
    and 3: "andThen (skip_one s2) skip_whitespace_and_comments = Inr s3" and 4: "call (Value_array ty (vs @ [v])) s3 = None"
    by (auto simp: value_array_def thenP_None split: if_splits)
  show ?thesis
    using fuelledD [OF assms(1) 4] fuelled_shrinks [OF assms(1) 1] skip_whitespace_shorter [OF 2] skip_both_shorter [OF 3] by simp
qed

lemma object_array_fuelled:
  assumes "fuelled call n" and "object_array call os s = None"
  shows "Suc n < need (Object_array os) s"
proof (cases "call (object_call os) s = None")
  case True
  from fuelledD [OF assms(1) this] show ?thesis by simp
next
  case False
  with assms(2) obtain v s1 s2 s3 where 1: "call (object_call os) s = Some (Inr (v, s1))" and 2: "skip_whitespace_and_comments s1 = Inr s2"
    and 3: "andThen (skip_one s2) skip_whitespace_and_comments = Inr s3" and 4: "call (Object_array (collect_object os v)) s3 = None"
    by (auto simp: object_array_def object_array_end_def thenP_None split: if_splits)
  show ?thesis
    using fuelledD [OF assms(1) 4] fuelled_shrinks [OF assms(1) 1] skip_whitespace_shorter [OF 2] skip_both_shorter [OF 3] by simp
qed

lemma inline_table_fuelled:
  assumes "fuelled call n" and "inline_table call t s = None"
  shows "Suc n < need (Inline_table t) s"
proof -
  obtain s1 where 1: "skip_one s = Inr s1"
    and rest: "call (Key_value t) (s1\<lparr>cur := consume_whitespace (cur s1)\<rparr>) = None \<or>
      (\<exists>v s2 t1. call (Key_value t) (s1\<lparr>cur := consume_whitespace (cur s1)\<rparr>) = Some (Inr (v, s2)) \<and>
        call (Inline_table t1) (s2\<lparr>cur := consume_whitespace (cur s2)\<rparr>) = None)"
    using assms(2) by (auto simp: inline_table_def thenP_None Let_def split: if_splits)
  note less = skip_one_shorter [OF 1] blanks_shorter [of s1]
  from rest show ?thesis
  proof
    assume "call (Key_value t) (s1\<lparr>cur := consume_whitespace (cur s1)\<rparr>) = None"
    from fuelledD [OF assms(1) this] less show ?thesis by simp
  next
    assume "\<exists>v s2 t1. call (Key_value t) (s1\<lparr>cur := consume_whitespace (cur s1)\<rparr>) = Some (Inr (v, s2)) \<and>
        call (Inline_table t1) (s2\<lparr>cur := consume_whitespace (cur s2)\<rparr>) = None"
    then obtain v s2 t1 where 2: "call (Key_value t) (s1\<lparr>cur := consume_whitespace (cur s1)\<rparr>) = Some (Inr (v, s2))"
      and 3: "call (Inline_table t1) (s2\<lparr>cur := consume_whitespace (cur s2)\<rparr>) = None" by blast
    from fuelledD [OF assms(1) 3] fuelled_shrinks [OF assms(1) 2] less blanks_shorter [of s2] show ?thesis by simp
  qed
qed

lemma parse_key_value_fuelled:
  assumes "fuelled call n" and "parse_key_value call t s = None"
  shows "Suc n < need (Key_value t) s"
proof -
  obtain key s1 where "on_line (parse_key (\<lambda>c. c = CHR ''='')) s = Inr (key, s1)"
    and v: "call Value (s1\<lparr>cur := consume_whitespace (tl (cur s1))\<rparr>) = None"
    using assms(2) by (auto simp: parse_key_value_def thenP_None split: if_splits)
  then obtain q where q: "parse_key (\<lambda>c. c = CHR ''='') (line_number s) (cur s) = Inr (key, q)" "s1 = s\<lparr>cur := q\<rparr>"
    by (auto simp: on_line_def fault_simps)
  have "length (consume_whitespace (tl q)) < length (cur s)"
    using consume_whitespace_shorter [of "tl q"] parse_key_shorter [OF q(1)] by simp
  with fuelledD [OF assms(1) v] show ?thesis by (simp add: q(2) input_size_def)
qed

lemma run_fuelled: "fuelled (run stod n) n"
proof (induction n)
  case 0
  have "0 < need j s" for j :: "'a job" and s by (cases j) simp_all
  then show ?case using run_shrinks [of stod 0] by (simp add: fuelled_def)
next
  case (Suc n)
  have "Suc n < need j s" if "run stod (Suc n) j s = None" for j s
    using that parse_value_fuelled [OF Suc] parse_array_fuelled [OF Suc] value_array_fuelled [OF Suc] object_array_fuelled [OF Suc]
      inline_table_fuelled [OF Suc] parse_key_value_fuelled [OF Suc] by (cases j) (simp_all add: job_step_def del: need.simps)
  then show ?case by (simp add: fuelled_def run_shrinks del: run.simps)
qed

lemma parse_lines_ends: "parse_lines stod n root path ln ls = None \<Longrightarrow> n < 3 * lines_size ls + 5"
proof (induction n arbitrary: root path ln ls)
  case (Suc n)
  from Suc.prems obtain l ls1 where ls: "ls = l # ls1" by (cases ls) auto
  let ?s = "\<lparr>cur = consume_whitespace l, input_lines = ls1, line_number = ln + 1\<rparr>"
  have size: "input_size ?s < lines_size ls"
    using consume_whitespace_shorter [of l] by (simp add: ls input_size_def)
  from Suc.prems ls consider root1 path1 ln1 where "parse_lines stod n root1 path1 ln1 ls1 = None"
    | t where "run stod n (Key_value t) ?s = None"
    | t v s root1 ln1 where "run stod n (Key_value t) ?s = Some (Inr (v, s))"
        "parse_lines stod n root1 path ln1 (input_lines s) = None"
    by (auto simp: Let_def thenP_None split: if_splits option.splits)
  then show ?case
  proof cases
    case 1
    from Suc.IH [OF this] show ?thesis by (simp add: ls)
  next
    case 2
    from fuelledD [OF run_fuelled this] size show ?thesis by simp
  next
    case 3
    from Suc.IH [OF 3(2)] fuelled_shrinks [OF run_fuelled 3(1)] size show ?thesis
      by (simp add: input_size_def [of s])
  qed
qed simp

lemma lines_of_size: "lines_size (lines_of l r) \<le> length l + length r + 1"
  by (induction l r rule: lines_of.induct) auto

text \<open>
  C14: Reading ends: on every text \<open>parse\<close> comes to a table or a fault; the fuel it is given is never used up.
\<close>

theorem parse_ends: "\<exists>r. parse stod text = Some r"
proof -
  have "\<not> 3 * length text + 10 < 3 * lines_size (lines_of [] text) + 5" using lines_of_size [of "[]" "text"] by simp
  with parse_lines_ends show ?thesis unfolding parse_def by blast
qed

end
