(* ===== verification/Toml_Date.thy ===== *)
theory Toml_Date
  imports Toml_Reading
begin

section \<open>Dates (\<open>cpptoml.h\<close>: \<open>operator<<\<close> for \<open>datetime\<close>, \<open>parse_date\<close>)\<close>

text \<open>
  A date as it is printed, and that it is read back. The printer and the parser differ in two ways, for which there are
  theorems: a fraction of a second is printed with six digits but read as the number its digits spell, and an offset below
  an hour is printed with a minus sign.
\<close>

subsection \<open>Printing\<close>

text \<open>\<open>setw(w) << i\<close> with the fill character \<open>0\<close>.\<close>

definition padded :: "nat \<Rightarrow> int \<Rightarrow> string" where
  "padded w i = (let s = show_int i in replicate (w - length s) (CHR ''0'') @ s)"

definition show_datetime :: "datetime \<Rightarrow> string" where
  "show_datetime dt =
     padded 4 (year dt) @ ''-'' @ padded 2 (month dt) @ ''-'' @ padded 2 (day dt) @ ''T'' @ padded 2 (hour dt) @ '':'' @
     padded 2 (minute dt) @ '':'' @ padded 2 (second dt) @
     (if 0 < microsecond dt then ''.'' @ padded 6 (microsecond dt) else []) @
     (if hour_offset dt \<noteq> 0 \<or> minute_offset dt \<noteq> 0 then
        (if 0 < hour_offset dt then ''+'' else ''-'') @ padded 2 \<bar>hour_offset dt\<bar> @ '':'' @ padded 2 \<bar>minute_offset dt\<bar>
      else ''Z'')"

subsection \<open>Padded numbers\<close>

lemma digits_value_zeros: "digits_value (replicate n (CHR ''0'') @ s) = digits_value s"
proof -
  have "foldl (\<lambda>v c. 10 * v + (uchar c - 48)) 0 (replicate n (CHR ''0'')) = 0" by (induction n) (simp_all add: uchar_def)
  then show ?thesis by (simp add: digits_value_def)
qed

lemma padded_facts:
  assumes "0 \<le> i" and "i < 10 ^ w" and "0 < w"
  shows "length (padded w i) = w" "\<forall>c \<in> set (padded w i). is_number c" "digits_value (padded w i) = i"
proof -
  have "nat i < 10 ^ w" using assms(1,2) by (simp add: nat_less_iff)
  then have "length (show_nat (nat i)) \<le> w" using assms(3) by (rule length_show_nat)
  then show "length (padded w i) = w" using assms(1) by (simp add: padded_def show_int_def Let_def)
  show "\<forall>c \<in> set (padded w i). is_number c"
    using assms(1) show_nat_numbers by (auto simp: padded_def show_int_def Let_def) (simp add: is_number_def is_digit_def uchar_def)
  show "digits_value (padded w i) = i"
    using assms(1) by (simp add: padded_def show_int_def Let_def digits_value_zeros digits_value_show_nat)
qed

lemma eat_digits_append:
  "\<forall>c \<in> set ds. is_number c \<Longrightarrow>
     eat_digits ln after (length ds) v (ds @ d) = Inr (foldl (\<lambda>v c. 10 * v + (uchar c - 48)) v ds, d)"
  by (induction ds arbitrary: v) simp_all

lemma eat_padded:
  assumes "0 \<le> i" and "i < 10 ^ w" and "0 < w"
  shows "eat_digits ln after w 0 (padded w i @ d) = Inr (i, d)"
  using eat_digits_append [OF padded_facts(2) [OF assms], of ln "after" 0 d]
  by (simp add: padded_facts(1) [OF assms]) (simp add: padded_facts(3) [OF assms] flip: digits_value_def)

lemma match_numbers:
  "\<forall>c \<in> set ds. is_number c \<Longrightarrow> match_shape (replicate (length ds) (CHR ''d'') @ ps) (ds @ s) = match_shape ps s"
  by (induction ds) simp_all

lemma match_padded:
  assumes "0 \<le> i" and "i < 10 ^ w" and "0 < w"
  shows "match_shape (replicate w (CHR ''d'') @ ps) (padded w i @ s) = match_shape ps s"
  using match_numbers [OF padded_facts(2) [OF assms], of ps s] by (simp add: padded_facts(1) [OF assms])

lemma eat_fraction_digits:
  assumes "\<forall>c \<in> set ds. is_number c" and "0 \<le> v" and "foldl (\<lambda>v c. 10 * v + (uchar c - 48)) v ds \<le> 2147483647"
    and "d = [] \<or> \<not> is_number (hd d)"
  shows "eat_fraction v (ds @ d) = Inr (foldl (\<lambda>v c. 10 * v + (uchar c - 48)) v ds, d)"
  using assms
proof (induction ds arbitrary: v)
  case Nil
  then show ?case by (cases d) simp_all
next
  case (Cons c ds)
  let ?f = "\<lambda>v c. 10 * v + (uchar c - 48)"
  have up: "\<forall>c \<in> set ds. is_number c \<Longrightarrow> 0 \<le> v \<Longrightarrow> v \<le> foldl ?f v ds" for v
  proof (induction ds arbitrary: v)
    case (Cons e es)
    then have "0 \<le> uchar e - 48" by (simp add: is_number_def is_digit_def)
    with Cons.IH [of "?f v e"] Cons.prems show ?case by simp
  qed simp
  have c: "0 \<le> uchar c - 48" using Cons.prems(1) by (simp add: is_number_def is_digit_def)
  with up [of "?f v c"] Cons.prems have "?f v c \<le> 2147483647" by simp
  with Cons.IH [of "?f v c"] Cons.prems c show ?case by simp
qed

subsection \<open>Reading a printed date\<close>

definition datetime_ok :: "datetime \<Rightarrow> bool" where
  "datetime_ok dt \<longleftrightarrow> 0 \<le> year dt \<and> year dt < 10000 \<and> 0 \<le> month dt \<and> month dt < 100 \<and> 0 \<le> day dt \<and> day dt < 100 \<and>
     0 \<le> hour dt \<and> hour dt < 100 \<and> 0 \<le> minute dt \<and> minute dt < 100 \<and> 0 \<le> second dt \<and> second dt < 100 \<and>
     0 \<le> microsecond dt \<and> microsecond dt < 1000000 \<and> \<bar>hour_offset dt\<bar> < 100 \<and> \<bar>minute_offset dt\<bar> < 100 \<and>
     (if 0 < hour_offset dt then 0 \<le> minute_offset dt else minute_offset dt \<le> 0)"

definition fraction_text :: "datetime \<Rightarrow> string" where
  "fraction_text dt = (if 0 < microsecond dt then ''.'' @ padded 6 (microsecond dt) else [])"

definition zone_text :: "datetime \<Rightarrow> string" where
  "zone_text dt =
     (if hour_offset dt \<noteq> 0 \<or> minute_offset dt \<noteq> 0 then
        (if 0 < hour_offset dt then ''+'' else ''-'') @ padded 2 \<bar>hour_offset dt\<bar> @ '':'' @ padded 2 \<bar>minute_offset dt\<bar>
      else ''Z'')"

lemma show_datetime_parts:
  "show_datetime dt =
     padded 4 (year dt) @ ''-'' @ padded 2 (month dt) @ ''-'' @ padded 2 (day dt) @ ''T'' @ padded 2 (hour dt) @ '':'' @
     padded 2 (minute dt) @ '':'' @ padded 2 (second dt) @ fraction_text dt @ zone_text dt"
  by (simp add: show_datetime_def fraction_text_def zone_text_def)

lemma zone_text_abs:
  assumes "h = \<bar>hour_offset dt\<bar>" and "m = \<bar>minute_offset dt\<bar>"
  shows "zone_text dt =
    (if hour_offset dt \<noteq> 0 \<or> minute_offset dt \<noteq> 0 then (if 0 < hour_offset dt then CHR ''+'' else CHR ''-'') # padded 2 h @ '':'' @ padded 2 m
     else ''Z'')"
  unfolding assms by (simp add: zone_text_def)

lemma zone_head: "zone_text dt = ''Z'' \<or> (\<exists>q. zone_text dt = CHR ''+'' # q \<or> zone_text dt = CHR ''-'' # q)"
  by (simp add: zone_text_def)


lemma padded_date_chars: "0 \<le> i \<Longrightarrow> i < 10 ^ w \<Longrightarrow> 0 < w \<Longrightarrow> \<forall>c \<in> set (padded w i). date_char c"
  using padded_facts(2) by (simp add: date_char_def)


lemma datetime_fields:
  assumes "datetime_ok dt"
  shows "0 \<le> year dt" "year dt < 10 ^ 4" "0 \<le> month dt" "month dt < 10 ^ 2" "0 \<le> day dt" "day dt < 10 ^ 2"
    "0 \<le> hour dt" "hour dt < 10 ^ 2" "0 \<le> minute dt" "minute dt < 10 ^ 2" "0 \<le> second dt" "second dt < 10 ^ 2"
    "0 \<le> microsecond dt" "microsecond dt < 10 ^ 6" "0 \<le> \<bar>hour_offset dt\<bar>" "\<bar>hour_offset dt\<bar> < 10 ^ 2"
    "0 \<le> \<bar>minute_offset dt\<bar>" "\<bar>minute_offset dt\<bar> < 10 ^ 2"
  using assms by (simp_all add: datetime_ok_def)

lemma date_chars:
  assumes "datetime_ok dt"
  shows "\<forall>c \<in> set (show_datetime dt). date_char c"
proof -
  note f = datetime_fields [OF assms]
  have lits: "date_char (CHR ''.'')" "date_char (CHR ''-'')" "date_char (CHR ''+'')" "date_char (CHR '':'')" "date_char (CHR ''T'')" "date_char (CHR ''Z'')"
    by (simp_all add: date_char_def)
  have "\<forall>c \<in> set (fraction_text dt). date_char c"
    using padded_date_chars [OF f(13,14)] by (auto simp: fraction_text_def lits)
  moreover have "\<forall>c \<in> set (zone_text dt). date_char c"
    using padded_date_chars [OF f(15,16)] padded_date_chars [OF f(17,18)] by (auto simp: zone_text_def lits)
  ultimately show ?thesis
    using padded_date_chars [OF f(1,2)] padded_date_chars [OF f(3,4)] padded_date_chars [OF f(5,6)] padded_date_chars [OF f(7,8)]
      padded_date_chars [OF f(9,10)] padded_date_chars [OF f(11,12)]
    by (simp add: show_datetime_parts ball_Un lits)
qed

lemma show_datetime_head:
  assumes "datetime_ok dt"
  obtains c q where "show_datetime dt = c # q" "is_number c"
proof -
  note f = padded_facts(1,2) [of "year dt" 4]
  obtain c q where "padded 4 (year dt) = c # q" using f(1) datetime_fields(1,2) [OF assms] by (cases "padded 4 (year dt)") auto
  then show thesis using f(2) datetime_fields(1,2) [OF assms] by (intro that [of c "tl (show_datetime dt)"]) (simp_all add: show_datetime_parts)
qed

lemma matches_shown:
  assumes "datetime_ok dt"
  shows "matches_date (show_datetime dt)"
proof -
  note f = datetime_fields [OF assms]
  have shape: "''dddd-dd-ddTdd:dd:dd'' = replicate 4 (CHR ''d'') @ CHR ''-'' # replicate 2 (CHR ''d'') @ CHR ''-'' # replicate 2 (CHR ''d'') @
      CHR ''T'' # replicate 2 (CHR ''d'') @ CHR '':'' # replicate 2 (CHR ''d'') @ CHR '':'' # replicate 2 (CHR ''d'') @ []"
    by (simp add: eval_nat_numeral)
  have m: "match_shape ''dddd-dd-ddTdd:dd:dd'' (show_datetime dt) = Some (fraction_text dt @ zone_text dt)"
    unfolding shape using match_padded [OF f(1,2)] match_padded [OF f(3,4)] match_padded [OF f(5,6)] match_padded [OF f(7,8)]
      match_padded [OF f(9,10)] match_padded [OF f(11,12), of "[]"]
    by (simp add: show_datetime_parts)
  have z: "zone_text dt = ''Z'' \<or> match_shape ''+dd:dd'' (zone_text dt) = Some [] \<or> match_shape ''-dd:dd'' (zone_text dt) = Some []"
  proof -
    have "''+dd:dd'' = CHR ''+'' # replicate 2 (CHR ''d'') @ CHR '':'' # replicate 2 (CHR ''d'') @ []"
      "''-dd:dd'' = CHR ''-'' # replicate 2 (CHR ''d'') @ CHR '':'' # replicate 2 (CHR ''d'') @ []"
      by (simp_all add: eval_nat_numeral)
    moreover define h m where "h = \<bar>hour_offset dt\<bar>" and "m = \<bar>minute_offset dt\<bar>"
    ultimately show ?thesis
      using match_padded [OF f(15,16)] match_padded [OF f(17,18), of "[]" "[]"] zone_text_abs [of h dt m]
      by (simp flip: h_def m_def)
  qed
  have n: "\<not> is_number (hd (zone_text dt))" "zone_text dt \<noteq> []" "hd (zone_text dt) \<noteq> CHR ''.''"
    using zone_head [of dt] by (auto simp: is_number_def is_digit_def uchar_def)
  show ?thesis
  proof (cases "0 < microsecond dt")
    case True
    let ?u = "padded 6 (microsecond dt)"
    have u: "?u \<noteq> []" "\<forall>c \<in> set ?u. is_number c" using padded_facts(1,2) [OF f(13,14)] by auto
    then have "takeWhile is_number (?u @ zone_text dt) \<noteq> []" by (cases ?u) auto
    moreover have "dropWhile is_number (?u @ zone_text dt) = zone_text dt"
      using u(2) n by (cases "zone_text dt") (simp_all add: dropWhile_append2)
    ultimately show ?thesis using m z True by (simp add: matches_date_def fraction_text_def Let_def)
  next
    case False
    with m z n show ?thesis by (cases "zone_text dt") (auto simp: matches_date_def fraction_text_def Let_def)
  qed
qed

lemma date_fields_shown:
  assumes "datetime_ok dt"
  shows "date_fields ln after (show_datetime dt) = Inr dt"
proof -
  note f = datetime_fields [OF assms]
  let ?fz = "fraction_text dt @ zone_text dt"
  have z: "zone_text dt \<noteq> []" "\<not> is_number (hd (zone_text dt))" "hd (zone_text dt) \<noteq> CHR ''.''"
    using zone_head [of dt] by (auto simp: is_number_def is_digit_def uchar_def)
  have frac: "andThen (peek (?fz @ after)) (\<lambda>c. andThen (if c = CHR ''.'' then andThen (advance ?fz) (eat_fraction 0) else Inr (0, ?fz)) k) =
      k (microsecond dt, zone_text dt)" for k :: "int \<times> string \<Rightarrow> datetime eff"
  proof (cases "0 < microsecond dt")
    case True
    have "eat_fraction 0 (padded 6 (microsecond dt) @ zone_text dt) = Inr (microsecond dt, zone_text dt)"
      using eat_fraction_digits [OF padded_facts(2) [OF f(13,14)], of 0 "zone_text dt"] padded_facts(3) [OF f(13,14)] f(14) z
      by (simp flip: digits_value_def)
    with True show ?thesis by (simp add: fraction_text_def)
  next
    case False
    then have "microsecond dt = 0" using f(13) by simp
    with z show ?thesis by (cases "zone_text dt") (simp_all add: fraction_text_def)
  qed
  let ?dt = "\<lparr>year = year dt, month = month dt, day = day dt, hour = hour dt, minute = minute dt, second = second dt,
      microsecond = microsecond dt, hour_offset = 0, minute_offset = 0\<rparr>"
  have zone: "andThen
      (if hd (zone_text dt) = CHR ''+'' \<or> hd (zone_text dt) = CHR ''-'' then
         let sign = (\<lambda>i. if hd (zone_text dt) = CHR ''+'' then i else - i) in
         andThen (eat_digits ln after 2 0 (tl (zone_text dt))) (\<lambda>(hoff, d1). andThen (eat ln (CHR '':'') d1) (\<lambda>d2.
         andThen (eat_digits ln after 2 0 d2) (\<lambda>(moff, d3).
           Inr (?dt\<lparr>hour_offset := sign hoff, minute_offset := sign moff\<rparr>, d3))))
       else if hd (zone_text dt) = CHR ''Z'' then Inr (?dt, tl (zone_text dt))
       else Inr (?dt, zone_text dt)) (\<lambda>(dt1, d4). if d4 \<noteq> [] then throw ln ''Malformed date'' else Inr dt1) = Inr dt"
  proof -
    define h m where "h = \<bar>hour_offset dt\<bar>" and "m = \<bar>minute_offset dt\<bar>"
    then have h: "hour_offset dt = (if 0 < hour_offset dt then h else - h)" "minute_offset dt = (if 0 < hour_offset dt then m else - m)"
      using assms by (auto simp: datetime_ok_def split: if_splits)
    note digits = eat_padded [OF f(15,16), folded h_def] eat_padded [OF f(17,18), of ln "after" "[]", folded m_def]
    show ?thesis
    proof (cases "0 < hour_offset dt")
      case True
      with h digits zone_text_abs [OF h_def m_def] show ?thesis by (cases dt) (simp add: eat_def Let_def)
    next
      case False
      with h digits zone_text_abs [OF h_def m_def] show ?thesis by (cases dt) (auto simp: eat_def Let_def)
    qed
  qed
  show ?thesis
    using eat_padded [OF f(1,2)] eat_padded [OF f(3,4)] eat_padded [OF f(5,6)] eat_padded [OF f(7,8)]
      eat_padded [OF f(9,10)] eat_padded [OF f(11,12)] z(1) frac zone
    by (simp add: date_fields_def show_datetime_parts eat_def Let_def)
qed

lemma printed_date:
  assumes "datetime_ok dt" and "trailing r"
  shows "is_date (show_datetime dt @ r) \<and> parse_date ln (show_datetime dt @ r) = Inr (dt, r)"
proof -
  have lits: "\<not> date_char (CHR '' '')" "\<not> date_char (CHR 0x09)" "\<not> date_char (CHR ''#'')"
    by (simp_all add: date_char_def is_number_def is_digit_def uchar_def)
  have "takeWhile date_char (show_datetime dt @ r) = show_datetime dt" "dropWhile date_char (show_datetime dt @ r) = r"
    using takeWhile_trailing [OF assms(2) lits] dropWhile_trailing [OF assms(2) lits] date_chars [OF assms(1)]
    by (simp_all add: takeWhile_all dropWhile_all)
  with matches_shown [OF assms(1)] date_fields_shown [OF assms(1)] show ?thesis by (simp add: regex_is_date is_date_regex_def parse_date_def Let_def)
qed

text \<open>
  A printed date is read back: the digits, the fraction of six digits and the offset give the date that was printed. The
  date has to have the digits the format has room for, and an offset whose hour and minute have the same sign.
\<close>

theorem printed_date_roundtrip:
  assumes "datetime_ok dt" and "trailing r"
  shows "is_date (show_datetime dt @ r) \<and> parse_date ln (show_datetime dt @ r) = Inr (dt, r)"
  using assms by (rule printed_date)

definition example_date :: datetime where
  "example_date = \<lparr>year = 2015, month = 12, day = 9, hour = 15, minute = 19, second = 0, microsecond = 250000,
     hour_offset = - 3, minute_offset = - 30\<rparr>"

lemma digit_char: "of_char c = 48 + d \<Longrightarrow> digit d = c"
  unfolding digit_def by (metis char_of_char)

lemma digit_chars:
  "digit 0 = CHR ''0''" "digit (Suc 0) = CHR ''1''" "digit 2 = CHR ''2''" "digit 3 = CHR ''3''" "digit 4 = CHR ''4''"
  "digit 5 = CHR ''5''" "digit 6 = CHR ''6''" "digit 7 = CHR ''7''" "digit 8 = CHR ''8''" "digit 9 = CHR ''9''"
  by (simp_all add: digit_char)

lemma replicate_5: "replicate 5 c = [c, c, c, c, c]"
  by (simp add: eval_nat_numeral)

lemmas date_show_simps = show_datetime_def padded_def show_int_def show_nat.simps digit_chars replicate_5 Let_def

lemma show_example_date: "show_datetime example_date = ''2015-12-09T15:19:00.250000-03:30''"
  by (simp add: example_date_def date_show_simps)

theorem printed_date_roundtrip_witness:
  "parse_date 1 ''2015-12-09T15:19:00.250000-03:30 # x'' = Inr (example_date, '' # x'')"
proof -
  have "datetime_ok example_date" by (simp add: datetime_ok_def example_date_def)
  from printed_date_roundtrip [OF this, of "'' # x''" 1] show ?thesis
    by (simp add: show_example_date trailing_def is_blank_def consume_whitespace_def)
qed

lemmas date_read_simps = parse_date_def date_fields_def date_char_def is_number_def is_digit_def uchar_def eat_def Let_def eval_nat_numeral

text \<open>
  A fraction of a second is read as the number its digits spell, not as a fraction: half a second becomes five microseconds, and is
  printed as such. The minus sign of an offset below an hour is printed for positive offsets too.
\<close>

theorem date_changes_when_rewritten:
  "(\<exists>dt. parse_date ln ''2015-12-09T15:19:00.5Z'' = Inr (dt, []) \<and> show_datetime dt = ''2015-12-09T15:19:00.000005Z'') \<and>
   (\<exists>dt. parse_date ln ''2015-12-09T15:19:00+00:30'' = Inr (dt, []) \<and> show_datetime dt = ''2015-12-09T15:19:00-00:30'')"
proof -
  let ?a = "\<lparr>year = 2015, month = 12, day = 9, hour = 15, minute = 19, second = 0, microsecond = 5, hour_offset = 0, minute_offset = 0\<rparr>"
  let ?b = "\<lparr>year = 2015, month = 12, day = 9, hour = 15, minute = 19, second = 0, microsecond = 0, hour_offset = 0, minute_offset = 30\<rparr>"
  have "parse_date ln ''2015-12-09T15:19:00.5Z'' = Inr (?a, [])" by (simp add: date_read_simps)
  moreover have "parse_date ln ''2015-12-09T15:19:00+00:30'' = Inr (?b, [])" by (simp add: date_read_simps)
  moreover have "show_datetime ?a = ''2015-12-09T15:19:00.000005Z''" "show_datetime ?b = ''2015-12-09T15:19:00-00:30''"
    by (simp_all add: date_show_simps)
  ultimately show ?thesis by blast
qed

end
