(* ===== verification/Toml_Text.thy ===== *)
theory Toml_Text
  imports Toml_Date
begin

section \<open>Files of sections\<close>

text \<open>
  The texts of the two configuration files: lines \<open>key = value\<close> under headers \<open>[name]\<close> and \<open>[[name.name]]\<close>, with strings, integers
  and booleans as values, printed as the library's writer prints them. The lemmas follow the parser over such
  lines: what it has read is the tree with the keys appended at the place \<open>curr_table\<close> points to.
\<close>

subsection \<open>Keys\<close>

definition plain_key_char :: "char \<Rightarrow> bool" where
  "plain_key_char c \<longleftrightarrow> \<not> is_blank c \<and> c \<notin> set ''=#[].'' \<and> c \<noteq> dquote \<and> c \<noteq> linefeed"

definition bare_key :: "string \<Rightarrow> bool" where
  "bare_key k \<longleftrightarrow> k \<noteq> [] \<and> (\<forall>c \<in> set k. plain_key_char c)"

lemma bare_key_head:
  assumes "bare_key k"
  obtains c q where "k = c # q" "\<not> is_blank c" "c \<noteq> dquote" "c \<noteq> CHR ''#''" "c \<noteq> CHR ''[''" "c \<noteq> CHR '']''" "c \<noteq> CHR ''.''"
  using assms by (cases k) (auto simp: bare_key_def plain_key_char_def)

lemma parse_bare_key_plain:
  assumes "bare_key k" and "\<forall>c \<in> set bs. is_blank c"
  shows "parse_bare_key ln (k @ bs) q = Inr (k, q)"
proof -
  obtain c r where k: "k = c # r" using assms(1) by (rule bare_key_head)
  have "dropWhile is_blank (rev bs @ rev r) = dropWhile is_blank (rev r)" using assms(2) by (simp add: dropWhile_append)
  also have "\<dots> = rev r"
    using assms(1) k by (cases r rule: rev_cases) (auto simp: bare_key_def plain_key_char_def)
  finally have "hd (k @ bs) # rev (dropWhile is_blank (rev (tl (k @ bs)))) = k" by (simp add: k)
  moreover have "CHR ''#'' \<notin> set k" "\<not> (\<exists>c \<in> set k. is_blank c)" "CHR ''['' \<notin> set k" "CHR '']'' \<notin> set k"
    using assms(1) by (auto simp: bare_key_def plain_key_char_def)
  ultimately show ?thesis by (simp add: parse_bare_key_def k)
qed

lemma consume_plain: "\<not> is_blank c \<Longrightarrow> consume_whitespace (c # r) = c # r"
  by (simp add: consume_whitespace_def)

lemma parse_key_equals:
  assumes "bare_key k" and "\<forall>c \<in> set bs. is_blank c"
  shows "parse_key (\<lambda>c. c = CHR ''='') ln (k @ bs @ ''='' @ v) = Inr (k, ''='' @ v)"
proof -
  obtain c r where k: "k = c # r" "\<not> is_blank c" "c \<noteq> dquote" using assms(1) by (rule bare_key_head)
  have h: "\<forall>x \<in> set (k @ bs). x \<noteq> CHR ''=''"
  proof
    fix x assume "x \<in> set (k @ bs)"
    then have "plain_key_char x \<or> is_blank x" using assms by (auto simp: bare_key_def)
    then show "x \<noteq> CHR ''=''" unfolding plain_key_char_def is_blank_def by auto
  qed
  from takeWhile_append_stop [OF h, of "CHR ''=''" v] dropWhile_append_stop [OF h, of "CHR ''=''" v]
  have "takeWhile (\<lambda>c. c \<noteq> CHR ''='') (k @ bs @ ''='' @ v) = k @ bs" "dropWhile (\<lambda>c. c \<noteq> CHR ''='') (k @ bs @ ''='' @ v) = ''='' @ v"
    by simp_all
  with k parse_bare_key_plain [OF assms, of ln "''='' @ v"] show ?thesis
    by (simp add: parse_key_def consume_plain)
qed

lemma parse_key_header:
  assumes "bare_key k" and "header_stop c"
  shows "parse_key header_stop ln (k @ c # r) = Inr (k, c # r)"
proof -
  obtain d q where k: "k = d # q" "\<not> is_blank d" "d \<noteq> dquote" using assms(1) by (rule bare_key_head)
  have h: "\<forall>x \<in> set k. \<not> header_stop x" using assms(1) by (auto simp: bare_key_def plain_key_char_def)
  have "takeWhile (\<lambda>c. \<not> header_stop c) (k @ c # r) = k"
    by (rule takeWhile_append_stop [OF h]) (use assms(2) in simp)
  moreover have "dropWhile (\<lambda>c. \<not> header_stop c) (k @ c # r) = c # r"
    by (rule dropWhile_append_stop [OF h]) (use assms(2) in simp)
  ultimately show ?thesis
    using k parse_bare_key_plain [OF assms(1), of "[]" ln "c # r"] by (simp add: parse_key_def consume_plain)
qed

subsection \<open>Values\<close>

definition bool_text :: "bool \<Rightarrow> string" where
  "bool_text b = (if b then ''true'' else ''false'')"

fun value_text :: "'d toml \<Rightarrow> string" where
  "value_text (TString s) = dquote # escape_string s @ [dquote]"
| "value_text (TInt i) = show_int i"
| "value_text (TBool b) = bool_text b"
| "value_text (TDatetime dt) = show_datetime dt"
| "value_text v = []"

fun scalar :: "'d toml \<Rightarrow> bool" where
  "scalar (TString s) = True"
| "scalar (TInt i) = (LONG_MIN \<le> i \<and> i \<le> LONG_MAX)"
| "scalar (TBool b) = True"
| "scalar (TDatetime dt) = datetime_ok dt"
| "scalar v = False"

lemma show_int_no_date:
  assumes "trailing r"
  shows "\<not> is_date (show_int i @ r)"
proof -
  have r: "takeWhile date_char (show_int i @ r) = takeWhile date_char (show_int i)"
    by (rule takeWhile_trailing [OF assms]) (simp_all add: date_char_def is_number_def is_digit_def uchar_def)
  have no: "CHR ''-'' \<notin> set (show_nat n)" for n using show_nat_numbers digit_not_special(1) by blast
  then have "CHR ''-'' \<notin> set (tl (show_nat n))" for n by (meson list.set_sel(2) show_nat_nonempty)
  with no have "CHR ''-'' \<notin> set (tl (show_int i))" by (simp add: show_int_def)
  then have "\<not> is_date (show_int i)" by (rule no_dash_no_date)
  with r show ?thesis by (simp add: is_date_def)
qed

lemma type_of_int:
  assumes "trailing r"
  shows "determine_value_type ln (show_int i @ r) (length (show_int i @ r)) = Inr INTEGER"
proof -
  have n: "dropWhile is_number (eat_sign (show_int i @ r)) = r"
  proof -
    have "dropWhile is_number (show_nat (nat \<bar>i\<bar>) @ r) = dropWhile is_number (show_nat (nat \<bar>i\<bar>)) @ r"
      by (rule dropWhile_trailing [OF assms]) (simp_all add: is_number_def is_digit_def uchar_def)
    then show ?thesis using eat_sign_show_int [of i r] dropWhile_all [OF show_nat_numbers] by simp
  qed
  have "r = [] \<or> hd r \<noteq> CHR ''.''" using trailing_head [of "hd r" "tl r"] assms by (cases r) auto
  moreover obtain c q where c: "show_int i = c # q" by (cases "show_int i") (auto simp: show_int_def split: if_splits)
  moreover have "is_number c \<or> c = CHR ''-''"
    using c show_nat_numbers [of "nat i"] by (cases "i < 0") (auto simp: show_int_def)
  moreover from this have "c \<noteq> dquote" "c \<noteq> squote" using digit_not_special(5,6) by auto
  ultimately show ?thesis
    using show_int_no_date [OF assms, of i] n by (auto simp: determine_value_type_def determine_number_type_def)
qed

lemma type_of_bool:
  "determine_value_type ln (bool_text b @ r) (length (bool_text b @ r)) = Inr BOOL"
  by (cases b) (simp_all add: bool_text_def determine_value_type_def is_date_def date_char_def matches_date_def is_number_def is_digit_def uchar_def)

lemma parse_bool_text:
  assumes "trailing r"
  shows "parse_bool ln (bool_text b @ r) = Inr (b, r)"
proof -
  let ?P = "\<lambda>c. \<not> is_blank c \<and> c \<noteq> CHR ''#''"
  have "takeWhile ?P (bool_text b @ r) = takeWhile ?P (bool_text b)"
    "dropWhile ?P (bool_text b @ r) = dropWhile ?P (bool_text b) @ r"
    using takeWhile_trailing [OF assms, of ?P] dropWhile_trailing [OF assms, of ?P] by (simp_all add: bool_text_def is_blank_def)
  then show ?thesis by (cases b) (simp_all add: bool_text_def parse_bool_def is_blank_def Let_def)
qed

text \<open>Behind a string the white space is gone already.\<close>

fun value_rest :: "'d toml \<Rightarrow> string \<Rightarrow> string" where
  "value_rest (TString s) r = consume_whitespace r"
| "value_rest v r = r"

lemma value_rest_blanks [simp]: "consume_whitespace (value_rest v r) = consume_whitespace r"
  by (cases v) (simp_all add: consume_whitespace_def)

lemma run_value:
  assumes "scalar v" and "trailing r"
  shows "run stod (Suc n) Value \<lparr>cur = value_text v @ r, input_lines = ls, line_number = ln\<rparr> =
    Some (Inr (v, \<lparr>cur = value_rest v r, input_lines = ls, line_number = ln\<rparr>))"
proof (cases v)
  case (TString s)
  have "determine_value_type ln (dquote # q) m = Inr STRING" for q m by (simp add: determine_value_type_def)
  moreover have "r = [] \<or> hd r \<noteq> dquote" using trailing_head [of "hd r" "tl r"] assms(2) by (cases r) auto
  ultimately show ?thesis
    using TString conjunct1 [OF escaped_string, of s r ls ln] by (simp add: job_step_def parse_value_def)
next
  case (TInt i)
  then have i: "LONG_MIN \<le> i" "i \<le> LONG_MAX" using assms(1) by simp_all
  have "number_ends r" "r = [] \<or> hd r \<noteq> CHR ''.'' \<and> \<not> is_exponent r"
    using trailing_head [of "hd r" "tl r"] assms(2)
    by (cases r; auto simp: number_ends_def is_exponent_def is_number_def is_digit_def uchar_def)+
  then show ?thesis
    using TInt type_of_int [OF assms(2), of ln i] parse_number_show_int [OF i, of r stod ln]
    by (simp add: job_step_def parse_value_def on_line_def del: length_append)
next
  case (TBool b)
  then show ?thesis
    using type_of_bool [of ln b r] parse_bool_text [OF assms(2), of ln b]
    by (simp add: job_step_def parse_value_def on_line_def del: length_append)
next
  case (TDatetime dt)
  then have dt: "datetime_ok dt" using assms(1) by simp
  from show_datetime_head [OF this] obtain c q where c: "show_datetime dt = c # q" "is_number c" .
  have "is_date (show_datetime dt @ r)" "parse_date ln (show_datetime dt @ r) = Inr (dt, r)"
    using printed_date [OF dt assms(2)] by simp_all
  then show ?thesis
    using TDatetime c digit_not_special(5,6) [OF c(2)]
    by (simp add: job_step_def parse_value_def on_line_def determine_value_type_def)
qed (use assms in simp_all)

subsection \<open>Lines\<close>

text \<open>A line \<open>key = value\<close>, with the white space and the comment it may have.\<close>

definition key_line :: "string \<times> 'd toml \<Rightarrow> string \<Rightarrow> bool" where
  "key_line kv l \<longleftrightarrow> (\<exists>b1 b2 r. l = fst kv @ b1 @ ''='' @ b2 @ value_text (snd kv) @ r \<and>
     (\<forall>c \<in> set b1. is_blank c) \<and> (\<forall>c \<in> set b2. is_blank c) \<and> trailing r)"

lemma value_text_head:
  assumes "scalar v"
  shows "consume_whitespace (value_text v @ r) = value_text v @ r"
proof (cases v)
  case (TInt i)
  obtain c q where c: "show_nat (nat i) = c # q" by (cases "show_nat (nat i)") auto
  then have "\<not> is_blank c" using show_nat_numbers [of "nat i"] digit_not_special(7) by simp
  with TInt c show ?thesis by (simp add: show_int_def consume_plain is_blank_def)
next
  case (TDatetime dt)
  with assms have "datetime_ok dt" by simp
  from show_datetime_head [OF this] obtain c q where "show_datetime dt = c # q" "is_number c" .
  with TDatetime digit_not_special(7) show ?thesis by (simp add: consume_plain)
qed (use assms in \<open>simp_all add: bool_text_def consume_whitespace_def is_blank_def\<close>)

lemma consume_blanks: "\<forall>c \<in> set b. is_blank c \<Longrightarrow> consume_whitespace (b @ r) = consume_whitespace r"
  by (simp add: consume_whitespace_def dropWhile_append2)

lemma run_key_value:
  assumes "bare_key k" and "scalar v" and "\<not> contains t k"
    and "\<forall>c \<in> set b1. is_blank c" and "\<forall>c \<in> set b2. is_blank c" and "trailing r"
  shows "run stod (Suc (Suc n)) (Key_value t)
      \<lparr>cur = k @ b1 @ ''='' @ b2 @ value_text v @ r, input_lines = ls, line_number = ln\<rparr> =
    Some (Inr (TTable (insert_key t k v), \<lparr>cur = consume_whitespace r, input_lines = ls, line_number = ln\<rparr>))"
proof -
  have "consume_whitespace (tl (''='' @ b2 @ value_text v @ r)) = value_text v @ r"
    using value_text_head [OF assms(2)] consume_blanks [OF assms(5)] by simp
  then show ?thesis
    using run_value [OF assms(2,6), of stod n ls ln] parse_key_equals [OF assms(1,4), of ln "b2 @ value_text v @ r"] assms(3)
    by (subst run.simps(2)) (simp add: job_step_def parse_key_value_def on_line_def del: run.simps(2))
qed

subsection \<open>The tree at a path\<close>

lemma update_fresh: "k \<notin> fst ` set t \<Longrightarrow> insert_key t k v = t @ [(k, v)]"
  unfolding insert_key_def by (induction t) auto

lemma update_last: "k \<notin> fst ` set t \<Longrightarrow> insert_key (t @ [(k, u)]) k v = t @ [(k, v)]"
  unfolding insert_key_def by (induction t) auto

lemma update_same: "map_of t k = Some v \<Longrightarrow> insert_key t k v = t"
  unfolding insert_key_def by (induction t) (auto split: if_splits)

lemma update_twice: "insert_key (insert_key t k u) k v = insert_key t k v"
  unfolding insert_key_def by (induction t) auto

lemma map_of_insert: "map_of (insert_key t k v) k = Some v"
  by (simp add: insert_key_def AList.update_conv')

lemma table_at_update: "table_at path root = Some t \<Longrightarrow> table_at path (update_at path f root) = Some (f t)"
  by (induction path root rule: table_at.induct)
    (auto simp: map_of_insert split: option.splits toml.splits if_splits)

lemma update_at_twice:
  "table_at path root = Some t \<Longrightarrow> update_at path f (update_at path g root) = update_at path (\<lambda>t. f (g t)) root"
  by (induction path root rule: table_at.induct)
    (auto simp: map_of_insert update_twice split: option.splits toml.splits if_splits)

lemma update_at_id: "table_at path root = Some t \<Longrightarrow> update_at path (\<lambda>t. t) root = root"
  by (induction path root rule: table_at.induct)
    (auto simp: update_same split: option.splits toml.splits if_splits)

lemma update_at_cong: "table_at path root = Some t \<Longrightarrow> f t = g t \<Longrightarrow> update_at path f root = update_at path g root"
  by (induction path root rule: table_at.induct)
    (auto split: option.splits toml.splits if_splits)

subsection \<open>Lines of keys\<close>

definition plain_pairs :: "(string \<times> 'd toml) list \<Rightarrow> bool" where
  "plain_pairs kvs \<longleftrightarrow> distinct (map fst kvs) \<and> (\<forall>(k, v) \<in> set kvs. bare_key k \<and> scalar v)"

lemma contains_iff: "contains t k \<longleftrightarrow> k \<in> fst ` set t"
  by (simp add: contains_def map_of_eq_None_iff)

lemma parse_key_line:
  assumes "bare_key k" and "scalar v" and "table_at path root = Some t" and "k \<notin> fst ` set t" and "key_line (k, v) l"
  shows "parse_lines stod (Suc (Suc (Suc n))) root path ln (l # ls) =
    parse_lines stod (Suc (Suc n)) (update_at path (\<lambda>t. t @ [(k, v)]) root) path (ln + 1) ls"
proof -
  obtain b1 b2 r where l: "l = k @ b1 @ ''='' @ b2 @ value_text v @ r" "\<forall>c \<in> set b1. is_blank c" "\<forall>c \<in> set b2. is_blank c" "trailing r"
    using assms(5) by (auto simp: key_line_def)
  obtain c q where k: "k = c # q" "\<not> is_blank c" "c \<noteq> CHR ''#''" "c \<noteq> CHR ''[''" using assms(1) by (rule bare_key_head)
  then have h: "consume_whitespace l = l" "l \<noteq> []" "hd l \<noteq> CHR ''#''" "hd l \<noteq> CHR ''[''"
    by (simp_all add: l(1) consume_plain)
  have fresh: "\<not> contains t k" using assms(4) by (simp add: contains_iff)
  have u: "update_at path (\<lambda>_. insert_key t k v) root = update_at path (\<lambda>t. t @ [(k, v)]) root"
    by (rule update_at_cong [OF assms(3)]) (simp add: update_fresh [OF assms(4)])
  have c: "eol_or_comment ln' (consume_whitespace (consume_whitespace r)) = Inr ()" for ln'
    using trailing_comment [OF l(4)] by (simp add: consume_whitespace_def)
  have "run stod (Suc (Suc n)) (Key_value t) \<lparr>cur = l, input_lines = ls, line_number = ln + 1\<rparr> =
      Some (Inr (TTable (insert_key t k v), \<lparr>cur = consume_whitespace r, input_lines = ls, line_number = ln + 1\<rparr>))"
    unfolding l(1) by (rule run_key_value [OF assms(1,2) fresh l(2-4)])
  with h u c assms(3) show ?thesis
    by (subst parse_lines.simps(2)) (simp add: Let_def del: parse_lines.simps(2) run.simps(2))
qed

subsection \<open>Headers\<close>

lemma header_end: "header_stop (CHR '']'')" "header_stop (CHR ''.'')"
  by simp_all

lemma bare_key_part:
  assumes "bare_key k" and "header_stop c"
  shows "hd k \<noteq> CHR '']'' \<and> hd k \<noteq> CHR ''['' \<and> k \<noteq> [] \<and> parse_key header_stop ln (k @ c # r) = Inr (k, c # r)"
proof -
  obtain d q where "k = d # q" "d \<noteq> CHR '']''" "d \<noteq> CHR ''[''" using assms(1) by (rule bare_key_head)
  then show ?thesis using parse_key_header [OF assms] by simp
qed

lemma join_dots_simps: "join_dots [p] = p" "ps \<noteq> [] \<Longrightarrow> join_dots (p # ps) = p @ ''.'' @ join_dots ps"
  by (simp_all add: join_dots_def)

lemma join_dots_bare:
  assumes "ps \<noteq> []" and "\<forall>p \<in> set ps. bare_key p"
  obtains c q where "join_dots ps = c # q" "\<not> is_blank c" "c \<noteq> CHR ''.''" "c \<noteq> CHR ''[''" "c \<noteq> CHR '']''"
proof -
  obtain p qs where p: "ps = p # qs" using assms(1) by (cases ps) auto
  then have "bare_key p" using assms(2) by simp
  then obtain c q where "p = c # q" "\<not> is_blank c" "c \<noteq> CHR ''.''" "c \<noteq> CHR ''[''" "c \<noteq> CHR '']''" by (rule bare_key_head)
  then show thesis using p by (intro that [of c "tl (join_dots ps)"]; cases "qs = []") (simp_all add: join_dots_simps)
qed

lemma skip_dot_bare:
  assumes "ps \<noteq> []" and "\<forall>p \<in> set ps. bare_key p"
  shows "skip_dot (CHR ''.'' # join_dots ps @ r) = join_dots ps @ r"
proof -
  obtain c q where "join_dots ps = c # q" "\<not> is_blank c" using assms by (rule join_dots_bare)
  then show ?thesis by (simp add: skip_dot_def consume_whitespace_def is_blank_def)
qed

lemma skip_dot_close: "skip_dot (CHR '']'' # r) = CHR '']'' # r"
  by (simp add: skip_dot_def consume_whitespace_def is_blank_def)

lemma table_at_append:
  "table_at (ps @ qs) root = (case table_at ps root of None \<Rightarrow> None | Some t \<Rightarrow> table_at qs t)"
  by (induction ps root rule: table_at.induct) (auto split: option.splits toml.splits)

text \<open>Where the path goes on, the parser goes down it.\<close>

lemma path_goes_on:
  assumes "table_at (path @ p # ps) root = Some t"
  obtains u b where "table_at path root = Some u" "map_of u p = Some b" "descend ln msg path b p = Inr (path @ [p])"
    "is_table b \<or> is_table_array b"
  using assms by (auto simp: table_at_append descend_def split: option.splits toml.splits if_splits)

lemma single_table_loop_path:
  assumes "ps \<noteq> []" and "\<forall>p \<in> set ps. bare_key p" and "table_at (path @ butlast ps) root = Some t" and "last ps \<notin> fst ` set t"
  shows "single_table_loop ln root path full ins (join_dots ps @ '']'' @ r) =
    Inr (update_at (path @ butlast ps) (\<lambda>t. t @ [(last ps, TTable [])]) root, path @ ps, foldl full_name full ps, True, '']'' @ r)"
  using assms
proof (induction ps arbitrary: path full ins)
  case (Cons p ps)
  have p: "bare_key p" using Cons.prems by simp
  show ?case
  proof (cases "ps = []")
    case True
    note key = bare_key_part [OF p header_end(1), of _ r]
    have "update_at path (\<lambda>t. insert_key t p (TTable [])) root = update_at path (\<lambda>t. t @ [(p, TTable [])]) root"
      using Cons.prems True by (intro update_at_cong [of path root t] update_fresh) simp_all
    then show ?thesis
      using key Cons.prems True
      by (subst single_table_loop.simps)
        (simp add: join_dots_simps table_part_def contains_iff skip_dot_close single_table_loop.simps [of _ _ _ _ _ "CHR '']'' # r"])
  next
    case False
    note key = bare_key_part [OF p header_end(2), of _ "join_dots ps @ CHR '']'' # r"]
    have "table_at (path @ p # butlast ps) root = Some t" using Cons.prems False by simp
    then obtain u b where u: "table_at path root = Some u" "map_of u p = Some b"
      "descend ln (''Key '' @ full_name full p @ ''already exists as a value'') path b p = Inr (path @ [p])" by (rule path_goes_on)
    have "table_part ln root path (full_name full p) ins p = Inr (root, path @ [p], ins)"
      using u by (simp add: table_part_def contains_def get_def)
    moreover have "skip_dot (CHR ''.'' # join_dots ps @ CHR '']'' # r) = join_dots ps @ CHR '']'' # r"
      using Cons.prems False by (intro skip_dot_bare) simp_all
    moreover have "single_table_loop ln root (path @ [p]) (full_name full p) ins (join_dots ps @ '']'' @ r) =
        Inr (update_at ((path @ [p]) @ butlast ps) (\<lambda>t. t @ [(last ps, TTable [])]) root, (path @ [p]) @ ps,
          foldl full_name (full_name full p) ps, True, '']'' @ r)"
      by (rule Cons.IH) (use Cons.prems False in simp_all)
    ultimately show ?thesis
      using key False by (subst single_table_loop.simps) (simp add: join_dots_simps)
  qed
qed simp

text \<open>\<open>[a.b.c]\<close> where \<open>[a.b]\<close> is there and has no \<open>c\<close>.\<close>

definition table_line :: "string list \<Rightarrow> string \<Rightarrow> bool" where
  "table_line ps l \<longleftrightarrow> (\<exists>r. l = ''['' @ join_dots ps @ '']'' @ r \<and> trailing r)"

lemma parse_table_line:
  assumes "ps \<noteq> []" and "\<forall>p \<in> set ps. bare_key p" and "table_at (butlast ps) root = Some t" and "last ps \<notin> fst ` set t"
    and "table_line ps l"
  shows "parse_table ln root l = Inr (update_at (butlast ps) (\<lambda>t. t @ [(last ps, TTable [])]) root, ps)"
proof -
  obtain r where l: "l = ''['' @ join_dots ps @ '']'' @ r" "trailing r" using assms(5) by (auto simp: table_line_def)
  obtain c q where j: "join_dots ps = c # q" "c \<noteq> CHR ''[''" "c \<noteq> CHR '']''" using assms(1,2) by (rule join_dots_bare)
  have "single_table_loop ln root [] [] False (join_dots ps @ '']'' @ r) =
      Inr (update_at (butlast ps) (\<lambda>t. t @ [(last ps, TTable [])]) root, ps, foldl full_name [] ps, True, '']'' @ r)"
    using single_table_loop_path [OF assms(1,2), of "[]" root t ln "[]" False r] assms(3,4) by simp
  then show ?thesis
    using l j trailing_comment [OF l(2), of ln] by (simp add: parse_table_def parse_single_table_def)
qed

text \<open>\<open>[[a.b.c]]\<close> where \<open>[a.b]\<close> is there: \<open>c\<close> becomes a table array in it, or gets one more element.\<close>

definition table_array_line :: "string list \<Rightarrow> string \<Rightarrow> bool" where
  "table_array_line ps l \<longleftrightarrow> (\<exists>r. l = ''[['' @ join_dots ps @ '']]'' @ r \<and> trailing r)"

definition add_element :: "string \<Rightarrow> 'd table \<Rightarrow> 'd table" where
  "add_element k t = insert_key t k (TTableArray ((case map_of t k of Some (TTableArray us) \<Rightarrow> us | _ \<Rightarrow> []) @ [[]]))"

definition takes_elements :: "'d table \<Rightarrow> string \<Rightarrow> bool" where
  "takes_elements t k \<longleftrightarrow> (case map_of t k of None \<Rightarrow> True | Some b \<Rightarrow> is_table_array b)"

lemma array_part_end:
  assumes "table_at path root = Some t" and "takes_elements t p"
  shows "array_part ln root path full True p = Inr (update_at path (add_element p) root, path @ [p])"
proof (cases "map_of t p")
  case None
  then have "update_at path (\<lambda>t. insert_key t p (TTableArray [[]])) root = update_at path (add_element p) root"
    by (intro update_at_cong [OF assms(1)]) (simp add: add_element_def)
  with assms None show ?thesis by (simp add: array_part_def contains_def)
next
  case (Some b)
  with assms(2) obtain us where us: "map_of t p = Some (TTableArray us)" by (cases b) (auto simp: takes_elements_def)
  then have "update_at path (\<lambda>t. insert_key t p (TTableArray (us @ [[]]))) root = update_at path (add_element p) root"
    by (intro update_at_cong [OF assms(1)]) (simp add: add_element_def)
  with assms us show ?thesis by (simp add: array_part_def contains_def get_def)
qed

lemma table_array_loop_path:
  assumes "ps \<noteq> []" and "\<forall>p \<in> set ps. bare_key p" and "table_at (path @ butlast ps) root = Some t" and "takes_elements t (last ps)"
  shows "table_array_loop ln root path full (join_dots ps @ '']]'' @ r) =
    Inr (update_at (path @ butlast ps) (add_element (last ps)) root, path @ ps, '']]'' @ r)"
  using assms
proof (induction ps arbitrary: path full)
  case (Cons p ps)
  have p: "bare_key p" using Cons.prems by simp
  show ?case
  proof (cases "ps = []")
    case True
    note key = bare_key_part [OF p header_end(1), of _ "CHR '']'' # r"]
    have "array_part ln root path (full_name full p) True p = Inr (update_at path (add_element p) root, path @ [p])"
      by (rule array_part_end) (use Cons.prems True in simp_all)
    then show ?thesis
      using key Cons.prems True
      by (subst table_array_loop.simps)
        (simp add: join_dots_simps skip_dot_close Let_def table_array_loop.simps [of _ _ _ _ "CHR '']'' # CHR '']'' # r"])
  next
    case False
    note key = bare_key_part [OF p header_end(2), of _ "join_dots ps @ CHR '']'' # CHR '']'' # r"]
    have bare: "\<forall>p \<in> set ps. bare_key p" using Cons.prems by simp
    have "table_at (path @ p # butlast ps) root = Some t" using Cons.prems False by simp
    then obtain u b where u: "table_at path root = Some u" "map_of u p = Some b"
      "descend ln (''Key '' @ full_name full p @ '' already exists as a value'') path b p = Inr (path @ [p])" by (rule path_goes_on)
    have part: "array_part ln root path (full_name full p) False p = Inr (root, path @ [p])"
      using u by (simp add: array_part_def contains_def get_def)
    have dot: "skip_dot (CHR ''.'' # join_dots ps @ CHR '']'' # CHR '']'' # r) = join_dots ps @ CHR '']'' # CHR '']'' # r"
      using False bare by (rule skip_dot_bare)
    obtain c q where j: "join_dots ps = c # q" "c \<noteq> CHR '']''" using False bare by (rule join_dots_bare)
    have "table_array_loop ln root (path @ [p]) (full_name full p) (join_dots ps @ '']]'' @ r) =
        Inr (update_at ((path @ [p]) @ butlast ps) (add_element (last ps)) root, (path @ [p]) @ ps, '']]'' @ r)"
      by (rule Cons.IH) (use Cons.prems False in simp_all)
    with part dot key False j show ?thesis
      by (subst table_array_loop.simps) (simp add: join_dots_simps Let_def)
  qed
qed simp

lemma parse_table_array_line:
  assumes "ps \<noteq> []" and "\<forall>p \<in> set ps. bare_key p" and "table_at (butlast ps) root = Some t" and "takes_elements t (last ps)"
    and "table_array_line ps l"
  shows "parse_table ln root l = Inr (update_at (butlast ps) (add_element (last ps)) root, ps)"
proof -
  obtain r where l: "l = ''[['' @ join_dots ps @ '']]'' @ r" "trailing r" using assms(5) by (auto simp: table_array_line_def)
  obtain c q where j: "join_dots ps = c # q" "c \<noteq> CHR '']''" using assms(1,2) by (rule join_dots_bare)
  have "table_array_loop ln root [] [] (join_dots ps @ '']]'' @ r) =
      Inr (update_at (butlast ps) (add_element (last ps)) root, ps, '']]'' @ r)"
    using table_array_loop_path [OF assms(1,2), of "[]" root t ln "[]" r] assms(3,4) by simp
  then show ?thesis
    using l j trailing_comment [OF l(2), of ln] by (simp add: parse_table_def parse_table_array_def Let_def)
qed

subsection \<open>Documents\<close>

text \<open>
  What a line of a document says, and what it does to the tree and the current table: the specification of such documents.
\<close>

datatype 'd item = Header "string list" | Element "string list" | Setting string "'d toml"

fun spells :: "'d item \<Rightarrow> string \<Rightarrow> bool" where
  "spells (Header ps) l = table_line ps l"
| "spells (Element ps) l = table_array_line ps l"
| "spells (Setting k v) l = key_line (k, v) l"

fun apply_item :: "'d item \<Rightarrow> 'd table \<times> string list \<Rightarrow> 'd table \<times> string list" where
  "apply_item (Header ps) (root, path) = (update_at (butlast ps) (\<lambda>t. t @ [(last ps, TTable [])]) root, ps)"
| "apply_item (Element ps) (root, path) = (update_at (butlast ps) (add_element (last ps)) root, ps)"
| "apply_item (Setting k v) (root, path) = (update_at path (\<lambda>t. t @ [(k, v)]) root, path)"

fun item_ok :: "'d item \<Rightarrow> 'd table \<times> string list \<Rightarrow> bool" where
  "item_ok (Header ps) (root, path) =
     (ps \<noteq> [] \<and> list_all bare_key ps \<and> (case table_at (butlast ps) root of None \<Rightarrow> False | Some t \<Rightarrow> last ps \<notin> fst ` set t))"
| "item_ok (Element ps) (root, path) =
     (ps \<noteq> [] \<and> list_all bare_key ps \<and> (case table_at (butlast ps) root of None \<Rightarrow> False | Some t \<Rightarrow> takes_elements t (last ps)))"
| "item_ok (Setting k v) (root, path) =
     (bare_key k \<and> scalar v \<and> (case table_at path root of None \<Rightarrow> False | Some t \<Rightarrow> k \<notin> fst ` set t))"

primrec items_ok :: "'d item list \<Rightarrow> 'd table \<times> string list \<Rightarrow> bool" where
  "items_ok [] s = True"
| "items_ok (i # items) s = (item_ok i s \<and> items_ok items (apply_item i s))"

text \<open>The lines that are not blank and not a comment, without their indentation.\<close>

definition is_layout :: "string \<Rightarrow> bool" where
  "is_layout r \<longleftrightarrow> r = [] \<or> hd r = CHR ''#''"

definition essential :: "string list \<Rightarrow> string list" where
  "essential ls = filter (\<lambda>r. \<not> is_layout r) (map consume_whitespace ls)"

lemma consume_twice [simp]: "consume_whitespace (consume_whitespace l) = consume_whitespace l"
  by (simp add: consume_whitespace_def)

lemma parse_lines_indent: "parse_lines stod (Suc n) root path ln (l # ls) = parse_lines stod (Suc n) root path ln (consume_whitespace l # ls)"
  by simp

lemma parse_lines_layout:
  "is_layout (consume_whitespace l) \<Longrightarrow> parse_lines stod (Suc n) root path ln (l # ls) = parse_lines stod n root path (ln + 1) ls"
  by (auto simp: is_layout_def)

lemma parse_lines_header:
  assumes "hd l = CHR ''[''" and "l \<noteq> []" and "parse_table (ln + 1) root l = Inr (root1, path1)"
  shows "parse_lines stod (Suc n) root path ln (l # ls) = parse_lines stod n root1 path1 (ln + 1) ls"
proof -
  have "consume_whitespace l = l" using assms(1,2) by (cases l) (simp_all add: consume_plain is_blank_def)
  with assms show ?thesis by simp
qed

lemma parse_item:
  assumes "item_ok i (root, path)" and "spells i l" and "apply_item i (root, path) = (root1, path1)"
  shows "parse_lines stod (Suc (Suc (Suc n))) root path ln (l # ls) = parse_lines stod (Suc (Suc n)) root1 path1 (ln + 1) ls"
proof (cases i)
  case (Header ps)
  then obtain t where t: "ps \<noteq> []" "\<forall>p \<in> set ps. bare_key p" "table_at (butlast ps) root = Some t" "last ps \<notin> fst ` set t"
    using assms(1) by (auto simp: list_all_iff split: option.splits)
  have "table_line ps l" using assms(2) Header by simp
  then show ?thesis
    using parse_table_line [OF t] assms(3) Header by (intro parse_lines_header) (auto simp: table_line_def)
next
  case (Element ps)
  then obtain t where t: "ps \<noteq> []" "\<forall>p \<in> set ps. bare_key p" "table_at (butlast ps) root = Some t" "takes_elements t (last ps)"
    using assms(1) by (auto simp: list_all_iff split: option.splits)
  have "table_array_line ps l" using assms(2) Element by simp
  then show ?thesis
    using parse_table_array_line [OF t] assms(3) Element by (intro parse_lines_header) (auto simp: table_array_line_def)
next
  case (Setting k v)
  then show ?thesis using assms parse_key_line [of k v path root _ l stod n ln ls] by (auto split: option.splits simp del: parse_lines.simps)
qed

lemma parse_items:
  assumes "items_ok items (root, path)" and "list_all2 spells items (essential ls)"
  shows "parse_lines stod (length ls + n + 3) root path ln ls = Some (Inr (fst (fold apply_item items (root, path))))"
  using assms
proof (induction ls arbitrary: items root path ln)
  case Nil
  then show ?case by (simp add: essential_def numeral_3_eq_3)
next
  case (Cons l ls)
  let ?l = "consume_whitespace l"
  have fuel: "length (l # ls) + n + 3 = Suc (Suc (Suc (length ls + n + 1)))" "length ls + n + 3 = Suc (Suc (length ls + n + 1))" by simp_all
  show ?case
  proof (cases "is_layout ?l")
    case True
    then have "list_all2 spells items (essential ls)" using Cons.prems(2) by (simp add: essential_def)
    from Cons.IH [OF Cons.prems(1) this, of "ln + 1"] show ?thesis
      unfolding fuel parse_lines_layout [OF True] .
  next
    case False
    then have "list_all2 spells items (?l # essential ls)" using Cons.prems(2) by (simp add: essential_def)
    then obtain i items' where items: "items = i # items'" "spells i ?l" "list_all2 spells items' (essential ls)"
      by (auto simp: list_all2_Cons2)
    obtain root1 path1 where step: "apply_item i (root, path) = (root1, path1)" by (cases "apply_item i (root, path)")
    have "items_ok items' (root1, path1)" "item_ok i (root, path)" using Cons.prems(1) items(1) step by simp_all
    then show ?thesis
      using Cons.IH [of items' root1 path1 "ln + 1"] items step
        parse_item [OF \<open>item_ok i (root, path)\<close> items(2) step, of stod "length ls + n + 1" ln ls]
      unfolding fuel by (simp only: parse_lines_indent [of _ _ _ _ _ l] fold_simps)
  qed
qed

lemma lines_of_count: "length (lines_of l r) \<le> length l + length r"
  by (induction l r rule: lines_of.induct) (auto simp: Suc_le_eq)

lemma document_reads:
  assumes "list_all2 spells items (essential (lines_of [] doc))" and "items_ok items ([], [])"
  shows "parse stod doc = Some (Inr (fst (fold apply_item items ([], []))))"
proof -
  let ?n = "3 * length doc + 7 - length (lines_of [] doc)"
  have "3 * length doc + 10 = length (lines_of [] doc) + ?n + 3" using lines_of_count [of "[]" doc] by simp
  then show ?thesis unfolding parse_def using parse_items [OF assms(2,1), of stod "?n" 0] by (simp only:)
qed

subsection \<open>Printed documents\<close>

fun plain_line :: "'d item \<Rightarrow> string" where
  "plain_line (Header ps) = ''['' @ join_dots ps @ '']''"
| "plain_line (Element ps) = ''[['' @ join_dots ps @ '']]''"
| "plain_line (Setting k v) = k @ ''='' @ value_text v"

definition document :: "'d item list \<Rightarrow> string" where
  "document items = concat (map (\<lambda>i. plain_line i @ [linefeed]) items)"

lemma spells_plain: "spells i (plain_line i)"
proof (cases i)
  case (Setting k v)
  have "plain_line i = k @ [] @ ''='' @ [] @ value_text v @ []" by (simp add: Setting)
  then show ?thesis unfolding Setting spells.simps key_line_def fst_conv snd_conv
    by (intro exI [of _ "[]"] conjI) (simp_all add: trailing_def consume_whitespace_def)
qed (force simp: table_line_def table_array_line_def trailing_def consume_whitespace_def)+

lemma join_dots_no: "\<forall>p \<in> set ps. c \<notin> set p \<Longrightarrow> ps \<noteq> [] \<Longrightarrow> c \<noteq> CHR ''.'' \<Longrightarrow> c \<notin> set (join_dots ps)"
  by (auto simp: join_dots_def dest: in_set_butlastD)

lemma value_text_one_line: "scalar v \<Longrightarrow> linefeed \<notin> set (value_text v)"
proof (cases v)
  case (TInt i)
  have "linefeed \<notin> set (show_nat n)" for n using show_nat_numbers digit_not_special(12) by blast
  with TInt show ?thesis by (simp add: show_int_def)
next
  case (TDatetime dt)
  assume "scalar v"
  with TDatetime have "\<forall>c \<in> set (show_datetime dt). date_char c" by (simp add: date_chars)
  moreover have "\<not> date_char linefeed" by (simp add: date_char_def is_number_def is_digit_def uchar_def)
  ultimately show ?thesis using TDatetime by auto
qed (simp_all add: bool_text_def escape_string_one_line)

lemma plain_line_facts:
  assumes "item_ok i s"
  shows "linefeed \<notin> set (plain_line i)" "consume_whitespace (plain_line i) = plain_line i" "\<not> is_layout (plain_line i)"
proof -
  have bare: "linefeed \<notin> set k" if "bare_key k" for k using that by (auto simp: bare_key_def plain_key_char_def)
  obtain root path where s: "s = (root, path)" by (cases s)
  have "linefeed \<notin> set (plain_line i) \<and> consume_whitespace (plain_line i) = plain_line i \<and> \<not> is_layout (plain_line i)"
  proof (cases i)
    case (Header ps)
    then show ?thesis using assms s bare join_dots_no [of ps linefeed] by (auto simp: list_all_iff is_layout_def consume_whitespace_def is_blank_def)
  next
    case (Element ps)
    then show ?thesis using assms s bare join_dots_no [of ps linefeed] by (auto simp: list_all_iff is_layout_def consume_whitespace_def is_blank_def)
  next
    case (Setting k v)
    then have k: "bare_key k" "scalar v" using assms s by simp_all
    from bare_key_head [OF k(1)] obtain c q where "k = c # q" "\<not> is_blank c" "c \<noteq> CHR ''#''" .
    then show ?thesis using Setting bare [OF k(1)] value_text_one_line [OF k(2)] by (auto simp: is_layout_def consume_whitespace_def)
  qed
  then show "linefeed \<notin> set (plain_line i)" "consume_whitespace (plain_line i) = plain_line i" "\<not> is_layout (plain_line i)" by simp_all
qed

lemma lines_of_line: "linefeed \<notin> set l \<Longrightarrow> lines_of p (l @ linefeed # r) = (p @ l) # lines_of [] r"
  by (induction l arbitrary: p) auto

lemma document_lines: "items_ok items s \<Longrightarrow> lines_of [] (document items) = map plain_line items"
proof (induction items arbitrary: s)
  case (Cons i items)
  then show ?case using plain_line_facts(1) [of i s] Cons.IH [of "apply_item i s"] by (simp add: document_def lines_of_line)
qed (simp add: document_def)

lemma document_essential: "items_ok items s \<Longrightarrow> essential (map plain_line items) = map plain_line items"
proof (induction items arbitrary: s)
  case (Cons i items)
  then show ?case using plain_line_facts(2,3) [of i s] Cons.IH [of "apply_item i s"] by (simp add: essential_def)
qed (simp add: essential_def)

lemma document_spelled: "items_ok items s \<Longrightarrow> list_all2 spells items (essential (lines_of [] (document items)))"
  by (simp add: document_lines document_essential list_all2_conv_all_nth spells_plain)

text \<open>
  C13: Reading a document: on a text whose lines, apart from blank lines, comments, indentation and white space around
  the values, are headers of tables and of table arrays and pairs of a bare key and a string, an integer or a boolean,
  the parser builds the tree that its lines say one after the other.
\<close>

theorem document_read:
  assumes "list_all2 spells items (essential (lines_of [] doc))" and "items_ok items ([], [])"
  shows "parse stod doc = Some (Inr (fst (fold apply_item items ([], []))))"
  using assms by (rule document_reads)

definition example_items :: "nat item list" where
  "example_items = [Header [''Host''], Setting ''port'' (TInt 3690), Element [''Host'', ''Content''], Setting ''range'' (TString ''A~Zz'')]"

theorem document_read_witness:
  "parse (\<lambda>_. None :: nat option) (document example_items) =
    Some (Inr [(''Host'', TTable [(''port'', TInt 3690), (''Content'', TTableArray [[(''range'', TString ''A~Zz'')]])])])"
proof -
  have ok: "items_ok example_items ([], [])"
    by (simp add: example_items_def bare_key_def plain_key_char_def is_blank_def takes_elements_def LONG_MIN_def LONG_MAX_def
        add_element_def insert_key_def)
  show ?thesis
    using document_read [OF document_spelled [OF ok] ok, of "\<lambda>_. None :: nat option"]
    by (simp add: example_items_def add_element_def insert_key_def)
qed

subsection \<open>Sections\<close>

definition pairs :: "(string \<times> 'd toml) list \<Rightarrow> 'd item list" where
  "pairs kvs = map (\<lambda>(k, v). Setting k v) kvs"

lemma fold_pairs:
  "table_at path root = Some t \<Longrightarrow> fold apply_item (pairs kvs) (root, path) = (update_at path (\<lambda>t. t @ kvs) root, path)"
proof (induction kvs arbitrary: root t)
  case (Cons kv kvs)
  then show ?case
    by (cases kv) (simp add: pairs_def table_at_update [OF Cons.prems] update_at_twice [OF Cons.prems])
qed (simp add: pairs_def update_at_id)

lemma pairs_ok:
  assumes "table_at path root = Some t" and "plain_pairs kvs" and "fst ` set t \<inter> fst ` set kvs = {}"
  shows "items_ok (pairs kvs @ items) (root, path) \<longleftrightarrow> items_ok items (update_at path (\<lambda>t. t @ kvs) root, path)"
  using assms
proof (induction kvs arbitrary: root t)
  case (Cons kv kvs)
  obtain k v where kv: "kv = (k, v)" by (cases kv)
  let ?root = "update_at path (\<lambda>t. t @ [(k, v)]) root"
  have "k \<notin> fst ` set kvs" using Cons.prems(2) kv by (auto simp: plain_pairs_def simp flip: set_map)
  then have d: "fst ` set (t @ [(k, v)]) \<inter> fst ` set kvs = {}" using Cons.prems(3) kv by auto
  have p: "plain_pairs kvs" using Cons.prems(2) by (simp add: plain_pairs_def)
  have "item_ok (Setting k v) (root, path)" using Cons.prems kv by (auto simp: plain_pairs_def)
  then show ?case
    using Cons.IH [OF table_at_update [OF Cons.prems(1), of "\<lambda>t. t @ [(k, v)]"] p d] kv
    by (simp add: pairs_def update_at_twice [OF Cons.prems(1)])
qed (simp add: pairs_def update_at_id)

lemma map_of_fresh_last: "k \<notin> fst ` set t \<Longrightarrow> map_of (t @ [(k, v)]) k = Some v"
  by (induction t) auto

lemma section_last: "name \<notin> fst ` set root \<Longrightarrow> update_at [name] (\<lambda>t. t @ kvs) (root @ [(name, TTable [])]) = root @ [(name, TTable kvs)]"
  by (simp add: map_of_fresh_last update_last del: map_of_append)

definition section_items :: "string \<times> 'd table \<Rightarrow> 'd item list" where
  "section_items s = Header [fst s] # pairs (snd s)"

lemma fold_section:
  assumes "name \<notin> fst ` set root"
  shows "fold apply_item (section_items (name, kvs)) (root, path) = (root @ [(name, TTable kvs)], [name])"
proof -
  have "table_at [name] (root @ [(name, TTable [])]) = Some []" by (simp add: map_of_fresh_last [OF assms] del: map_of_append)
  from fold_pairs [OF this, of kvs] show ?thesis
    using section_last [OF assms, of kvs] by (simp add: section_items_def)
qed

lemma section_ok:
  assumes "bare_key name" and "name \<notin> fst ` set root" and "plain_pairs kvs"
  shows "items_ok (section_items (name, kvs) @ items) (root, path) \<longleftrightarrow> items_ok items (root @ [(name, TTable kvs)], [name])"
proof -
  have "table_at [name] (root @ [(name, TTable [])]) = Some []" by (simp add: map_of_fresh_last [OF assms(2)] del: map_of_append)
  from pairs_ok [OF this assms(3), of items] show ?thesis
    using section_last [OF assms(2), of kvs] assms(1,2) by (simp add: section_items_def)
qed

text \<open>A file of sections is the table of these tables.\<close>

lemma fold_sections:
  "distinct (map fst secs) \<Longrightarrow> fst ` set root \<inter> fst ` set secs = {} \<Longrightarrow>
     fst (fold apply_item (concat (map section_items secs)) (root, path)) = root @ map (\<lambda>(n, t). (n, TTable t)) secs"
proof (induction secs arbitrary: root path)
  case (Cons s secs)
  obtain n t where s: "s = (n, t)" by (cases s)
  have "fst ` set (root @ [(n, TTable t)]) \<inter> fst ` set secs = {}" "distinct (map fst secs)" "n \<notin> fst ` set root"
    using Cons.prems s by auto
  then show ?case using Cons.IH s by (simp add: fold_section)
qed simp

lemma sections_ok:
  "distinct (map fst secs) \<Longrightarrow> fst ` set root \<inter> fst ` set secs = {} \<Longrightarrow>
     \<forall>(n, t) \<in> set secs. bare_key n \<and> plain_pairs t \<Longrightarrow> items_ok (concat (map section_items secs)) (root, path)"
proof (induction secs arbitrary: root path)
  case (Cons s secs)
  obtain n t where s: "s = (n, t)" by (cases s)
  have "fst ` set (root @ [(n, TTable t)]) \<inter> fst ` set secs = {}" "distinct (map fst secs)" "n \<notin> fst ` set root" "bare_key n" "plain_pairs t"
    "\<forall>(n, t) \<in> set secs. bare_key n \<and> plain_pairs t"
    using Cons.prems s by auto
  then show ?case using Cons.IH s by (simp add: section_ok)
qed simp

subsection \<open>Texts that are not TOML\<close>

text \<open>The key that runs to the end of the line.\<close>

lemma parse_key_all:
  assumes "bare_key k" and "\<forall>c \<in> set k. \<not> stop c"
  shows "parse_key stop ln k = Inr (k, [])"
proof -
  obtain c r where k: "k = c # r" "\<not> is_blank c" "c \<noteq> dquote" using assms(1) by (rule bare_key_head)
  have "takeWhile (\<lambda>c. \<not> stop c) k = k" "dropWhile (\<lambda>c. \<not> stop c) k = []" using assms(2) by (simp_all add: takeWhile_all dropWhile_all)
  with k parse_bare_key_plain [OF assms(1), of "[]" ln "[]"] show ?thesis by (simp add: parse_key_def consume_plain)
qed

lemma one_line: "linefeed \<notin> set l \<Longrightarrow> l \<noteq> [] \<Longrightarrow> lines_of p l = [p @ l]"
  by (induction l arbitrary: p) (auto, metis append.assoc append_Cons append_Nil lines_of.simps(1) append_is_Nil_conv list.distinct(1))

lemma parse_one_line:
  assumes "linefeed \<notin> set l" and "l \<noteq> []"
  obtains n where "parse stod l = parse_lines stod (Suc (Suc (Suc n))) [] [] 0 [l]"
proof -
  have "3 * length l + 10 = Suc (Suc (Suc (3 * length l + 7)))" by simp
  then have "parse stod l = parse_lines stod (Suc (Suc (Suc (3 * length l + 7)))) [] [] 0 [l]"
    unfolding parse_def using one_line [OF assms, of "[]"] by (simp only: append_Nil)
  then show thesis by (rule that)
qed

text \<open>
  C30: The parser does not look for the end of the line everywhere: a key with its equals sign and no value, and a table header with no
  closing bracket, make it read and move past the end.
\<close>

theorem unfinished_line_overruns:
  fixes stod :: "string \<Rightarrow> 'd option"
  assumes "bare_key k"
  shows "parse stod (k @ ''='') = Some (Inl OutOfBounds) \<and> parse stod (''['' @ k) = Some (Inl OutOfBounds)"
proof
  obtain c q where k: "k = c # q" "\<not> is_blank c" "c \<noteq> CHR ''#''" "c \<noteq> CHR ''[''" "c \<noteq> CHR '']''" "linefeed \<notin> set k"
    using assms bare_key_head [OF assms] by (metis bare_key_def plain_key_char_def)
  have "parse_key (\<lambda>c. c = CHR ''='') 1 (k @ ''='') = Inr (k, ''='')"
    using parse_key_equals [OF assms, of "[]" 1 "[]"] by simp
  then have v: "run stod (Suc (Suc n)) (Key_value ([] :: 'd table)) \<lparr>cur = k @ ''='', input_lines = [], line_number = 1\<rparr> = Some (Inl OutOfBounds)" for n
    by (simp add: job_step_def parse_key_value_def on_line_def contains_def consume_whitespace_def parse_value_def determine_value_type_def)
  have h: "consume_whitespace (k @ ''='') = k @ ''=''" using k by (simp add: consume_plain)
  obtain n where "parse stod (k @ ''='') = parse_lines stod (Suc (Suc (Suc n))) [] [] 0 [k @ ''='']"
    by (rule parse_one_line [of "k @ ''=''" stod]) (use k(6) in simp_all)
  also have "\<dots> = Some (Inl OutOfBounds)"
    using k h v by (subst parse_lines.simps(2)) (simp add: Let_def del: run.simps parse_lines.simps)
  finally show "parse stod (k @ ''='') = Some (Inl OutOfBounds)" .
  have "parse_key header_stop 1 k = Inr (k, [])"
    using assms by (intro parse_key_all) (auto simp: bare_key_def plain_key_char_def)
  then have "single_table_loop 1 ([] :: 'd table) [] [] False k = Inr ([(k, TTable [])], [k], k, True, [])"
    using k by (subst single_table_loop.simps)
      (simp add: table_part_def contains_def insert_key_def full_name_def skip_dot_def consume_whitespace_def single_table_loop.simps [of _ _ _ _ _ "[]"])
  then have t: "parse_table 1 ([] :: 'd table) (''['' @ k) = Inl OutOfBounds"
    using k by (simp add: parse_table_def parse_single_table_def)
  obtain m where "parse stod (''['' @ k) = parse_lines stod (Suc (Suc (Suc m))) [] [] 0 [''['' @ k]"
    by (rule parse_one_line [of "''['' @ k" stod]) (use k(6) in simp_all)
  also have "\<dots> = Some (Inl OutOfBounds)"
    using t by (subst parse_lines.simps(2)) (simp add: Let_def consume_whitespace_def is_blank_def del: parse_lines.simps)
  finally show "parse stod (''['' @ k) = Some (Inl OutOfBounds)" .
qed

theorem unfinished_line_overruns_witness:
  "parse (\<lambda>_. None :: nat option) ''port='' = Some (Inl OutOfBounds) \<and> parse (\<lambda>_. None :: nat option) ''[Host'' = Some (Inl OutOfBounds)"
  using unfinished_line_overruns [of "''port''" "\<lambda>_. None :: nat option"] unfinished_line_overruns [of "''Host''" "\<lambda>_. None :: nat option"]
  by (simp add: bare_key_def plain_key_char_def is_blank_def)

lemma parse_one_line_deep:
  assumes "linefeed \<notin> set l" and "l \<noteq> []"
  obtains n where "parse stod l = parse_lines stod (Suc (Suc (Suc (Suc (Suc (Suc (Suc n))))))) [] [] 0 [l]"
proof -
  have "3 * length l + 10 = Suc (Suc (Suc (Suc (Suc (Suc (Suc (3 * length l + 3)))))))" by simp
  then have "parse stod l = parse_lines stod (Suc (Suc (Suc (Suc (Suc (Suc (Suc (3 * length l + 3)))))))) [] [] 0 [l]"
    unfolding parse_def using one_line [OF assms, of "[]"] by (simp only: append_Nil)
  then show thesis by (rule that)
qed

lemmas parse_simps = Let_def on_line_def parse_key_def parse_bare_key_def job_step_def parse_key_value_def parse_value_def
  determine_value_type_def determine_number_type_def parse_array_def value_array_def parse_number_def parse_int_def eat_sign_def
  eat_numbers_def is_exponent_def stoll_def digits_value_def skip_one_def skip_whitespace_and_comments_def first_value_length_def
  consume_whitespace_def is_blank_def eol_or_comment_def contains_def insert_key_def is_date_def date_char_def matches_date_def
  is_number_def is_digit_def uchar_def LONG_MIN_def LONG_MAX_def throw_def

text \<open>
  Arrays: the code takes whatever follows the last value for the closing bracket, and cannot read an array of booleans.
\<close>

theorem array_departures:
  "parse stod ''a=[1 x'' = Some (Inr [(''a'', TArray [TInt 1])]) \<and>
   parse stod ''a=[true]'' = Some (Inl (ParseException ''Unable to parse array at line 1''))"
proof
  obtain n where "parse stod ''a=[1 x'' = parse_lines stod (Suc (Suc (Suc (Suc (Suc (Suc (Suc n))))))) [] [] 0 [''a=[1 x'']"
    by (rule parse_one_line_deep [of "''a=[1 x''" stod]) simp_all
  then show "parse stod ''a=[1 x'' = Some (Inr [(''a'', TArray [TInt 1])])" by (simp add: parse_simps)
  obtain n where "parse stod ''a=[true]'' = parse_lines stod (Suc (Suc (Suc (Suc (Suc (Suc (Suc n))))))) [] [] 0 [''a=[true]'']"
    by (rule parse_one_line_deep [of "''a=[true]''" stod]) simp_all
  then show "parse stod ''a=[true]'' = Some (Inl (ParseException ''Unable to parse array at line 1''))"
    by (simp add: parse_simps show_nat.simps digit_chars)
qed

text \<open>A string in three quotes loses the end of its first line, where text follows the quotes.\<close>

theorem first_line_end_lost:
  "parse stod (''a='' @ [dquote, dquote, dquote] @ ''x'' @ [linefeed] @ ''y'' @ [dquote, dquote, dquote]) =
    Some (Inr [(''a'', TString ''xy'')])"
proof -
  let ?ls = "[''a='' @ [dquote, dquote, dquote] @ ''x'', ''y'' @ [dquote, dquote, dquote]]"
  have "parse_lines stod (Suc (Suc (Suc (Suc n)))) [] [] 0 ?ls = Some (Inr [(''a'', TString ''xy'')])" for n
    by (simp add: parse_simps parse_string_def parse_multiline_string_def handle_line_def numeral_3_eq_3)
  from this [of 39] show ?thesis by (simp add: parse_def del: parse_lines.simps)
qed

end
