(* ===== verification/Toml_Sections.thy ===== *)
theory Toml_Sections
  imports Toml_Text
begin

section \<open>What a document gives for a key\<close>

text \<open>
  A program asks a parsed document for the value of a key in a section, and for the tables under a header in double brackets. Read from
  the lines of the document: the pairs that follow the header (\<open>section_pairs\<close>), and one list of pairs for each double-bracketed
  header (\<open>elements\<close>). The lemmas show that the tree the parser builds answers the two questions in the same way, whatever other sections, keys and
  headers the document has and in whatever order, as long as the names asked for are not used for tables.
\<close>

subsection \<open>The lines\<close>

fun after :: "'d item list \<Rightarrow> (string \<times> 'd toml) list" where
  "after (Setting k v # items) = (k, v) # after items"
| "after items = []"

fun section_pairs :: "string list \<Rightarrow> 'd item list \<Rightarrow> (string \<times> 'd toml) list" where
  "section_pairs p [] = []"
| "section_pairs p (Header q # items) = (if q = p then after items else []) @ section_pairs p items"
| "section_pairs p (Element q # items) = section_pairs p items"
| "section_pairs p (Setting k v # items) = section_pairs p items"

fun elements :: "string list \<Rightarrow> 'd item list \<Rightarrow> 'd table list" where
  "elements p [] = []"
| "elements p (Header q # items) = elements p items"
| "elements p (Element q # items) = (if q = p then [after items] else []) @ elements p items"
| "elements p (Setting k v # items) = elements p items"

text \<open>No table has the name of the key, and the section is no table array.\<close>

definition unshadowed :: "'d item list \<Rightarrow> string \<Rightarrow> string \<Rightarrow> bool" where
  "unshadowed items n k \<longleftrightarrow> Element [n] \<notin> set items \<and> Header [n, k] \<notin> set items \<and> Element [n, k] \<notin> set items"

text \<open>The table array has no tables below it, and its name is neither a key nor a table.\<close>

fun flat_item :: "string \<Rightarrow> string \<Rightarrow> 'd item \<Rightarrow> bool" where
  "flat_item h c (Header q) = (take 2 q \<noteq> [h, c])"
| "flat_item h c (Element q) = (q \<noteq> [h] \<and> (take 2 q = [h, c] \<longrightarrow> q = [h, c]))"
| "flat_item h c (Setting k v) = True"

definition flat_elements :: "'d item list \<Rightarrow> string \<Rightarrow> string \<Rightarrow> bool" where
  "flat_elements items h c \<longleftrightarrow> list_all (flat_item h c) items \<and> c \<notin> set (map fst (section_pairs [h] items))"

subsection \<open>One step\<close>

lemma map_of_last: "map_of (t @ [(k, v)]) x = (case map_of t x of Some y \<Rightarrow> Some y | None \<Rightarrow> if x = k then Some v else None)"
  by (auto simp: map_of_append map_add_def split: option.splits)

lemma map_of_insert_key: "map_of (insert_key t k v) x = (if x = k then Some v else map_of t x)"
  by (simp add: insert_key_def AList.update_conv')

lemma lookup_two: "path_lookup t [n, k] = (case map_of t n of Some (TTable u) \<Rightarrow> map_of u k | _ \<Rightarrow> None)"
  by (auto split: option.splits toml.splits)

declare path_lookup.simps(3) [simp del] map_of_append [simp del]

definition is_element_list :: "'d table \<Rightarrow> string \<Rightarrow> bool" where
  "is_element_list t n \<longleftrightarrow> (\<exists>us. map_of t n = Some (TTableArray us))"

lemma element_list_update:
  "p \<noteq> [] \<Longrightarrow> is_element_list (update_at p f root) n \<longleftrightarrow> is_element_list root n"
  by (cases p) (auto simp: is_element_list_def map_of_insert_key split: option.splits toml.splits)

text \<open>An update in another table, or in a table below another key.\<close>

lemma update_elsewhere:
  assumes "p \<noteq> []" and "p \<noteq> [n]" and "take 2 p \<noteq> [n, k]"
  shows "path_lookup (update_at p f root) [n, k] = path_lookup root [n, k]"
proof -
  obtain m q where p: "p = m # q" using assms(1) by (cases p) auto
  show ?thesis
  proof (cases "m = n")
    case True
    then obtain j js where q: "q = j # js" "j \<noteq> k" using assms(2,3) p by (cases q) auto
    then have "map_of (update_at q f u) k = map_of u k" for u
      by (auto simp: map_of_insert_key split: option.splits toml.splits)
    then show ?thesis using True p by (auto simp: lookup_two map_of_insert_key split: option.splits toml.splits)
  qed (auto simp: p lookup_two map_of_insert_key split: option.splits toml.splits)
qed

text \<open>An update of the section itself.\<close>

lemma update_section:
  assumes "table_at [n] root = Some t"
  shows "path_lookup (update_at [n] f root) [n, k] = (if is_element_list root n then None else map_of (f t) k)"
    and "path_lookup root [n, k] = (if is_element_list root n then None else map_of t k)"
  using assms by (auto simp: lookup_two map_of_insert_key is_element_list_def split: option.splits toml.splits if_splits)

lemma nested_table:
  assumes "table_at p root = Some t" and "take 2 p = [n, k]" and "\<not> is_element_list root n"
  obtains b where "path_lookup root [n, k] = Some b" "is_table b \<or> is_table_array b"
proof -
  obtain q where "p = n # k # q" using assms(2) by (cases p; cases "tl p") auto
  with assms(1,3) show thesis
    by (auto simp: lookup_two is_element_list_def intro: that split: option.splits toml.splits if_splits)
qed

lemma scalar_no_table: "scalar b \<Longrightarrow> \<not> is_table b \<and> \<not> is_table_array b"
  by (cases b) simp_all

lemma butlast_last: "ps \<noteq> [] \<Longrightarrow> butlast ps = [n] \<Longrightarrow> ps = [n, last ps]"
  by (metis append_butlast_last_id append_Cons append_Nil)

lemma take_butlast: "take 2 (butlast ps) = [n, k] \<Longrightarrow> take 2 ps = [n, k] \<and> ps \<noteq> [n, k]"
  by (cases ps; cases "tl ps"; cases "tl (tl ps)") (auto split: if_splits)

lemma header_step:
  assumes "item_ok (Header ps) (root, path)" and "ps \<noteq> [n, k]" and "take 2 (butlast ps) \<noteq> [n, k]"
  shows "path_lookup (fst (apply_item (Header ps) (root, path))) [n, k] = path_lookup root [n, k]"
    and "is_element_list (fst (apply_item (Header ps) (root, path))) n = is_element_list root n"
proof -
  obtain t where t: "ps \<noteq> []" "table_at (butlast ps) root = Some t" "last ps \<notin> fst ` set t"
    using assms(1) by (auto split: option.splits)
  then have fresh: "map_of t (last ps) = None" by (simp add: map_of_eq_None_iff)
  show "path_lookup (fst (apply_item (Header ps) (root, path))) [n, k] = path_lookup root [n, k]"
  proof (cases "butlast ps = [n]")
    case True
    with t(1) assms(2) have "last ps \<noteq> k" using butlast_last [of ps n] by auto
    then show ?thesis
      using update_section [OF t(2) [unfolded True]] True by (simp add: map_of_last split: option.splits)
  next
    case False
    show ?thesis
    proof (cases "butlast ps = []")
      case True
      with t fresh show ?thesis by (auto simp: lookup_two map_of_last split: option.splits)
    next
      case False
      then show ?thesis using update_elsewhere [OF False \<open>butlast ps \<noteq> [n]\<close> assms(3)] by simp
    qed
  qed
  show "is_element_list (fst (apply_item (Header ps) (root, path))) n = is_element_list root n"
  proof (cases "butlast ps = []")
    case True
    with t fresh show ?thesis by (auto simp: is_element_list_def map_of_last split: option.splits)
  qed (simp add: element_list_update)
qed

lemma element_step:
  assumes "item_ok (Element ps) (root, path)" and "ps \<noteq> [n, k]" and "ps \<noteq> [n]" and "take 2 (butlast ps) \<noteq> [n, k]"
  shows "path_lookup (fst (apply_item (Element ps) (root, path))) [n, k] = path_lookup root [n, k]"
    and "is_element_list (fst (apply_item (Element ps) (root, path))) n = is_element_list root n"
proof -
  obtain t where t: "ps \<noteq> []" "table_at (butlast ps) root = Some t" using assms(1) by (auto split: option.splits)
  have top: "last ps \<noteq> n" if "butlast ps = []" using that t(1) assms(3) by (cases ps) (auto split: if_splits)
  show "path_lookup (fst (apply_item (Element ps) (root, path))) [n, k] = path_lookup root [n, k]"
  proof (cases "butlast ps = [n]")
    case True
    with t(1) assms(2) have "last ps \<noteq> k" using butlast_last [of ps n] by auto
    then show ?thesis
      using update_section [OF t(2) [unfolded True]] True by (simp add: add_element_def map_of_insert_key)
  next
    case False
    show ?thesis
    proof (cases "butlast ps = []")
      case True
      with top show ?thesis by (simp add: lookup_two add_element_def map_of_insert_key)
    next
      case False
      then show ?thesis using update_elsewhere [OF False \<open>butlast ps \<noteq> [n]\<close> assms(4)] by simp
    qed
  qed
  show "is_element_list (fst (apply_item (Element ps) (root, path))) n = is_element_list root n"
  proof (cases "butlast ps = []")
    case True
    with top show ?thesis by (simp add: is_element_list_def add_element_def map_of_insert_key)
  qed (simp add: element_list_update)
qed

lemma setting_step:
  assumes "item_ok (Setting j v) (root, path)" and "take 2 path \<noteq> [n, k]" and "\<not> is_element_list root n"
  shows "path_lookup (fst (apply_item (Setting j v) (root, path))) [n, k] =
      (case path_lookup root [n, k] of Some x \<Rightarrow> Some x | None \<Rightarrow> if path = [n] \<and> k = j then Some v else None)"
    and "\<not> is_element_list (fst (apply_item (Setting j v) (root, path))) n"
proof -
  obtain t where t: "scalar v" "table_at path root = Some t" "j \<notin> fst ` set t"
    using assms(1) by (auto split: option.splits)
  then have fresh: "map_of t j = None" by (simp add: map_of_eq_None_iff)
  have v: "\<not> is_table v" "\<not> is_table_array v" using scalar_no_table [OF t(1)] by simp_all
  show "path_lookup (fst (apply_item (Setting j v) (root, path))) [n, k] =
      (case path_lookup root [n, k] of Some x \<Rightarrow> Some x | None \<Rightarrow> if path = [n] \<and> k = j then Some v else None)"
  proof (cases "path = [n]")
    case True
    then show ?thesis using update_section [OF t(2) [unfolded True]] assms(3) by (simp add: map_of_last)
  next
    case False
    show ?thesis
    proof (cases "path = []")
      case True
      with t fresh v show ?thesis by (cases v) (auto simp: lookup_two map_of_last split: option.splits toml.splits)
    next
      case False
      then show ?thesis
        using update_elsewhere [OF False \<open>path \<noteq> [n]\<close> assms(2), of "\<lambda>t. t @ [(j, v)]" root] \<open>path \<noteq> [n]\<close> by (simp split: option.split)
    qed
  qed
  show "\<not> is_element_list (fst (apply_item (Setting j v) (root, path))) n"
  proof (cases "path = []")
    case True
    with t fresh v assms(3) show ?thesis by (cases v) (auto simp: is_element_list_def map_of_last split: option.splits)
  qed (use assms(3) in \<open>simp add: element_list_update\<close>)
qed

subsection \<open>The value of a key\<close>

definition plain_value :: "'d toml option \<Rightarrow> bool" where
  "plain_value v \<longleftrightarrow> (\<forall>b. v = Some b \<longrightarrow> scalar b)"

lemma plain_not_nested:
  assumes "plain_value (path_lookup root [n, k])" and "table_at p root = Some t" and "\<not> is_element_list root n"
  shows "take 2 p \<noteq> [n, k]"
proof
  assume "take 2 p = [n, k]"
  with assms(2) obtain b where "path_lookup root [n, k] = Some b" "is_table b \<or> is_table_array b" by (rule nested_table [OF _ _ assms(3)])
  with assms(1) show False by (auto simp: plain_value_def dest: scalar_no_table)
qed

lemma section_lookup:
  assumes "items_ok items (root, path)" and "unshadowed items n k" and "\<not> is_element_list root n" and "plain_value (path_lookup root [n, k])"
  shows "path_lookup (fst (fold apply_item items (root, path))) [n, k] =
    (case path_lookup root [n, k] of Some v \<Rightarrow> Some v
     | None \<Rightarrow> map_of ((if path = [n] then after items else []) @ section_pairs [n] items) k)"
  using assms
proof (induction items arbitrary: root path)
  case (Cons i items)
  obtain root' path' where s: "apply_item i (root, path) = (root', path')" by (cases "apply_item i (root, path)")
  then have s': "fst (apply_item i (root, path)) = root'" by simp
  have ok: "item_ok i (root, path)" "items_ok items (root', path')" using Cons.prems(1) s by simp_all
  have un: "unshadowed items n k" using Cons.prems(2) by (simp add: unshadowed_def)
  note IH = Cons.IH [OF ok(2) un]
  show ?case
  proof (cases i)
    case (Header ps)
    then obtain t where "table_at (butlast ps) root = Some t" using ok(1) by (auto split: option.splits)
    then have deep: "take 2 (butlast ps) \<noteq> [n, k]" using plain_not_nested [OF Cons.prems(4) _ Cons.prems(3)] by blast
    have "ps \<noteq> [n, k]" using Cons.prems(2) Header by (auto simp: unshadowed_def)
    from header_step [OF ok(1) [unfolded Header] this deep]
    have "path_lookup root' [n, k] = path_lookup root [n, k]" "is_element_list root' n = is_element_list root n"
      unfolding Header [symmetric] s' .
    moreover have "path' = ps" using s Header by simp
    ultimately show ?thesis unfolding Header
      using IH Cons.prems(3,4) s Header by (simp split: option.split del: apply_item.simps)
  next
    case (Element ps)
    then obtain t where "table_at (butlast ps) root = Some t" using ok(1) by (auto split: option.splits)
    then have deep: "take 2 (butlast ps) \<noteq> [n, k]" using plain_not_nested [OF Cons.prems(4) _ Cons.prems(3)] by blast
    have ps: "ps \<noteq> [n, k]" "ps \<noteq> [n]" using Cons.prems(2) Element by (auto simp: unshadowed_def)
    from element_step [OF ok(1) [unfolded Element] ps deep]
    have "path_lookup root' [n, k] = path_lookup root [n, k]" "is_element_list root' n = is_element_list root n"
      unfolding Element [symmetric] s' .
    moreover have "path' = ps" using s Element by simp
    ultimately show ?thesis unfolding Element
      using IH Cons.prems(3,4) s Element ps by (simp split: option.split del: apply_item.simps)
  next
    case (Setting j v)
    then obtain t where t: "table_at path root = Some t" "scalar v" using ok(1) by (auto split: option.splits)
    have deep: "take 2 path \<noteq> [n, k]" using plain_not_nested [OF Cons.prems(4) t(1) Cons.prems(3)] .
    from setting_step [OF ok(1) [unfolded Setting] deep Cons.prems(3)]
    have l: "path_lookup root' [n, k] = (case path_lookup root [n, k] of Some x \<Rightarrow> Some x | None \<Rightarrow> if path = [n] \<and> k = j then Some v else None)"
      "\<not> is_element_list root' n" unfolding Setting [symmetric] s' .
    moreover have "path' = path" using s Setting by simp
    moreover have "plain_value (path_lookup root' [n, k])"
      using l(1) Cons.prems(4) t(2) by (auto simp: plain_value_def split: option.splits if_splits)
    ultimately show ?thesis unfolding Setting
      using IH s Setting by (auto split: option.splits simp del: apply_item.simps)
  qed
qed (simp add: split: option.split)

lemma document_value:
  assumes "items_ok items ([], [])" and "unshadowed items n k"
  shows "path_lookup (fst (fold apply_item items ([], []))) [n, k] = map_of (section_pairs [n] items) k"
  using section_lookup [OF assms] by (simp add: is_element_list_def plain_value_def lookup_two)

subsection \<open>The elements of a table array\<close>

definition elements_so_far :: "'d table list \<Rightarrow> 'd toml option" where
  "elements_so_far us = (if us = [] then None else Some (TTableArray us))"

definition extend :: "'d table list \<Rightarrow> 'd table \<Rightarrow> 'd table list" where
  "extend us kvs = (if kvs = [] then us else butlast us @ [last us @ kvs])"

lemma extend_extend: "us \<noteq> [] \<Longrightarrow> extend (extend us [kv]) kvs = extend us (kv # kvs)"
  by (simp add: extend_def)

lemma element_added:
  assumes "item_ok (Element [h, c]) (root, path)" and "\<not> is_element_list root h" and "path_lookup root [h, c] = elements_so_far us"
  shows "path_lookup (fst (apply_item (Element [h, c]) (root, path))) [h, c] = elements_so_far (us @ [[]])"
    and "\<not> is_element_list (fst (apply_item (Element [h, c]) (root, path))) h"
proof -
  obtain t where t: "table_at [h] root = Some t" using assms(1) by (auto split: option.splits)
  from update_section [OF t] assms(2,3)
  show "path_lookup (fst (apply_item (Element [h, c]) (root, path))) [h, c] = elements_so_far (us @ [[]])"
    by (simp add: add_element_def map_of_insert_key elements_so_far_def)
  show "\<not> is_element_list (fst (apply_item (Element [h, c]) (root, path))) h"
    using assms(2) by (simp add: element_list_update del: update_at.simps)
qed

lemma element_grows:
  assumes "\<not> is_element_list root h" and "path_lookup root [h, c] = elements_so_far us" and "us \<noteq> []"
  shows "path_lookup (update_at [h, c] (\<lambda>t. t @ [kv]) root) [h, c] = elements_so_far (extend us [kv])"
proof -
  obtain u where "map_of root h = Some (TTable u)" "map_of u c = Some (TTableArray us)"
    using assms by (auto simp: lookup_two elements_so_far_def split: option.splits toml.splits)
  then show ?thesis by (simp add: lookup_two map_of_insert_key elements_so_far_def extend_def)
qed

lemma elements_lookup:
  assumes "items_ok items (root, path)" and "list_all (flat_item h c) items"
    and "c \<notin> set (map fst ((if path = [h] then after items else []) @ section_pairs [h] items))"
    and "\<not> is_element_list root h" and "path_lookup root [h, c] = elements_so_far us"
    and "take 2 path = [h, c] \<Longrightarrow> path = [h, c] \<and> us \<noteq> []"
  shows "path_lookup (fst (fold apply_item items (root, path))) [h, c] =
    elements_so_far (extend us (if path = [h, c] then after items else []) @ elements [h, c] items)"
  using assms
proof (induction items arbitrary: root path us)
  case (Cons i items)
  obtain root' path' where s: "apply_item i (root, path) = (root', path')" by (cases "apply_item i (root, path)")
  then have s': "fst (apply_item i (root, path)) = root'" by simp
  have ok: "item_ok i (root, path)" "items_ok items (root', path')" using Cons.prems(1) s by simp_all
  have fl: "flat_item h c i" "list_all (flat_item h c) items" using Cons.prems(2) by simp_all
  note IH = Cons.IH [OF ok(2) fl(2)]
  show ?case
  proof (cases i)
    case (Header ps)
    have ps: "take 2 ps \<noteq> [h, c]" "ps \<noteq> [h, c]" "take 2 (butlast ps) \<noteq> [h, c]"
      using fl(1) Header take_butlast [of ps h c] by auto
    have l: "path_lookup root' [h, c] = elements_so_far us" "\<not> is_element_list root' h"
      using header_step [OF ok(1) [unfolded Header] ps(2,3)] Cons.prems(4,5) unfolding Header [symmetric] s' by simp_all
    have path: "path' = ps" using s Header by simp
    have "c \<notin> set (map fst ((if path' = [h] then after items else []) @ section_pairs [h] items))"
      using Cons.prems(3) Header path by (auto split: if_splits)
    from IH [OF this l(2,1)] show ?thesis unfolding Header
      using s Header path ps by (simp add: extend_def del: apply_item.simps)
  next
    case (Element ps)
    have c: "c \<notin> set (map fst ((if ps = [h] then after items else []) @ section_pairs [h] items))"
      using Cons.prems(3) Element fl(1) by (auto split: if_splits)
    show ?thesis
    proof (cases "ps = [h, c]")
      case True
      from element_added [OF ok(1) [unfolded Element True] Cons.prems(4,5)]
      have l: "path_lookup root' [h, c] = elements_so_far (us @ [[]])" "\<not> is_element_list root' h"
        unfolding True [symmetric] Element [symmetric] s' .
      have path: "path' = [h, c]" using s Element True by simp
      from IH [OF _ l(2,1)] c show ?thesis unfolding Element
      using s Element True path by (auto simp: extend_def simp del: apply_item.simps)
    next
      case False
      then have ps: "take 2 ps \<noteq> [h, c]" "ps \<noteq> [h, c]" "ps \<noteq> [h]" "take 2 (butlast ps) \<noteq> [h, c]"
        using fl(1) Element take_butlast [of ps h c] by auto
      have l: "path_lookup root' [h, c] = elements_so_far us" "\<not> is_element_list root' h"
        using element_step [OF ok(1) [unfolded Element] ps(2,3,4)] Cons.prems(4,5) unfolding Element [symmetric] s' by simp_all
      have path: "path' = ps" using s Element by simp
      from IH [OF _ l(2,1)] c show ?thesis unfolding Element
      using s Element path ps by (simp add: extend_def del: apply_item.simps)
    qed
  next
    case (Setting j v)
    show ?thesis
    proof (cases "path = [h, c]")
      case True
      have us: "us \<noteq> []" using Cons.prems(6) True by simp
      have r: "root' = update_at [h, c] (\<lambda>t. t @ [(j, v)]) root" "path' = [h, c]"
        using s unfolding Setting True by (auto simp del: update_at.simps)
      have "\<not> is_element_list root' h" using Cons.prems(4) unfolding r(1) by (subst element_list_update) simp_all
      moreover have "path_lookup root' [h, c] = elements_so_far (extend us [(j, v)])"
        unfolding r(1) by (rule element_grows [OF Cons.prems(4,5) us])
      moreover have "extend us [(j, v)] \<noteq> []" by (simp add: extend_def)
      ultimately show ?thesis unfolding Setting
      using IH [of "extend us [(j, v)]"] Cons.prems(3) s Setting True r(2) us
        by (simp add: extend_extend del: apply_item.simps split: if_splits)
    next
      case False
      then have deep: "take 2 path \<noteq> [h, c]" using Cons.prems(6) by blast
      from setting_step [OF ok(1) [unfolded Setting] deep Cons.prems(4)]
      have l: "path_lookup root' [h, c] = (case path_lookup root [h, c] of Some x \<Rightarrow> Some x | None \<Rightarrow> if path = [h] \<and> c = j then Some v else None)"
        "\<not> is_element_list root' h" unfolding Setting [symmetric] s' .
      have path: "path' = path" using s Setting by simp
      have "path = [h] \<Longrightarrow> c \<noteq> j" using Cons.prems(3) unfolding Setting by simp
      then have "path_lookup root' [h, c] = elements_so_far us"
        using l(1) Cons.prems(5) by (auto split: option.splits if_splits)
      from IH [OF _ l(2) this] show ?thesis unfolding Setting
      using Cons.prems(3) s Setting path deep False by (auto simp: extend_def simp del: apply_item.simps split: if_splits)
    qed
  qed
qed (simp add: extend_def)

lemma document_elements:
  assumes "items_ok items ([], [])" and "flat_elements items h c"
  shows "path_lookup (fst (fold apply_item items ([], []))) [h, c] = elements_so_far (elements [h, c] items)"
  using elements_lookup [OF assms(1), of h c "[]"] assms(2)
  by (simp add: is_element_list_def lookup_two flat_elements_def elements_so_far_def extend_def)

declare map_of_append [simp] path_lookup.simps(3) [simp]

end
