(* ===== verification/Url.thy ===== *)
theory Url
  imports C_Runtime
begin

section \<open>The URL of a session (\<open>SubversionURL\<close>, \<open>SubversionUriCanonicalize\<close>)\<close>

text \<open>
  \<open>SubversionUriCanonicalize\<close> splits \<open>scheme://account@host/owner/repository/path\<close> by
  counting slashes. \<open>url_char\<close> is the body of its loop, \<open>url_loop\<close> the loop and
  \<open>SubversionUriCanonicalize\<close> the function: a return code and the structure it filled.
  \<open>domRefs\<close> is a reference to \<open>subversionURL.host\<close>, so an assignment to it is an
  assignment to that field.

  The properties: what a well-formed URL is split into, which inputs are refused, that no
  component of a result holds a slash it should not, and what becomes of a port.
\<close>

record SubversionURL =
  scheme :: string
  account :: string
  host :: string
  port :: u32
  owner :: string
  repository :: string
  path :: string

definition empty_url :: SubversionURL where
  "empty_url = \<lparr>scheme = [], account = [], host = [], port = 0, owner = [], repository = [], path = []\<rparr>"

text \<open>The variables of the loop: \<open>depth\<close>, \<open>str_port\<close> and the structure behind the reference.\<close>

record url_state =
  slashes :: int
  str_port :: string
  url :: SubversionURL

text \<open>\<open>None\<close> is \<open>return 2\<close> out of the loop.\<close>

definition url_char :: "url_state \<Rightarrow> char \<Rightarrow> url_state option" where
  "url_char s c =
     (if c = CHR ''/'' \<and> slashes s < 5 then Some (s\<lparr>slashes := slashes s + 1\<rparr>)
      else if slashes s = 0 then
        Some (if c \<noteq> CHR '':'' then s\<lparr>url := (url s)\<lparr>scheme := scheme (url s) @ [c]\<rparr>\<rparr> else s)
      else if slashes s = 1 then None
      else if slashes s = 2 then
        Some (if c = CHR ''@'' then
                s\<lparr>url := (url s)\<lparr>account := host (url s), host := account (url s)\<rparr>\<rparr>
              else if c = CHR '':'' then s\<lparr>url := (url s)\<lparr>host := str_port s\<rparr>\<rparr>
              else s\<lparr>url := (url s)\<lparr>host := host (url s) @ [c]\<rparr>\<rparr>)
      else if slashes s = 3 then Some (s\<lparr>url := (url s)\<lparr>owner := owner (url s) @ [c]\<rparr>\<rparr>)
      else if slashes s = 4 then Some (s\<lparr>url := (url s)\<lparr>repository := repository (url s) @ [c]\<rparr>\<rparr>)
      else Some (s\<lparr>url := (url s)\<lparr>path := path (url s) @ [c]\<rparr>\<rparr>))"

text \<open>The structure is filled in place, so a refused URL leaves it half filled.\<close>

fun url_loop :: "url_state \<Rightarrow> string \<Rightarrow> bool \<times> url_state" where
  "url_loop s [] = (True, s)"
| "url_loop s (c # cs) = (case url_char s c of None \<Rightarrow> (False, s) | Some s' \<Rightarrow> url_loop s' cs)"

definition url_port :: "string \<Rightarrow> string \<Rightarrow> u32" where
  "url_port sch p =
     (if p = [] then
        (if sch = ''svn'' then 3690 else if sch = ''svn+ssh'' then 21 else 3690)
      else word_of_int (strtol p))"

definition SubversionUriCanonicalize :: "string \<Rightarrow> SubversionURL \<Rightarrow> int \<times> SubversionURL" where
  "SubversionUriCanonicalize u su =
     (if u = [] then (1, su)
      else
        (case url_loop \<lparr>slashes = 0, str_port = [], url = su\<lparr>path := path su @ ''/''\<rparr>\<rparr> u of
           (False, s) \<Rightarrow> (2, url s)
         | (True, s) \<Rightarrow> (0, (url s)\<lparr>port := url_port (scheme (url s)) (str_port s)\<rparr>)))"

subsection \<open>Segments\<close>

lemma url_loop_append:
  "url_loop s (xs @ ys) = (case url_loop s xs of (True, s') \<Rightarrow> url_loop s' ys | (False, s') \<Rightarrow> (False, s'))"
  by (induction xs arbitrary: s) (auto split: option.splits)

lemma loop_slash [simp]:
  "slashes s < 5 \<Longrightarrow> url_loop s (CHR ''/'' # cs) = url_loop (s\<lparr>slashes := slashes s + 1\<rparr>) cs"
  by (simp add: url_char_def)

text \<open>What the characters between two slashes do, by the number of slashes before them.\<close>

lemma loop_scheme:
  assumes "slashes s = 0" "CHR ''/'' \<notin> set w"
  shows "url_loop s (w @ r) =
    url_loop (s\<lparr>url := (url s)\<lparr>scheme := scheme (url s) @ filter (\<lambda>c. c \<noteq> CHR '':'') w\<rparr>\<rparr>) r"
  using assms
proof (induction w arbitrary: s)
  case (Cons c w)
  then show ?case by (cases s) (auto simp: url_char_def)
qed simp

lemma loop_host:
  assumes "slashes s = 2" "\<forall>c \<in> set w. c \<noteq> CHR ''/'' \<and> c \<noteq> CHR ''@'' \<and> c \<noteq> CHR '':''"
  shows "url_loop s (w @ r) = url_loop (s\<lparr>url := (url s)\<lparr>host := host (url s) @ w\<rparr>\<rparr>) r"
  using assms
proof (induction w arbitrary: s)
  case (Cons c w)
  then show ?case by (cases s) (auto simp: url_char_def)
qed simp

lemma loop_owner:
  assumes "slashes s = 3" "CHR ''/'' \<notin> set w"
  shows "url_loop s (w @ r) = url_loop (s\<lparr>url := (url s)\<lparr>owner := owner (url s) @ w\<rparr>\<rparr>) r"
  using assms
proof (induction w arbitrary: s)
  case (Cons c w)
  then show ?case by (cases s) (auto simp: url_char_def)
qed simp

lemma loop_repository:
  assumes "slashes s = 4" "CHR ''/'' \<notin> set w"
  shows "url_loop s (w @ r) = url_loop (s\<lparr>url := (url s)\<lparr>repository := repository (url s) @ w\<rparr>\<rparr>) r"
  using assms
proof (induction w arbitrary: s)
  case (Cons c w)
  then show ?case by (cases s) (auto simp: url_char_def)
qed simp

lemma loop_path:
  assumes "slashes s = 5"
  shows "url_loop s w = (True, s\<lparr>url := (url s)\<lparr>path := path (url s) @ w\<rparr>\<rparr>)"
  using assms
proof (induction w arbitrary: s)
  case (Cons c w)
  then show ?case by (cases s) (auto simp: url_char_def)
qed simp

lemma loop_at [simp]:
  "slashes s = 2 \<Longrightarrow> url_loop s (CHR ''@'' # r) =
     url_loop (s\<lparr>url := (url s)\<lparr>account := host (url s), host := account (url s)\<rparr>\<rparr>) r"
  by (simp add: url_char_def)

lemma loop_colon [simp]:
  "slashes s = 2 \<Longrightarrow> url_loop s (CHR '':'' # r) = url_loop (s\<lparr>url := (url s)\<lparr>host := str_port s\<rparr>\<rparr>) r"
  by (simp add: url_char_def)

declare url_loop.simps(2) [simp del]

text \<open>No step writes \<open>str_port\<close>.\<close>

lemma url_char_str_port: "url_char s c = Some s' \<Longrightarrow> str_port s' = str_port s"
  by (auto simp: url_char_def split: if_splits)

lemma url_loop_str_port: "url_loop s cs = (b, s') \<Longrightarrow> str_port s' = str_port s"
  by (induction cs arbitrary: s)
    (auto simp: url_loop.simps split: option.splits dest: url_char_str_port)

text \<open>Where slashes can end up.\<close>

definition url_inv :: "url_state \<Rightarrow> bool" where
  "url_inv s \<longleftrightarrow>
     0 \<le> slashes s \<and> slashes s \<le> 5 \<and> CHR ''/'' \<notin> set (scheme (url s)) \<and> CHR '':'' \<notin> set (scheme (url s)) \<and>
     CHR ''/'' \<notin> set (account (url s)) \<and> CHR ''/'' \<notin> set (host (url s)) \<and> CHR ''/'' \<notin> set (str_port s) \<and>
     CHR ''/'' \<notin> set (owner (url s)) \<and> CHR ''/'' \<notin> set (repository (url s)) \<and>
     path (url s) \<noteq> [] \<and> hd (path (url s)) = CHR ''/''"

lemma url_char_inv: "url_inv s \<Longrightarrow> url_char s c = Some s' \<Longrightarrow> url_inv s'"
  by (auto simp: url_inv_def url_char_def split: if_splits)

lemma url_loop_inv: "url_inv s \<Longrightarrow> url_loop s cs = (b, s') \<Longrightarrow> url_inv s'"
  by (induction cs arbitrary: s)
    (auto simp: url_loop.simps split: option.splits dest: url_char_inv)

subsection \<open>Properties\<close>

lemma canonicalize_nonempty:
  assumes "u \<noteq> []"
  shows "SubversionUriCanonicalize u empty_url =
    (case url_loop \<lparr>slashes = 0, str_port = [], url = empty_url\<lparr>path := ''/''\<rparr>\<rparr> u of
       (False, s) \<Rightarrow> (2, url s)
     | (True, s) \<Rightarrow> (0, (url s)\<lparr>port := url_port (scheme (url s)) (str_port s)\<rparr>))"
  using assms by (simp add: SubversionUriCanonicalize_def empty_url_def)

text \<open>An authority name: no slash, at sign or colon. A segment: no slash.\<close>

definition url_name :: "string \<Rightarrow> bool" where
  "url_name w \<longleftrightarrow> (\<forall>c \<in> set w. c \<noteq> CHR ''/'' \<and> c \<noteq> CHR ''@'' \<and> c \<noteq> CHR '':'')"

definition url_text :: "string \<Rightarrow> string option \<Rightarrow> string \<Rightarrow> string \<Rightarrow> string \<Rightarrow> string \<Rightarrow> string" where
  "url_text sch acc h own repo rest =
     sch @ ''://'' @ (case acc of None \<Rightarrow> [] | Some a \<Rightarrow> a @ ''@'') @ h @ ''/'' @ own @ ''/'' @ repo @ ''/'' @ rest"

lemma filter_name: "url_name w \<Longrightarrow> filter (\<lambda>c. c \<noteq> CHR '':'') w = w"
  by (auto simp: url_name_def intro: filter_True)

lemma loop_authority:
  assumes "slashes s = 2" "url_name h" "\<And>a. acc = Some a \<Longrightarrow> url_name a" "account (url s) = []" "host (url s) = []"
  shows "url_loop s ((case acc of None \<Rightarrow> [] | Some a \<Rightarrow> a @ ''@'') @ h @ r) =
    url_loop (s\<lparr>url := (url s)\<lparr>account := (case acc of None \<Rightarrow> [] | Some a \<Rightarrow> a), host := h\<rparr>\<rparr>) r"
proof (cases acc)
  case None
  with assms show ?thesis by (cases s; cases "url s") (simp add: loop_host url_name_def)
next
  case (Some a)
  with assms(3) have a: "url_name a" by simp
  show ?thesis
    using Some a assms by (cases s; cases "url s") (simp add: loop_host url_name_def)
qed

lemma canonicalize_url_text:
  assumes "url_name sch" and "url_name h" and "\<forall>a. acc = Some a \<longrightarrow> url_name a"
    and "CHR ''/'' \<notin> set own" and "CHR ''/'' \<notin> set repo"
  shows "SubversionUriCanonicalize (url_text sch acc h own repo rest) empty_url =
    (0, \<lparr>scheme = sch, account = (case acc of None \<Rightarrow> [] | Some a \<Rightarrow> a), host = h,
         port = (if sch = ''svn+ssh'' then 21 else 3690),
         owner = own, repository = repo, path = CHR ''/'' # rest\<rparr>)"
proof -
  let ?s = "\<lparr>slashes = 0, str_port = [], url = empty_url\<lparr>path := ''/''\<rparr>\<rparr>"
  have "CHR ''/'' \<notin> set (sch @ '':'')" using assms(1) by (auto simp: url_name_def)
  from loop_scheme [of ?s, OF _ this]
  have "url_loop ?s (url_text sch acc h own repo rest) =
    url_loop (?s\<lparr>slashes := 2, url := (empty_url\<lparr>path := ''/'', scheme := sch\<rparr>)\<rparr>)
      ((case acc of None \<Rightarrow> [] | Some a \<Rightarrow> a @ ''@'') @ h @ ''/'' @ own @ ''/'' @ repo @ ''/'' @ rest)"
    using assms(1) by (simp add: url_text_def filter_name empty_url_def)
  also have "\<dots> = (True, \<lparr>slashes = 5, str_port = [],
      url = \<lparr>scheme = sch, account = (case acc of None \<Rightarrow> [] | Some a \<Rightarrow> a), host = h, port = 0,
        owner = own, repository = repo, path = CHR ''/'' # rest\<rparr>\<rparr>)"
    using assms
    by (subst loop_authority) (simp_all add: loop_owner loop_repository loop_path empty_url_def)
  finally show ?thesis
    by (subst canonicalize_nonempty) (simp_all add: url_text_def url_port_def)
qed

text \<open>
  C27: a well-formed URL is taken apart into what it was put together from: scheme,
  account, host, owner, repository and path, with the port its scheme implies.
\<close>

theorem url_roundtrip:
  assumes "url_name sch" and "url_name h" and "\<forall>a. acc = Some a \<longrightarrow> url_name a"
    and "CHR ''/'' \<notin> set own" and "CHR ''/'' \<notin> set repo"
  shows "SubversionUriCanonicalize (url_text sch acc h own repo rest) empty_url =
    (0, \<lparr>scheme = sch, account = (case acc of None \<Rightarrow> [] | Some a \<Rightarrow> a), host = h,
         port = (if sch = ''svn+ssh'' then 21 else 3690),
         owner = own, repository = repo, path = CHR ''/'' # rest\<rparr>)"
  using assms by (rule canonicalize_url_text)

theorem url_roundtrip_witness:
  "SubversionUriCanonicalize (url_text ''svn'' (Some ''joe'') ''git.oschina.net'' ''apache'' ''subversion'' ''trunk/src'') empty_url =
    (0, \<lparr>scheme = ''svn'', account = ''joe'', host = ''git.oschina.net'', port = 3690,
         owner = ''apache'', repository = ''subversion'', path = ''/trunk/src''\<rparr>)"
  using url_roundtrip [of "''svn''" "''git.oschina.net''" "Some ''joe''" "''apache''" "''subversion''" "''trunk/src''"]
  by (simp add: url_name_def)

lemma url_loop_late: "2 \<le> slashes s \<Longrightarrow> fst (url_loop s cs)"
proof (induction cs arbitrary: s)
  case (Cons c cs)
  then have "\<exists>s'. url_char s c = Some s' \<and> 2 \<le> slashes s'"
    by (auto simp: url_char_def)
  with Cons.IH show ?case by (auto simp: url_loop.simps)
qed simp

definition double_slash :: "string \<Rightarrow> bool" where
  "double_slash u \<longleftrightarrow> (case dropWhile (\<lambda>c. c \<noteq> CHR ''/'') u of _ # d # _ \<Rightarrow> d = CHR ''/'' | _ \<Rightarrow> True)"

lemma url_loop_code: "slashes s = 0 \<Longrightarrow> fst (url_loop s u) \<longleftrightarrow> double_slash u"
proof (induction u arbitrary: s)
  case (Cons c u)
  show ?case
  proof (cases "c = CHR ''/''")
    case True
    show ?thesis
    proof (cases u)
      case (Cons d v)
      then show ?thesis
        using True Cons.prems url_loop_late [of "s\<lparr>slashes := 2\<rparr>" v]
        by (simp add: double_slash_def url_loop.simps url_char_def)
    qed (use True Cons.prems in \<open>simp add: double_slash_def\<close>)
  next
    case False
    then have "\<exists>s'. url_char s c = Some s' \<and> slashes s' = 0"
      using Cons.prems by (auto simp: url_char_def)
    with Cons.IH False show ?thesis by (auto simp: double_slash_def url_loop.simps)
  qed
qed (simp add: double_slash_def)

text \<open>
  The return code is decided by the first slash. The empty URL gives 1, a URL whose
  first slash is followed by anything but a slash gives 2, every other URL gives 0.
\<close>

theorem url_codes:
  "fst (SubversionUriCanonicalize u su) = (if u = [] then 1 else if double_slash u then 0 else 2)"
  using url_loop_code [of "\<lparr>slashes = 0, str_port = [], url = su\<lparr>path := path su @ ''/''\<rparr>\<rparr>" u]
  by (cases "url_loop \<lparr>slashes = 0, str_port = [], url = su\<lparr>path := path su @ ''/''\<rparr>\<rparr> u")
    (auto simp: SubversionUriCanonicalize_def split: bool.splits)

text \<open>
  No slash leaks into a component. Whatever the URL, scheme, account, host, owner
  and repository of the result hold no slash, so an owner can never name a path, and the
  path starts with one.
\<close>

theorem url_components:
  assumes "SubversionUriCanonicalize u empty_url = (k, su)"
  shows "CHR ''/'' \<notin> set (scheme su @ account su @ host su @ owner su @ repository su) \<and>
    (k = 1 \<or> hd (path su) = CHR ''/'')"
proof (cases "u = []")
  case True
  with assms show ?thesis by (auto simp: SubversionUriCanonicalize_def empty_url_def)
next
  case False
  obtain b s where s: "url_loop \<lparr>slashes = 0, str_port = [], url = empty_url\<lparr>path := ''/''\<rparr>\<rparr> u = (b, s)"
    by fastforce
  have "url_inv s"
    by (rule url_loop_inv [OF _ s]) (simp add: url_inv_def empty_url_def)
  then show ?thesis
    using assms s by (auto simp: canonicalize_nonempty [OF False] url_inv_def split: bool.splits)
qed

theorem url_components_witness:
  "CHR ''/'' \<notin> set (''svn'' @ [] @ ''h'' @ ''o'' @ ''r'') \<and> ((0::int) = 1 \<or> hd ''/t/u'' = CHR ''/'')"
proof -
  have "SubversionUriCanonicalize ''svn://h/o/r/t/u'' empty_url =
    (0, \<lparr>scheme = ''svn'', account = [], host = ''h'', port = 3690, owner = ''o'', repository = ''r'', path = ''/t/u''\<rparr>)"
    by code_simp
  from url_components [OF this] show ?thesis by simp
qed

text \<open>
  The port of a URL is never read. The colon of \<open>host:port\<close> empties the host
  (\<open>domRefs = str_port\<close> assigns through the reference), the digits become the host, and
  the port is always the one the scheme implies.
\<close>

theorem url_port_becomes_host:
  assumes "url_name sch" and "url_name h" and "url_name p"
    and "CHR ''/'' \<notin> set own" and "CHR ''/'' \<notin> set repo"
  shows "SubversionUriCanonicalize (sch @ ''://'' @ h @ '':'' @ p @ ''/'' @ own @ ''/'' @ repo @ ''/'' @ rest) empty_url =
    (0, \<lparr>scheme = sch, account = [], host = p, port = (if sch = ''svn+ssh'' then 21 else 3690),
         owner = own, repository = repo, path = CHR ''/'' # rest\<rparr>)"
proof -
  let ?s = "\<lparr>slashes = 0, str_port = [], url = empty_url\<lparr>path := ''/''\<rparr>\<rparr>"
  have "CHR ''/'' \<notin> set (sch @ '':'')" using assms(1) by (auto simp: url_name_def)
  from loop_scheme [of ?s, OF _ this]
  have "url_loop ?s (sch @ ''://'' @ h @ '':'' @ p @ ''/'' @ own @ ''/'' @ repo @ ''/'' @ rest) =
    (True, \<lparr>slashes = 5, str_port = [],
      url = \<lparr>scheme = sch, account = [], host = p, port = 0,
        owner = own, repository = repo, path = CHR ''/'' # rest\<rparr>\<rparr>)"
    using assms
    by (simp add: filter_name empty_url_def loop_host url_name_def loop_owner loop_repository loop_path)
  then show ?thesis
    by (subst canonicalize_nonempty) (simp_all add: url_port_def)
qed

theorem url_port_becomes_host_witness:
  "SubversionUriCanonicalize (''svn'' @ ''://'' @ ''git.oschina.net'' @ '':'' @ ''1234'' @ ''/'' @ ''subversion'' @ ''/'' @ ''home'' @ ''/'' @ []) empty_url =
    (0, \<lparr>scheme = ''svn'', account = [], host = ''1234'', port = 3690,
         owner = ''subversion'', repository = ''home'', path = ''/''\<rparr>)"
  using url_port_becomes_host [of "''svn''" "''git.oschina.net''" "''1234''" "''subversion''" "''home''" "[]"]
  by (simp add: url_name_def)

end
