(* ===== verification/Router.thy ===== *)
theory Router
  imports Toml Url
begin

section \<open>Choosing the storage host (\<open>RouterSeletor.cc\<close>)\<close>

text \<open>
  The first two bytes of a repository's owner are its magic path. \<open>RangeToIndex\<close> turns
  the text of a range (\<open>A\<close>, \<open>Aa\<close>, \<open>B~D\<close>, \<open>aA~zz\<close>) into a pair of 16-bit indices,
  \<open>InitializeManager\<close> reads the table of ranges from \<open>router.toml\<close>, and \<open>GetAddress\<close>
  picks the first enabled range that holds the index of the owner, or the default host.
  The static object \<open>routerSeletor\<close> is passed explicitly; \<open>cpptoml::parse_file\<close> is an
  argument of \<open>InitializeManager\<close>.

  What the session needs of the router is the interface \<open>storage_directory\<close>, interpreted
  on \<open>GetAddress\<close>.
\<close>

subsection \<open>Data\<close>

record HostElement =
  begin_index :: u16
  end_index :: u16
  host_port :: u16
  enabled :: bool
  host_address :: string

record StorageElement =
  elem_port :: u16
  elem_address :: string

record RouterSeletor =
  hostElement :: "HostElement list"
  defaultElement :: string
  defaultPort :: u16

subsection \<open>\<open>RangeToIndex\<close>\<close>

definition byte :: "char \<Rightarrow> u8" where
  "byte c = word_of_int (uchar c)"

definition range_buffer :: "u8 list" where
  "range_buffer = map byte ''--zz'' @ [0, 0, 0, 0]"

text \<open>The loop over the characters; \<open>p\<close> is the index the write pointer points at.\<close>

fun range_scan :: "string \<Rightarrow> nat \<Rightarrow> nat \<Rightarrow> bool \<Rightarrow> u8 list \<Rightarrow> (nat \<times> bool \<times> u8 list) eff" where
  "range_scan [] i p isSplit buf = Inr (i, isSplit, buf)"
| "range_scan (c # cs) i p isSplit buf =
     (if c \<noteq> nul \<and> i < 5 then
        if c = CHR ''~'' then range_scan cs (i + 1) 2 True buf
        else if p < length buf then range_scan cs (i + 1) (p + 1) isSplit (buf[p := byte c])
        else Inl OutOfBounds
      else Inr (i, isSplit, buf))"

definition pair_index :: "u8 \<Rightarrow> u8 \<Rightarrow> u16" where
  "pair_index a b = word_of_int (uint a * 0x200 + uint b)"

definition RangeToIndex :: "string option \<Rightarrow> u16 \<Rightarrow> u16 \<Rightarrow> (bool \<times> u16 \<times> u16) eff" where
  "RangeToIndex rng l r =
     (case rng of
        None \<Rightarrow> Inr (False, l, r)
      | Some s \<Rightarrow>
          andThen (range_scan s 0 0 False range_buffer) (\<lambda>(i, isSplit, buf).
            let buf2 = (if \<not> isSplit then
                          if i = 1 then buf[2 := byte (s ! 0)]
                          else if i = 2 then buf[2 := byte (s ! 0), 3 := byte (s ! 1)]
                          else buf
                        else buf)
            in Inr (True, pair_index (buf2 ! 0) (buf2 ! 1), pair_index (buf2 ! 2) (buf2 ! 3))))"

subsection \<open>\<open>InitializeManager\<close>\<close>

text \<open>One iteration of the loop over \<open>Host.Content\<close>; \<open>None\<close> is \<open>continue\<close>.\<close>

definition host_entry :: "'d table \<Rightarrow> HostElement option eff" where
  "host_entry t =
     (if \<not> contains_qualified t ''range'' then Inr None
      else if \<not> contains_qualified t ''address'' then Inr None
      else
        andThen (andThen (get_qualified t ''range'') (\<lambda>b. deref (as_string b))) (\<lambda>rng.
        andThen (RangeToIndex (Some (c_str rng)) 0 0) (\<lambda>(_, l, r).
        andThen (andThen (get_qualified t ''address'') (\<lambda>b. deref (as_string b))) (\<lambda>addr.
        andThen (qualified_or as_int t ''port'' 3690) (\<lambda>prt.
        andThen (qualified_or as_bool t ''enable'' True) (\<lambda>en.
          Inr (Some \<lparr>begin_index = l, end_index = r, host_port = word_of_int prt, enabled = en,
                     host_address = addr\<rparr>)))))))"

fun host_entries :: "'d table list \<Rightarrow> HostElement list eff" where
  "host_entries [] = Inr []"
| "host_entries (t # ts) =
     andThen (host_entry t) (\<lambda>e.
     andThen (host_entries ts) (\<lambda>es.
       Inr (case e of None \<Rightarrow> es | Some x \<Rightarrow> x # es)))"

definition InitializeManager ::
    "(string \<Rightarrow> 'd table eff) \<Rightarrow> string \<Rightarrow> RouterSeletor \<Rightarrow> (bool \<times> RouterSeletor) eff" where
  "InitializeManager parse_file tableFile m =
     (case parse_file tableFile of
        Inl (ParseException e) \<Rightarrow> Inr (False, m)
      | Inl f \<Rightarrow> Inl f
      | Inr g \<Rightarrow>
          andThen (qualified_or as_string g ''Host.address'' ''192.168.1.12'') (\<lambda>addr.
          andThen (qualified_or as_int g ''Host.port'' 3690) (\<lambda>prt.
          andThen (get_table_array_qualified g ''Host.Content'') (\<lambda>ta.
            let m1 = m\<lparr>defaultElement := addr, defaultPort := word_of_int prt\<rparr>
            in case ta of
                 None \<Rightarrow> Inr (False, m1)
               | Some ts \<Rightarrow>
                   andThen (host_entries ts) (\<lambda>es.
                     let m2 = m1\<lparr>hostElement := hostElement m1 @ es\<rparr>
                     in Inr (\<not> (defaultElement m2 = [] \<and> hostElement m2 = []), m2))))))"

definition InitializeRouterSeletor ::
    "(string \<Rightarrow> 'd table eff) \<Rightarrow> string \<Rightarrow> RouterSeletor \<Rightarrow> (bool \<times> RouterSeletor) eff" where
  "InitializeRouterSeletor parse_file file m =
     (if file = [] then Inr (False, m) else InitializeManager parse_file (c_str file) m)"

subsection \<open>\<open>GetAddress\<close>\<close>

definition owner_index :: "string \<Rightarrow> u16" where
  "owner_index name =
     word_of_int (uint (word_of_int (schar (name ! 0)) :: u16) * 0x200 + schar (name ! 1))"

fun find_host :: "HostElement list \<Rightarrow> u16 \<Rightarrow> StorageElement option" where
  "find_host [] index = None"
| "find_host (e # es) index =
     (if begin_index e \<le> index \<and> index \<le> end_index e then
        if enabled e then Some \<lparr>elem_port = host_port e, elem_address = host_address e\<rparr>
        else find_host es index
      else find_host es index)"

definition GetAddress :: "RouterSeletor \<Rightarrow> string \<Rightarrow> StorageElement \<Rightarrow> bool \<times> StorageElement" where
  "GetAddress m name elem =
     (if length name < 2 then (False, elem)
      else
        case find_host (hostElement m) (owner_index name) of
          Some e \<Rightarrow> (True, e)
        | None \<Rightarrow> (True, \<lparr>elem_port = defaultPort m, elem_address = defaultElement m\<rparr>))"

definition GetStorageElement :: "RouterSeletor \<Rightarrow> SubversionURL \<Rightarrow> StorageElement \<Rightarrow> bool \<times> StorageElement" where
  "GetStorageElement m su elem = GetAddress m (owner su) elem"

subsection \<open>The interface of the router\<close>

text \<open>
  What a session relies on: an owner too short for a magic path is refused and the
  element left alone, every other owner is given a host that does not depend on what the
  element held.
\<close>

locale storage_directory =
  fixes find_storage :: "'r \<Rightarrow> string \<Rightarrow> StorageElement \<Rightarrow> bool \<times> StorageElement"
  assumes short_refused: "length o1 < 2 \<Longrightarrow> find_storage r o1 e = (False, e)"
    and long_found: "2 \<le> length o1 \<Longrightarrow> fst (find_storage r o1 e)"
    and found_fresh: "2 \<le> length o1 \<Longrightarrow> snd (find_storage r o1 e) = snd (find_storage r o1 e')"
begin

lemma found_iff: "fst (find_storage r o1 e) \<longleftrightarrow> 2 \<le> length o1"
  using short_refused [of o1 r e] long_found [of o1 r e] by (cases "length o1 < 2") auto

lemma refused_unchanged: "\<not> fst (find_storage r o1 e) \<Longrightarrow> snd (find_storage r o1 e) = e"
  using short_refused [of o1 r e] by (auto simp: found_iff)

end

interpretation router: storage_directory GetAddress
  by unfold_locales (auto simp: GetAddress_def split: option.splits)

subsection \<open>Indices\<close>

lemma uint_byte: "uint (byte c) = uchar c"
  using uchar_bounds [of c] by (simp add: byte_def uint_word_of_int)

lemma uint_pair_index:
  assumes "uint a < 128" "uint b < 128"
  shows "uint (pair_index a b) = uint a * 512 + uint b"
proof -
  have "0 \<le> uint a * 0x200 + uint b" "uint a * 0x200 + uint b < 2 ^ LENGTH(16)"
    using assms by simp_all
  then show ?thesis
    unfolding pair_index_def uint_word_of_int by (simp only: mod_pos_pos_trivial)
qed

text \<open>For ASCII bytes the index of a pair is its position in dictionary order.\<close>

definition ascii :: "char \<Rightarrow> bool" where
  "ascii c \<longleftrightarrow> uchar c < 128"

definition pair_le :: "char \<times> char \<Rightarrow> char \<times> char \<Rightarrow> bool" where
  "pair_le a b \<longleftrightarrow> uchar (fst a) < uchar (fst b) \<or> (fst a = fst b \<and> uchar (snd a) \<le> uchar (snd b))"

lemma uint_index_ascii:
  assumes "ascii a" "ascii b"
  shows "uint (pair_index (byte a) (byte b)) = uchar a * 512 + uchar b"
  using assms uint_pair_index [of "byte a" "byte b"] by (simp add: uint_byte ascii_def)

lemma index_le_iff:
  assumes "ascii a" "ascii b" "ascii c" "ascii d"
  shows "pair_index (byte a) (byte b) \<le> pair_index (byte c) (byte d) \<longleftrightarrow> pair_le (a, b) (c, d)"
proof -
  have "0 \<le> uchar b" "uchar b < 128" "0 \<le> uchar d" "uchar d < 128"
    using assms uchar_bounds by (auto simp: ascii_def)
  then have "uchar a * 512 + uchar b \<le> uchar c * 512 + uchar d \<longleftrightarrow>
      uchar a < uchar c \<or> (uchar a = uchar c \<and> uchar b \<le> uchar d)"
    by auto
  then show ?thesis
    using assms by (simp add: word_le_def uint_index_ascii pair_le_def uchar_inject)
qed

lemma owner_index_ascii:
  assumes "ascii a" "ascii b"
  shows "owner_index (a # b # rest) = pair_index (byte a) (byte b)"
  using assms uchar_bounds [of a]
  by (simp add: owner_index_def pair_index_def uint_byte schar_ascii ascii_def uint_word_of_int)

subsection \<open>What a range text means\<close>

lemma range_scan_total:
  "i \<le> 5 \<Longrightarrow> p \<le> i + 2 \<Longrightarrow> length buf = 8 \<Longrightarrow>
     \<exists>j sp buf'. range_scan s i p isSplit buf = Inr (j, sp, buf') \<and> length buf' = 8"
proof (induction s arbitrary: i p isSplit buf)
  case (Cons c cs)
  then show ?case by auto
qed simp

text \<open>The four shapes of a range in \<open>router.toml\<close>, by characters that are no tilde.\<close>

definition range_char :: "char \<Rightarrow> bool" where
  "range_char c \<longleftrightarrow> c \<noteq> CHR ''~'' \<and> c \<noteq> nul"

lemma RangeToIndex_one:
  "range_char a \<Longrightarrow> RangeToIndex (Some [a]) l r =
     Inr (True, pair_index (byte a) (byte (CHR ''-'')), pair_index (byte a) (byte (CHR ''z'')))"
  by (simp add: RangeToIndex_def range_buffer_def range_char_def)

lemma RangeToIndex_two:
  "range_char a \<Longrightarrow> range_char b \<Longrightarrow> RangeToIndex (Some [a, b]) l r =
     Inr (True, pair_index (byte a) (byte b), pair_index (byte a) (byte b))"
  by (simp add: RangeToIndex_def range_buffer_def range_char_def)

lemma RangeToIndex_one_one:
  "range_char a \<Longrightarrow> range_char c \<Longrightarrow> RangeToIndex (Some [a, CHR ''~'', c]) l r =
     Inr (True, pair_index (byte a) (byte (CHR ''-'')), pair_index (byte c) (byte (CHR ''z'')))"
  by (simp add: RangeToIndex_def range_buffer_def range_char_def)

lemma RangeToIndex_one_two:
  "range_char a \<Longrightarrow> range_char c \<Longrightarrow> range_char d \<Longrightarrow> RangeToIndex (Some [a, CHR ''~'', c, d]) l r =
     Inr (True, pair_index (byte a) (byte (CHR ''-'')), pair_index (byte c) (byte d))"
  by (simp add: RangeToIndex_def range_buffer_def range_char_def)

lemma RangeToIndex_two_two:
  "range_char a \<Longrightarrow> range_char b \<Longrightarrow> range_char c \<Longrightarrow> range_char d \<Longrightarrow>
     RangeToIndex (Some [a, b, CHR ''~'', c, d]) l r =
     Inr (True, pair_index (byte a) (byte b), pair_index (byte c) (byte d))"
  by (simp add: RangeToIndex_def range_buffer_def range_char_def)

lemma find_host_find:
  "find_host es i = map_option (\<lambda>e. \<lparr>elem_port = host_port e, elem_address = host_address e\<rparr>)
     (find (\<lambda>e. begin_index e \<le> i \<and> i \<le> end_index e \<and> enabled e) es)"
  by (induction es) auto

text \<open>
  The pairs a range text stands for, from its lowest to its highest: one character \<open>X\<close>
  spans \<open>X-\<close> to \<open>Xz\<close>, and on either side of a tilde a missing second character is \<open>-\<close>
  on the left and \<open>z\<close> on the right.
\<close>

definition plain_pair :: "string \<Rightarrow> char \<Rightarrow> (char \<times> char) option" where
  "plain_pair w dflt =
     (case w of
        [a] \<Rightarrow> if range_char a \<and> ascii a then Some (a, dflt) else None
      | [a, b] \<Rightarrow> if range_char a \<and> ascii a \<and> range_char b \<and> ascii b then Some (a, b) else None
      | _ \<Rightarrow> None)"

definition range_bounds :: "string \<Rightarrow> ((char \<times> char) \<times> (char \<times> char)) option" where
  "range_bounds s =
     (let left = takeWhile (\<lambda>c. c \<noteq> CHR ''~'') s
      in case dropWhile (\<lambda>c. c \<noteq> CHR ''~'') s of
           [] \<Rightarrow> (case (plain_pair left (CHR ''-''), plain_pair left (CHR ''z'')) of
                    (Some lo, Some hi) \<Rightarrow> Some (lo, hi)
                  | _ \<Rightarrow> None)
         | _ # right \<Rightarrow> (case (plain_pair left (CHR ''-''), plain_pair right (CHR ''z'')) of
                    (Some lo, Some hi) \<Rightarrow> Some (lo, hi)
                  | _ \<Rightarrow> None))"

lemma RangeToIndex_two_one:
  "range_char a \<Longrightarrow> range_char b \<Longrightarrow> range_char c \<Longrightarrow> RangeToIndex (Some [a, b, CHR ''~'', c]) l r =
     Inr (True, pair_index (byte a) (byte b), pair_index (byte c) (byte (CHR ''z'')))"
  by (simp add: RangeToIndex_def range_buffer_def range_char_def)

lemmas range_shapes = RangeToIndex_one RangeToIndex_two RangeToIndex_one_one RangeToIndex_one_two
  RangeToIndex_two_one RangeToIndex_two_two

lemma ascii_defaults [simp]: "ascii (CHR ''-'')" "ascii (CHR ''z'')"
  by (simp_all add: ascii_def uchar_def)

lemma plain_pair_Some:
  assumes "plain_pair w d = Some p" "ascii d"
  shows "ascii (fst p) \<and> ascii (snd p) \<and>
    (w = [fst p] \<and> snd p = d \<and> range_char (fst p) \<or> w = [fst p, snd p] \<and> range_char (fst p) \<and> range_char (snd p))"
  using assms by (auto simp: plain_pair_def split: list.splits if_splits)

lemma range_bounds_cases:
  assumes "range_bounds s = Some (lo, hi)"
  obtains (single) "plain_pair s (CHR ''-'') = Some lo" "plain_pair s (CHR ''z'') = Some hi"
  | (tilde) left right where "s = left @ CHR ''~'' # right"
      "plain_pair left (CHR ''-'') = Some lo" "plain_pair right (CHR ''z'') = Some hi"
proof -
  let ?left = "takeWhile (\<lambda>c. c \<noteq> CHR ''~'') s"
  note id = takeWhile_dropWhile_id [of "\<lambda>c. c \<noteq> CHR ''~''" s]
  show ?thesis
  proof (cases "dropWhile (\<lambda>c. c \<noteq> CHR ''~'') s")
    case Nil
    have s: "s = ?left" using id unfolding Nil append_Nil2 by (rule sym)
    have "range_bounds s = (case (plain_pair s (CHR ''-''), plain_pair s (CHR ''z'')) of
        (Some lo, Some hi) \<Rightarrow> Some (lo, hi) | _ \<Rightarrow> None)"
      unfolding range_bounds_def Let_def Nil s [symmetric] by simp
    with assms show ?thesis by (auto split: option.splits intro: single)
  next
    case (Cons x right)
    have "s = ?left @ CHR ''~'' # right"
      using id Cons hd_dropWhile [of "\<lambda>c. c \<noteq> CHR ''~''" s] by simp
    moreover have "plain_pair ?left (CHR ''-'') = Some lo" "plain_pair right (CHR ''z'') = Some hi"
      using assms Cons by (simp_all add: range_bounds_def split: option.splits)
    ultimately show ?thesis by (rule tilde)
  qed
qed

lemma range_bounds_index:
  assumes "range_bounds s = Some (lo, hi)"
  shows "RangeToIndex (Some s) l r =
      Inr (True, pair_index (byte (fst lo)) (byte (snd lo)), pair_index (byte (fst hi)) (byte (snd hi))) \<and>
    ascii (fst lo) \<and> ascii (snd lo) \<and> ascii (fst hi) \<and> ascii (snd hi)"
  using assms
proof (cases rule: range_bounds_cases)
  case single
  from plain_pair_Some [OF single(1) ascii_defaults(1)] plain_pair_Some [OF single(2) ascii_defaults(2)]
  show ?thesis by (elim conjE disjE) (simp_all add: range_shapes)
next
  case (tilde left right)
  from plain_pair_Some [OF tilde(2) ascii_defaults(1)] plain_pair_Some [OF tilde(3) ascii_defaults(2)]
  show ?thesis unfolding tilde(1) by (elim conjE disjE) (simp_all add: range_shapes)
qed

subsection \<open>Properties\<close>

lemma RangeToIndex_total: "\<exists>l' r'. RangeToIndex (Some s) l r = Inr (True, l', r')"
  using range_scan_total [of 0 0 range_buffer s False]
  by (auto simp: RangeToIndex_def Let_def range_buffer_def)

lemma RangeToIndex_no_fault: "RangeToIndex (Some s) l r \<noteq> Inl f"
  using RangeToIndex_total [of s l r] by auto

text \<open>
  C37: \<open>RangeToIndex\<close> stays inside its eight bytes. Whatever the range text, the scan
  writes no byte outside \<open>in\<close>, leaves it eight bytes long, and a pair of indices is
  returned.
\<close>

theorem RangeToIndex_in_bounds:
  "(\<exists>i sp buf. range_scan s 0 0 False range_buffer = Inr (i, sp, buf) \<and> length buf = 8) \<and>
   (\<exists>l' r'. RangeToIndex (Some s) l r = Inr (True, l', r'))"
  using range_scan_total [of 0 0 range_buffer s False] RangeToIndex_total
  by (simp add: range_buffer_def)

text \<open>
  The index of an owner orders owners as a dictionary does. For ASCII names the
  16-bit comparison of two indices is the comparison of the first characters and, where
  they are equal, of the second ones.
\<close>

theorem owner_index_dictionary:
  assumes "ascii a" "ascii b" "ascii c" "ascii d"
  shows "owner_index (a # b # u) \<le> owner_index (c # d # v) \<longleftrightarrow>
    uchar a < uchar c \<or> (a = c \<and> uchar b \<le> uchar d)"
  using index_le_iff [OF assms] assms by (simp add: owner_index_ascii pair_le_def)

theorem owner_index_dictionary_witness:
  "owner_index ''Zz'' \<le> owner_index ''aA'' \<longleftrightarrow> uchar (CHR ''Z'') < uchar (CHR ''a'') \<or> False"
  using owner_index_dictionary [of "CHR ''Z''" "CHR ''z''" "CHR ''a''" "CHR ''A''" "[]" "[]"]
  by (simp add: ascii_def uchar_def)

text \<open>The pairs a range text spans.\<close>

definition spans :: "string \<Rightarrow> char \<times> char \<Rightarrow> bool" where
  "spans s p \<longleftrightarrow> (case range_bounds s of None \<Rightarrow> False | Some (lo, hi) \<Rightarrow> pair_le lo p \<and> pair_le p hi)"

text \<open>The entry the table loop builds from a range text and the other fields.\<close>

definition with_range :: "string \<Rightarrow> HostElement \<Rightarrow> HostElement" where
  "with_range s e =
     (case RangeToIndex (Some s) 0 0 of
        Inr (_, l, r) \<Rightarrow> e\<lparr>begin_index := l, end_index := r\<rparr>
      | Inl _ \<Rightarrow> e)"

definition chosen :: "StorageElement \<Rightarrow> HostElement option \<Rightarrow> StorageElement" where
  "chosen d h = (case h of None \<Rightarrow> d | Some e \<Rightarrow> \<lparr>elem_port = host_port e, elem_address = host_address e\<rparr>)"

lemma with_range_spans:
  assumes "range_bounds s \<noteq> None" "ascii x" "ascii y"
  shows "begin_index (with_range s e) \<le> pair_index (byte x) (byte y) \<and>
      pair_index (byte x) (byte y) \<le> end_index (with_range s e) \<longleftrightarrow> spans s (x, y)"
proof -
  obtain lo hi where b: "range_bounds s = Some (lo, hi)" using assms(1) by auto
  obtain a1 a2 b1 b2 where p: "lo = (a1, a2)" "hi = (b1, b2)" by (cases lo, cases hi)
  show ?thesis
    using range_bounds_index [OF b] assms(2,3) b
    by (auto simp: with_range_def spans_def p index_le_iff)
qed

lemma with_range_fields:
  "host_port (with_range s e) = host_port e" "enabled (with_range s e) = enabled e"
  "host_address (with_range s e) = host_address e"
  by (auto simp: with_range_def split: sum.splits)

lemma find_host_spans:
  assumes "\<forall>(s, e) \<in> set ents. range_bounds s \<noteq> None" "ascii x" "ascii y"
  shows "find_host (map (\<lambda>(s, e). with_range s e) ents) (pair_index (byte x) (byte y)) =
    map_option (\<lambda>(s, e). \<lparr>elem_port = host_port e, elem_address = host_address e\<rparr>)
      (find (\<lambda>(s, e). enabled e \<and> spans s (x, y)) ents)"
  using assms
proof (induction ents)
  case (Cons x ents)
  obtain s e where x: "x = (s, e)" by (cases x)
  then have "range_bounds s \<noteq> None" using Cons.prems(1) by auto
  from with_range_spans [OF this assms(2,3), of e] Cons show ?case
    by (auto simp: x with_range_fields simp del: not_None_eq)
qed simp

lemma route_spans:
  assumes "\<forall>(s, e) \<in> set ents. range_bounds s \<noteq> None"
    and "ascii x" and "ascii y"
  shows "GetAddress \<lparr>hostElement = map (\<lambda>(s, e). with_range s e) ents, defaultElement = d, defaultPort = p\<rparr>
      (x # y # rest) el =
    (True, chosen \<lparr>elem_port = p, elem_address = d\<rparr>
      (map_option snd (find (\<lambda>(s, e). enabled e \<and> spans s (x, y)) ents)))"
  using assms
  by (simp add: GetAddress_def owner_index_ascii find_host_spans chosen_def split: option.splits prod.splits)

text \<open>
  C19: routing is by the first enabled range that holds the magic path. For a table whose
  ranges are written in the documented shapes, an owner starting with two ASCII characters
  gets the host of the first enabled entry whose range text spans those two characters,
  and the default host when there is none.
\<close>

theorem route_by_magic_path:
  assumes "\<forall>(s, e) \<in> set ents. range_bounds s \<noteq> None"
    and "ascii x" and "ascii y"
  shows "GetAddress \<lparr>hostElement = map (\<lambda>(s, e). with_range s e) ents, defaultElement = d, defaultPort = p\<rparr>
      (x # y # rest) el =
    (True, chosen \<lparr>elem_port = p, elem_address = d\<rparr>
      (map_option snd (find (\<lambda>(s, e). enabled e \<and> spans s (x, y)) ents)))"
  using assms by (rule route_spans)

definition example_hosts :: "(string \<times> HostElement) list" where
  "example_hosts =
     [(''A'', \<lparr>begin_index = 0, end_index = 0, host_port = 3690, enabled = False, host_address = ''10.0.0.1''\<rparr>),
      (''A~Zz'', \<lparr>begin_index = 0, end_index = 0, host_port = 3691, enabled = True, host_address = ''10.0.0.2''\<rparr>)]"

theorem route_by_magic_path_witness:
  "GetAddress \<lparr>hostElement = map (\<lambda>(s, e). with_range s e) example_hosts, defaultElement = ''10.0.0.9'',
      defaultPort = 3690\<rparr> (CHR ''A'' # CHR ''p'' # ''ache'') \<lparr>elem_port = 0, elem_address = []\<rparr> =
    (True, \<lparr>elem_port = 3691, elem_address = ''10.0.0.2''\<rparr>)"
proof -
  have "\<forall>(s, e) \<in> set example_hosts. range_bounds s \<noteq> None"
    by (simp add: example_hosts_def range_bounds_def plain_pair_def range_char_def ascii_def uchar_def Let_def)
  from route_by_magic_path [OF this, of "CHR ''A''" "CHR ''p''"] show ?thesis
    by (simp add: ascii_def uchar_def chosen_def example_hosts_def spans_def range_bounds_def plain_pair_def
        range_char_def pair_le_def Let_def)
qed

subsection \<open>Reading \<open>router.toml\<close>\<close>

text \<open>The keys the router asks for, as paths.\<close>

lemma router_paths:
  "split ''Host.address'' (CHR ''.'') = [''Host'', ''address'']"
  "split ''Host.port'' (CHR ''.'') = [''Host'', ''port'']"
  "split ''Host.Content'' (CHR ''.'') = [''Host'', ''Content'']"
  "split ''range'' (CHR ''.'') = [''range'']"
  "split ''address'' (CHR ''.'') = [''address'']"
  "split ''port'' (CHR ''.'') = [''port'']"
  "split ''enable'' (CHR ''.'') = [''enable'']"
  by (simp_all add: split.simps)

lemmas router_lookup = qualified_or_eq get_qualified_eq contains_qualified_eq
  get_table_array_qualified_eq router_paths

lemma host_entry_fault:
  assumes "host_entry t = Inl f"
  shows "f = NullDeref"
  using assms
  by (auto simp: host_entry_def fault_simps deref_def router_lookup RangeToIndex_no_fault
      split: if_splits option.splits)

lemma host_entries_fault: "host_entries ts = Inl f \<Longrightarrow> f = NullDeref"
  by (induction ts) (auto simp: fault_simps dest: host_entry_fault)

text \<open>A table of \<open>[[Host.Content]]\<close> with its four keys, and the entry it is read into.\<close>

definition content_table :: "string \<Rightarrow> HostElement \<Rightarrow> 'd table" where
  "content_table s e =
     [(''range'', TString s), (''address'', TString (host_address e)),
      (''port'', TInt (uint (host_port e))), (''enable'', TBool (enabled e))]"

definition router_table :: "string \<Rightarrow> u16 \<Rightarrow> (string \<times> HostElement) list \<Rightarrow> 'd table" where
  "router_table d p ents =
     [(''Host'', TTable [(''address'', TString d), (''port'', TInt (uint p)),
        (''Content'', TTableArray (map (\<lambda>(s, e). content_table s e) ents))])]"

lemma plain_pair_nul: "plain_pair w d = Some p \<Longrightarrow> nul \<notin> set w"
  by (auto simp: plain_pair_def range_char_def split: list.splits if_splits)

lemma range_bounds_nul:
  assumes "range_bounds s = Some (lo, hi)"
  shows "nul \<notin> set s"
  using assms by (cases rule: range_bounds_cases) (auto dest: plain_pair_nul)

lemma host_entry_content:
  assumes "range_bounds s \<noteq> None"
  shows "host_entry (content_table s e) = Inr (Some (with_range s e))"
proof -
  obtain lo hi where b: "range_bounds s = Some (lo, hi)" using assms by auto
  obtain l r where r: "RangeToIndex (Some s) 0 0 = Inr (True, l, r)"
    using RangeToIndex_total by blast
  have "c_str s = s" using range_bounds_nul [OF b] by (rule c_str_id)
  then show ?thesis
    by (simp add: host_entry_def content_table_def router_lookup r with_range_def)
qed

lemma host_entries_content:
  "\<forall>(s, e) \<in> set ents. range_bounds s \<noteq> None \<Longrightarrow>
     host_entries (map (\<lambda>(s, e). content_table s e) ents) = Inr (map (\<lambda>(s, e). with_range s e) ents)"
  by (induction ents) (auto simp: host_entry_content simp del: not_None_eq)

lemma load_router_table:
  assumes "parse_file f = Inr (router_table d p ents)" and "f \<noteq> []" and "nul \<notin> set f" and "d \<noteq> []"
    and "\<forall>(s, e) \<in> set ents. range_bounds s \<noteq> None"
  shows "InitializeRouterSeletor parse_file f \<lparr>hostElement = [], defaultElement = [], defaultPort = q\<rparr> =
    Inr (True, \<lparr>hostElement = map (\<lambda>(s, e). with_range s e) ents, defaultElement = d, defaultPort = p\<rparr>)"
  using assms
  by (simp add: InitializeRouterSeletor_def InitializeManager_def c_str_id router_table_def router_lookup
      host_entries_content del: not_None_eq)

text \<open>
  A documented \<open>router.toml\<close> is loaded as written. A file that parses to a \<open>Host\<close>
  table with a default and a list of contents whose ranges have the documented shapes is
  accepted, and leaves exactly those hosts, in file order, and that default.
\<close>

theorem router_loaded:
  assumes "parse_file f = Inr (router_table d p ents)" and "f \<noteq> []" and "nul \<notin> set f" and "d \<noteq> []"
    and "\<forall>(s, e) \<in> set ents. range_bounds s \<noteq> None"
  shows "InitializeRouterSeletor parse_file f \<lparr>hostElement = [], defaultElement = [], defaultPort = q\<rparr> =
    Inr (True, \<lparr>hostElement = map (\<lambda>(s, e). with_range s e) ents, defaultElement = d, defaultPort = p\<rparr>)"
  using assms by (rule load_router_table)

theorem router_loaded_witness:
  "InitializeRouterSeletor (\<lambda>_. Inr (router_table ''10.0.0.9'' 3690 example_hosts :: nat table)) ''router.toml''
     \<lparr>hostElement = [], defaultElement = [], defaultPort = 0\<rparr> =
   Inr (True, \<lparr>hostElement = map (\<lambda>(s, e). with_range s e) example_hosts,
     defaultElement = ''10.0.0.9'', defaultPort = 3690\<rparr>)"
  by (rule router_loaded)
    (simp_all add: example_hosts_def range_bounds_def plain_pair_def range_char_def ascii_def uchar_def Let_def)

text \<open>
  The only way loading fails without a return value is a value of the wrong type. When
  the file parses, \<open>InitializeManager\<close> returns or dereferences the null pointer of
  a failed \<open>as<T>()\<close>; no lookup throws, and no range text writes out of bounds.
\<close>

theorem router_load_faults:
  assumes "parse_file f = Inr g"
  shows "returns (InitializeManager parse_file f m) \<or> InitializeManager parse_file f m = Inl NullDeref"
proof (cases "InitializeManager parse_file f m")
  case (Inl e)
  then show ?thesis
    using assms
    by (auto simp: InitializeManager_def fault_simps get_table_array_qualified_eq Let_def
        dest: host_entries_fault qualified_or_fault split: option.splits)
qed simp

theorem router_load_faults_witness:
  "InitializeManager (\<lambda>_. Inr [(''Host'', TTable [(''port'', TString ''3690'')])] :: nat table eff) ''router.toml''
     \<lparr>hostElement = [], defaultElement = [], defaultPort = 0\<rparr> = Inl NullDeref"
  using router_load_faults [of "\<lambda>_. Inr [(''Host'', TTable [(''port'', TString ''3690'')])] :: nat table eff"
      "''router.toml''" "[(''Host'', TTable [(''port'', TString ''3690'')])]"
      "\<lparr>hostElement = [], defaultElement = [], defaultPort = 0\<rparr>"]
  by (simp add: InitializeManager_def router_lookup)

text \<open>
  The key that switches a host off is \<open>enable\<close>, and no other. The documented files
  write \<open>enbale\<close>; such a key changes nothing, so a host "disabled" with it stays enabled.
\<close>

theorem enbale_is_ignored:
  "host_entry ((''enbale'', v) # t) = host_entry t \<and>
   (\<exists>e. host_entry [(''range'', TString s), (''address'', TString a), (''enbale'', TBool False)] = Inr (Some e) \<and>
      enabled e)"
proof -
  obtain l r where r: "RangeToIndex (Some (c_str s)) 0 0 = Inr (True, l, r)"
    using RangeToIndex_total by blast
  show ?thesis
    by (simp add: host_entry_def router_lookup r)
qed

text \<open>
  A router file without \<open>[[Host.Content]]\<close> is refused, even when it names a default
  host, although the manual promises the default for an empty table.
\<close>

theorem no_content_refused:
  assumes "parse_file f = Inr [(''Host'', TTable [(''address'', TString d), (''port'', TInt p)])]"
  shows "\<exists>m'. InitializeManager parse_file f m = Inr (False, m') \<and> defaultElement m' = d"
  using assms by (simp add: InitializeManager_def router_lookup)

theorem no_content_refused_witness:
  "\<exists>m'. InitializeManager (\<lambda>_. Inr [(''Host'', TTable [(''address'', TString ''10.0.0.9''), (''port'', TInt 3690)])]
       :: nat table eff) ''router.toml'' \<lparr>hostElement = [], defaultElement = [], defaultPort = 0\<rparr> = Inr (False, m') \<and>
     defaultElement m' = ''10.0.0.9''"
  by (rule no_content_refused) simp

end
