(* ===== verification/Paths.thy ===== *)
theory Paths
  imports Svn_Prelude
begin

section \<open>Paths of the process (\<open>Runtime.cc\<close>, POSIX part)\<close>

text \<open>
  Where the executable lies, whether a file exists, and a file below the home directory. The
  system is an argument: \<open>readlink_exe\<close> is what \<open>readlink("/proc/self/exe")\<close> stores
  (\<open>None\<close> for -1), \<open>exists\<close> whether \<open>stat\<close> succeeds, \<open>home\<close> the \<open>pw_dir\<close> of \<open>getpwuid\<close>
  (\<open>None\<close> for a null result). A \<open>char\<close> array is the list of its bytes, the string in it ends
  at the first NUL.

  The properties: the folder of an executable is the text before its last slash, and what a
  link of exactly \<open>PATH_MAX\<close> bytes does.
\<close>

definition PATH_MAX :: nat where
  "PATH_MAX = 4096"

text \<open>The \<open>while\<close> loop; \<open>e\<close> is \<open>end - p\<close> before the test.\<close>

fun remove_spec_loop :: "string \<Rightarrow> nat \<Rightarrow> bool \<times> string" where
  "remove_spec_loop path 0 = (False, path)"
| "remove_spec_loop path (Suc l) =
     (if path ! l = CHR ''/'' then (True, path[(if l = 0 then 1 else l) := nul])
      else remove_spec_loop path l)"

definition PathRemoveFileSpec :: "string option \<Rightarrow> nat \<Rightarrow> bool \<times> string option" where
  "PathRemoveFileSpec path len =
     (case path of
        None \<Rightarrow> (False, None)
      | Some p \<Rightarrow>
          if len = 0 then (False, path)
          else (case remove_spec_loop p (length (c_str p)) of (b, q) \<Rightarrow> (b, Some q)))"

definition GetProcessImageFileFolder :: "string option \<Rightarrow> string \<Rightarrow> (bool \<times> string) eff" where
  "GetProcessImageFileFolder readlink_exe dir =
     (let exe_path = replicate PATH_MAX nul in
      case readlink_exe of
        None \<Rightarrow> Inr (False, dir)
      | Some target \<Rightarrow>
          let stored = take PATH_MAX target; len = length stored;
              exe_path1 = stored @ drop len exe_path
          in if len = 0 then Inr (False, dir)
             else if PATH_MAX \<le> len then Inl OutOfBounds
             else
               (case PathRemoveFileSpec (Some (exe_path1[len := nul])) PATH_MAX of
                  (True, Some p) \<Rightarrow> Inr (True, c_str p)
                | _ \<Rightarrow> Inr (False, dir)))"

definition PathFileIsExists :: "(string \<Rightarrow> bool) \<Rightarrow> string \<Rightarrow> bool" where
  "PathFileIsExists exists path = (if path = [] then False else exists (c_str path))"

text \<open>\<open>path.back()\<close> of an empty string is undefined.\<close>

definition PathCombineHomeExists ::
    "string option \<Rightarrow> (string \<Rightarrow> bool) \<Rightarrow> string \<Rightarrow> string option \<Rightarrow> (bool \<times> string) eff" where
  "PathCombineHomeExists home exists path relativePath =
     (case relativePath of
        None \<Rightarrow> Inr (False, path)
      | Some rel \<Rightarrow>
          (case home of
             None \<Rightarrow> Inr (False, path)
           | Some d \<Rightarrow>
               if d = [] then Inl OutOfBounds
               else
                 let p1 = (if last d \<noteq> CHR ''/'' then d @ ''/'' else d);
                     rel1 = (case rel of [] \<Rightarrow> [] | c # cs \<Rightarrow> if c = CHR ''/'' then cs else rel);
                     p2 = p1 @ rel1
                 in Inr (if PathFileIsExists exists p2 then (True, p2) else (False, p2))))"

subsection \<open>Facts\<close>

lemma remove_spec_loop_slash:
  assumes "CHR ''/'' \<notin> set f" "length f + Suc (length d) \<le> length path" "take (length d + Suc (length f)) path = d @ CHR ''/'' # f"
  shows "remove_spec_loop path (length d + Suc (length f)) = (True, path[(if d = [] then 1 else length d) := nul])"
  using assms
proof (induction f rule: rev_induct)
  case Nil
  then have "path ! length d = CHR ''/''"
    by (metis append_Cons list.size(3) nth_append_length nth_take add_Suc_right add.right_neutral lessI)
  then show ?case by simp
next
  case (snoc c f)
  let ?n = "length d + Suc (length f)"
  have "path ! ?n = (d @ CHR ''/'' # f @ [c]) ! ?n"
    using snoc.prems(3) by (metis add_Suc_right length_append_singleton lessI nth_take)
  then have "path ! ?n = c"
    by (metis append_Cons append_assoc length_Cons length_append nth_append_length)
  moreover have "take ?n path = d @ CHR ''/'' # f"
  proof -
    have "take ?n path = take ?n (take (length d + Suc (length (f @ [c]))) path)" by (simp add: min_def)
    then show ?thesis by (simp only: snoc.prems(3)) simp
  qed
  ultimately show ?case using snoc by auto
qed

text \<open>The text before the last slash, with the root kept.\<close>

definition folder :: "string \<Rightarrow> string" where
  "folder p = (let d = rev (tl (dropWhile (\<lambda>c. c \<noteq> CHR ''/'') (rev p))) in if d = [] then ''/'' else d)"

lemma folder_split:
  assumes "CHR ''/'' \<notin> set f"
  shows "folder (d @ CHR ''/'' # f) = (if d = [] then ''/'' else d)"
proof -
  have "\<forall>x \<in> set (rev f). x \<noteq> CHR ''/''" using assms by auto
  from dropWhile_append_stop [OF this, of "CHR ''/''" "rev d"] show ?thesis
    by (simp add: folder_def Let_def)
qed

text \<open>Removing the file from an array that holds a path with a slash.\<close>

lemma remove_file_of_path:
  assumes "nul \<notin> set d" and "nul \<notin> set f" and "CHR ''/'' \<notin> set f" and "n \<noteq> 0"
  shows "\<exists>q. PathRemoveFileSpec (Some (d @ CHR ''/'' # f @ nul # rest)) n = (True, Some q) \<and> c_str q = folder (d @ CHR ''/'' # f)"
proof -
  let ?t = "d @ CHR ''/'' # f"
  let ?p = "d @ CHR ''/'' # f @ nul # rest"
  have c: "c_str ?p = ?t"
  proof -
    have "takeWhile (\<lambda>c. c \<noteq> nul) (?t @ nul # rest) = ?t" using assms(1,2) by (intro takeWhile_append_stop) auto
    then show ?thesis by (simp add: c_str_def)
  qed
  have "remove_spec_loop ?p (length d + Suc (length f)) = (True, ?p[(if d = [] then 1 else length d) := nul])"
    by (rule remove_spec_loop_slash [OF assms(3)]) simp_all
  moreover have "c_str (?p[(if d = [] then 1 else length d) := nul]) = (if d = [] then ''/'' else d)"
  proof (cases "d = []")
    case True
    obtain x xs where "f @ nul # rest = x # xs" by (cases f) auto
    with True show ?thesis by (simp add: c_str_def)
  next
    case False
    have "takeWhile (\<lambda>c. c \<noteq> nul) (d @ nul # f @ nul # rest) = d"
      using assms(1) by (intro takeWhile_append_stop) auto
    with False show ?thesis by (simp add: c_str_def list_update_append)
  qed
  ultimately show ?thesis using assms(4) c by (simp add: PathRemoveFileSpec_def folder_split [OF assms(3)])
qed

subsection \<open>Properties\<close>

lemma process_folder_eq:
  assumes "nul \<notin> set d" and "nul \<notin> set f" and "CHR ''/'' \<notin> set f"
    and "length d + length f + 1 < PATH_MAX"
  shows "GetProcessImageFileFolder (Some (d @ CHR ''/'' # f)) dir = Inr (True, folder (d @ CHR ''/'' # f))"
proof -
  let ?t = "d @ CHR ''/'' # f"
  obtain m where m: "PATH_MAX - length ?t = Suc m" using assms(4) by (cases "PATH_MAX - length ?t") auto
  have b: "(take PATH_MAX ?t @ drop (length ?t) (replicate PATH_MAX nul))[length ?t := nul] = d @ CHR ''/'' # f @ nul # replicate m nul"
    using assms(4) m by (simp add: list_update_append)
  obtain q where "PathRemoveFileSpec (Some (d @ CHR ''/'' # f @ nul # replicate m nul)) PATH_MAX = (True, Some q)" "c_str q = folder ?t"
    using remove_file_of_path [OF assms(1-3), of PATH_MAX] by (auto simp: PATH_MAX_def)
  then show ?thesis
    using assms(4) b by (simp add: GetProcessImageFileFolder_def Let_def)
qed

text \<open>
  The folder of the executable. When the link target has a slash and fewer than
  \<open>PATH_MAX\<close> bytes, the result is the text before its last slash, or \<open>/\<close> for a file in the root.
\<close>

theorem process_folder:
  assumes "nul \<notin> set d" and "nul \<notin> set f" and "CHR ''/'' \<notin> set f"
    and "length d + length f + 1 < PATH_MAX"
  shows "GetProcessImageFileFolder (Some (d @ CHR ''/'' # f)) dir = Inr (True, folder (d @ CHR ''/'' # f))"
  using assms by (rule process_folder_eq)

theorem process_folder_witness:
  "GetProcessImageFileFolder (Some ''/usr/bin/svnsrv'') [] = Inr (True, ''/usr/bin'')"
proof -
  have "folder ''/usr/bin/svnsrv'' = ''/usr/bin''"
    using folder_split [of "''svnsrv''" "''/usr/bin''"] by simp
  then show ?thesis
    using process_folder [of "''/usr/bin''" "''svnsrv''" "[]"] by (simp add: PATH_MAX_def)
qed

text \<open>
  \<open>readlink\<close> may fill the whole array it is given; the NUL is then stored behind it. (On Linux
  the kernel refuses links of that length, so this needs another system.)
\<close>

lemma link_fills_buffer:
  "PATH_MAX \<le> length t \<Longrightarrow> GetProcessImageFileFolder (Some t) dir = Inl OutOfBounds"
  by (cases t) (simp_all add: GetProcessImageFileFolder_def Let_def PATH_MAX_def)

lemma home_file:
  "d \<noteq> [] \<Longrightarrow> last d \<noteq> CHR ''/'' \<Longrightarrow>
     PathCombineHomeExists (Some d) exists p (Some (c # rel)) =
       (let q = d @ ''/'' @ (if c = CHR ''/'' then rel else c # rel) in Inr (exists (c_str q), q))"
  by (simp add: PathCombineHomeExists_def PathFileIsExists_def Let_def)

end
