(* ===== verification/Config.thy ===== *)
theory Config
  imports Paths Toml
begin

section \<open>The configuration (\<open>svnsrv.h\<close>, \<open>TOMLParse.cc\<close>)\<close>

text \<open>
  \<open>ParseServiceProfile\<close> finds \<open>svnsrv.toml\<close>, has it parsed and copies its values, or their
  defaults, into the two argument records of the server. The system (\<open>readlink_exe\<close>,
  \<open>exists\<close>, \<open>home\<close>) and \<open>cpptoml::parse_file\<close> are arguments, as in the theories of paths and of
  the router; the two reserved arrays of the structs are left out. The POSIX branch is
  modelled.

  The properties: which file is read, what a table of settings is loaded as, and what a value
  of the wrong type does.
\<close>

subsection \<open>Data\<close>

record NetworkServerArgs =
  poolSize :: u32
  net_port :: u32
  compressionLevel :: u32
  connectTimeout :: u32
  isDomainFilter :: bool
  isTunnel :: bool
  net_address :: string
  domain :: string

record LauncherArgs =
  pidFile :: string
  log_access_file :: string
  log_error_file :: string
  routerFile :: string
  crashRestart :: bool

definition TIMEOUT_INFINITE :: int where
  "TIMEOUT_INFINITE = uint (- 1 :: u32)"

definition TIMEOUT_LIMIT :: int where
  "TIMEOUT_LIMIT = 43200"

record host_system =
  readlink_exe :: "string option"
  file_exists :: "string \<Rightarrow> bool"
  home_dir :: "string option"

subsection \<open>\<open>ParseServiceProfile\<close>\<close>

text \<open>
  The file to read, over the three functions of \<open>Runtime.hpp\<close>, which every system has its own of; \<open>None\<close> is \<open>return false\<close>.
\<close>

definition search_profile ::
    "(bool \<times> string) eff \<Rightarrow> (string \<Rightarrow> bool) \<Rightarrow> (string \<Rightarrow> string \<Rightarrow> (bool \<times> string) eff) \<Rightarrow> string option \<Rightarrow> string option eff" where
  "search_profile image_folder there combine_home configfile =
     (case configfile of
        None \<Rightarrow>
          andThen image_folder (\<lambda>(found, dir).
            if \<not> found then Inr None
            else
              let tomlfile = dir @ ''/svnsrv.toml'' in
              if \<not> there tomlfile then
                if there ''svnsrv.toml'' then Inr (Some ''svnsrv.toml'')
                else andThen (combine_home tomlfile ''.svnsrv/svnsrv.toml'') (\<lambda>(ok, p). Inr (if \<not> ok then None else Some p))
              else Inr (Some tomlfile))
      | Some c \<Rightarrow> Inr (if \<not> there c then None else Some c))"

definition profile_file :: "host_system \<Rightarrow> string option \<Rightarrow> string option eff" where
  "profile_file sys =
     search_profile (GetProcessImageFileFolder (readlink_exe sys) []) (PathFileIsExists (file_exists sys))
       (\<lambda>path rel. PathCombineHomeExists (home_dir sys) (file_exists sys) path (Some rel))"

text \<open>The three lambdas; an integer is cast to a 32-bit \<open>int\<close> before it is stored.\<close>

definition Strings :: "'d table \<Rightarrow> string \<Rightarrow> string \<Rightarrow> string eff" where
  "Strings g key v =
     (if contains_qualified g key then andThen (get_qualified g key) (\<lambda>b. deref (as_string b)) else Inr v)"

definition Integer :: "'d table \<Rightarrow> string \<Rightarrow> int \<Rightarrow> u32 eff" where
  "Integer g key vi =
     (if contains_qualified g key
      then andThen (get_qualified g key) (\<lambda>b. andThen (deref (as_int b)) (\<lambda>i. Inr (word_of_int i)))
      else Inr (word_of_int vi))"

definition Boolean :: "'d table \<Rightarrow> string \<Rightarrow> bool \<Rightarrow> bool eff" where
  "Boolean g key b =
     (if contains_qualified g key then andThen (get_qualified g key) (\<lambda>x. deref (as_bool x)) else Inr b)"

definition read_network :: "'d table \<Rightarrow> NetworkServerArgs eff" where
  "read_network g =
     andThen (Integer g ''Service.PoolSize'' 64) (\<lambda>ps.
     andThen (Integer g ''Network.Port'' 3690) (\<lambda>po.
     andThen (Integer g ''Network.Compression'' 0) (\<lambda>co.
     andThen (Integer g ''Network.Timeout'' TIMEOUT_INFINITE) (\<lambda>ti.
     andThen (Strings g ''Network.Address'' ''127.0.0.1'') (\<lambda>ad.
     andThen (Strings g ''Network.Domain'' ''git.oschina.net'') (\<lambda>dm.
     andThen (Boolean g ''Network.DomainFilter'' False) (\<lambda>df.
     andThen (Boolean g ''Network.Tunnel'' False) (\<lambda>tu.
       Inr \<lparr>poolSize = ps, net_port = po, compressionLevel = co, connectTimeout = ti, isDomainFilter = df,
            isTunnel = tu, net_address = ad, domain = dm\<rparr>))))))))"

definition read_launcher :: "'d table \<Rightarrow> LauncherArgs eff" where
  "read_launcher g =
     andThen (Strings g ''Logger.Access'' ''/tmp/svnsrv.access.log'') (\<lambda>la.
     andThen (Strings g ''Logger.Error'' ''/tmp/svnsrv.error.log'') (\<lambda>le.
     andThen (Strings g ''Daemon.PidFile'' ''/tmp/svnsrv.pid'') (\<lambda>pf.
     andThen (Boolean g ''Daemon.CrashRestart'' True) (\<lambda>cr.
     andThen (Strings g ''Router.RangeFile'' ''router.toml'') (\<lambda>rf.
       Inr \<lparr>pidFile = pf, log_access_file = la, log_error_file = le, routerFile = rf, crashRestart = cr\<rparr>)))))"

text \<open>What follows the search; \<open>launcher\<close> reads the part the systems differ in.\<close>

definition load_profile ::
    "string option eff \<Rightarrow> (string \<Rightarrow> 'd table eff) \<Rightarrow> ('d table \<Rightarrow> LauncherArgs eff) \<Rightarrow> NetworkServerArgs \<Rightarrow> LauncherArgs \<Rightarrow>
     (bool \<times> NetworkServerArgs \<times> LauncherArgs) eff" where
  "load_profile file parse_file launcher na la =
     andThen file (\<lambda>f.
       case f of
         None \<Rightarrow> Inr (False, na, la)
       | Some tomlfile \<Rightarrow>
           (case parse_file tomlfile of
              Inl (ParseException e) \<Rightarrow> Inr (False, na, la)
            | Inl e \<Rightarrow> Inl e
            | Inr g \<Rightarrow>
                andThen (read_network g) (\<lambda>na'.
                andThen (launcher g) (\<lambda>la'.
                  Inr (True, na', la')))))"

definition ParseServiceProfile ::
    "host_system \<Rightarrow> (string \<Rightarrow> 'd table eff) \<Rightarrow> string option \<Rightarrow> NetworkServerArgs \<Rightarrow> LauncherArgs \<Rightarrow>
     (bool \<times> NetworkServerArgs \<times> LauncherArgs) eff" where
  "ParseServiceProfile sys parse_file configfile = load_profile (profile_file sys configfile) parse_file read_launcher"

subsection \<open>Facts\<close>

text \<open>The keys as paths, and the lambdas over them.\<close>

lemma profile_paths:
  "split ''Service.PoolSize'' (CHR ''.'') = [''Service'', ''PoolSize'']"
  "split ''Network.Port'' (CHR ''.'') = [''Network'', ''Port'']"
  "split ''Network.Compression'' (CHR ''.'') = [''Network'', ''Compression'']"
  "split ''Network.Timeout'' (CHR ''.'') = [''Network'', ''Timeout'']"
  "split ''Network.Address'' (CHR ''.'') = [''Network'', ''Address'']"
  "split ''Network.Domain'' (CHR ''.'') = [''Network'', ''Domain'']"
  "split ''Network.DomainFilter'' (CHR ''.'') = [''Network'', ''DomainFilter'']"
  "split ''Network.Tunnel'' (CHR ''.'') = [''Network'', ''Tunnel'']"
  "split ''Logger.Access'' (CHR ''.'') = [''Logger'', ''Access'']"
  "split ''Logger.Error'' (CHR ''.'') = [''Logger'', ''Error'']"
  "split ''Daemon.PidFile'' (CHR ''.'') = [''Daemon'', ''PidFile'']"
  "split ''Daemon.CrashRestart'' (CHR ''.'') = [''Daemon'', ''CrashRestart'']"
  "split ''Router.RangeFile'' (CHR ''.'') = [''Router'', ''RangeFile'']"
  by (simp_all add: split.simps)

lemma Strings_eq: "Strings g key v = (case path_lookup g (split key (CHR ''.'')) of None \<Rightarrow> Inr v | Some b \<Rightarrow> deref (as_string b))"
  using qualified_or_eq [of as_string g key v] by (simp add: Strings_def qualified_or_def)

lemma Boolean_eq: "Boolean g key v = (case path_lookup g (split key (CHR ''.'')) of None \<Rightarrow> Inr v | Some b \<Rightarrow> deref (as_bool b))"
  using qualified_or_eq [of as_bool g key v] by (simp add: Boolean_def qualified_or_def)

lemma Integer_or: "Integer g key v = andThen (qualified_or as_int g key v) (\<lambda>i. Inr (word_of_int i))"
  by (simp add: Integer_def qualified_or_def andThen_assoc)

lemma Integer_eq: "Integer g key v =
    (case path_lookup g (split key (CHR ''.'')) of None \<Rightarrow> Inr (word_of_int v)
     | Some b \<Rightarrow> andThen (deref (as_int b)) (\<lambda>i. Inr (word_of_int i)))"
  by (simp add: Integer_or qualified_or_eq split: option.splits)

lemmas profile_lookup = Strings_eq Boolean_eq Integer_eq profile_paths

lemma lookup_faults:
  "Strings g key s = Inl f \<Longrightarrow> f = NullDeref" "Boolean g key b = Inl f \<Longrightarrow> f = NullDeref" "Integer g key v = Inl f \<Longrightarrow> f = NullDeref"
  by (auto simp: Strings_eq Boolean_eq Integer_eq deref_def fault_simps split: option.splits)

subsection \<open>Properties\<close>

text \<open>A settings file that gives every value, as its parsed table.\<close>

definition settings_table :: "NetworkServerArgs \<Rightarrow> LauncherArgs \<Rightarrow> 'd table" where
  "settings_table na la =
     [(''Service'', TTable [(''PoolSize'', TInt (uint (poolSize na)))]),
      (''Daemon'', TTable [(''CrashRestart'', TBool (crashRestart la)), (''PidFile'', TString (pidFile la))]),
      (''Logger'', TTable [(''Access'', TString (log_access_file la)), (''Error'', TString (log_error_file la))]),
      (''Router'', TTable [(''RangeFile'', TString (routerFile la))]),
      (''Network'', TTable [(''Timeout'', TInt (uint (connectTimeout na))), (''Address'', TString (net_address na)),
         (''Port'', TInt (uint (net_port na))), (''Domain'', TString (domain na)), (''DomainFilter'', TBool (isDomainFilter na)),
         (''Compression'', TInt (uint (compressionLevel na))), (''Tunnel'', TBool (isTunnel na))])]"

lemma read_settings_table:
  "read_network (settings_table na la) = Inr na" "read_launcher (settings_table na la) = Inr la"
  by (simp_all add: read_network_def read_launcher_def profile_lookup settings_table_def)

text \<open>
  A settings file that gives every value is loaded as written, whatever the argument records
  held before.
\<close>

theorem profile_loaded:
  assumes "profile_file sys c = Inr (Some f)" and "parse_file f = Inr (settings_table na la)"
  shows "ParseServiceProfile sys parse_file c na0 la0 = Inr (True, na, la)"
  using assms by (simp add: ParseServiceProfile_def load_profile_def read_settings_table)

definition example_system :: host_system where
  "example_system = \<lparr>readlink_exe = Some ''/usr/bin/svnsrv'', file_exists = (\<lambda>p. p = ''/root/.svnsrv/svnsrv.toml''),
     home_dir = Some ''/root''\<rparr>"

definition example_network :: NetworkServerArgs where
  "example_network = \<lparr>poolSize = 32, net_port = 3690, compressionLevel = 0, connectTimeout = 6000, isDomainFilter = False,
     isTunnel = True, net_address = ''0.0.0.0'', domain = ''git.oschina.net''\<rparr>"

definition example_launcher :: LauncherArgs where
  "example_launcher = \<lparr>pidFile = ''p'', log_access_file = ''a'', log_error_file = ''e'', routerFile = ''r'', crashRestart = True\<rparr>"

theorem profile_loaded_witness:
  "ParseServiceProfile example_system (\<lambda>_. Inr (settings_table example_network example_launcher :: nat table))
     (Some ''/root/.svnsrv/svnsrv.toml'') (example_network\<lparr>net_port := 0\<rparr>) (example_launcher\<lparr>pidFile := []\<rparr>) =
   Inr (True, example_network, example_launcher)"
proof -
  have "profile_file example_system (Some ''/root/.svnsrv/svnsrv.toml'') = Inr (Some ''/root/.svnsrv/svnsrv.toml'')"
    by (simp add: profile_file_def search_profile_def example_system_def PathFileIsExists_def c_str_def)
  from profile_loaded [OF this refl] show ?thesis .
qed

text \<open>
  Without a \<open>-c\<close> option the file read is the first that exists of \<open>svnsrv.toml\<close> beside the
  executable, in the working directory, and in \<open>.svnsrv\<close> below the home directory.
\<close>

theorem profile_search_order:
  assumes "readlink_exe sys = Some (d @ CHR ''/'' # f)" and "nul \<notin> set d" and "nul \<notin> set f" and "CHR ''/'' \<notin> set f"
    and "length d + length f + 1 < PATH_MAX"
    and "home_dir sys = Some h" and "nul \<notin> set h" and "h \<noteq> []" and "last h \<noteq> CHR ''/''"
  shows "profile_file sys None = Inr (find (file_exists sys)
    [folder (d @ CHR ''/'' # f) @ ''/svnsrv.toml'', ''svnsrv.toml'', h @ ''/.svnsrv/svnsrv.toml''])"
proof -
  let ?x = "folder (d @ CHR ''/'' # f) @ ''/svnsrv.toml''"
  have x: "c_str ?x = ?x" using assms(2,3) by (intro c_str_id) (auto simp: folder_split [OF assms(4)])
  have y: "c_str ''svnsrv.toml'' = ''svnsrv.toml''" by (simp add: c_str_def)
  have z: "c_str (h @ ''/.svnsrv/svnsrv.toml'') = h @ ''/.svnsrv/svnsrv.toml''"
    using assms(7) by (intro c_str_id) auto
  show ?thesis
    using process_folder_eq [OF assms(2-5), of "[]"] x y z assms(1,6)
      home_file [OF assms(8,9), of "file_exists sys" ?x "CHR ''.''" "''svnsrv/svnsrv.toml''"]
    by (simp add: profile_file_def search_profile_def PathFileIsExists_def Let_def)
qed

theorem profile_search_order_witness:
  "profile_file example_system None = Inr (Some ''/root/.svnsrv/svnsrv.toml'')"
proof -
  have e: "readlink_exe example_system = Some (''/usr/bin'' @ CHR ''/'' # ''svnsrv'')" "home_dir example_system = Some ''/root''"
    by (simp_all add: example_system_def)
  have "folder (''/usr/bin'' @ CHR ''/'' # ''svnsrv'') = ''/usr/bin''" by (subst folder_split) simp_all
  then show ?thesis
    using profile_search_order [OF e(1) _ _ _ _ e(2)] by (simp add: PATH_MAX_def) (simp add: example_system_def)
qed

text \<open>
  Once a settings file has been parsed, loading it returns or dereferences the null pointer of a
  value of the wrong type; no lookup throws.
\<close>

theorem profile_faults:
  assumes "profile_file sys c = Inr (Some f)" and "parse_file f = Inr g"
  shows "returns (ParseServiceProfile sys parse_file c na la) \<or> ParseServiceProfile sys parse_file c na la = Inl NullDeref"
proof (cases "ParseServiceProfile sys parse_file c na la")
  case (Inl e)
  then have "read_network g = Inl e \<or> read_launcher g = Inl e"
    using assms by (auto simp: ParseServiceProfile_def load_profile_def fault_simps)
  then have "e = NullDeref"
    unfolding read_network_def read_launcher_def by (auto simp: andThen_eq_Inl dest: lookup_faults)
  with Inl show ?thesis by simp
qed simp

text \<open>A quoted port number is such a value: the server crashes instead of reporting it.\<close>

theorem profile_faults_witness:
  "ParseServiceProfile example_system (\<lambda>_. Inr [(''Network'', TTable [(''Port'', TString ''3690'' :: nat toml)])])
     (Some ''/root/.svnsrv/svnsrv.toml'') example_network example_launcher = Inl NullDeref"
proof -
  let ?g = "[(''Network'', TTable [(''Port'', TString ''3690'' :: nat toml)])]"
  have p: "profile_file example_system (Some ''/root/.svnsrv/svnsrv.toml'') = Inr (Some ''/root/.svnsrv/svnsrv.toml'')"
    by (simp add: profile_file_def search_profile_def example_system_def PathFileIsExists_def c_str_def)
  have "\<not> returns (ParseServiceProfile example_system (\<lambda>_. Inr ?g) (Some ''/root/.svnsrv/svnsrv.toml'') example_network example_launcher)"
    using p by (simp add: ParseServiceProfile_def load_profile_def read_network_def profile_lookup deref_def returns_andThen)
  moreover note profile_faults [OF p, of "\<lambda>_. Inr ?g" ?g example_network example_launcher]
  ultimately show ?thesis by simp
qed

text \<open>What an empty file is loaded as.\<close>

lemma profile_defaults:
  "read_network [] = Inr \<lparr>poolSize = 64, net_port = 3690, compressionLevel = 0, connectTimeout = - 1,
     isDomainFilter = False, isTunnel = False, net_address = ''127.0.0.1'', domain = ''git.oschina.net''\<rparr>"
  "read_launcher [] = Inr \<lparr>pidFile = ''/tmp/svnsrv.pid'', log_access_file = ''/tmp/svnsrv.access.log'',
     log_error_file = ''/tmp/svnsrv.error.log'', routerFile = ''router.toml'', crashRestart = True\<rparr>"
  by (simp_all add: read_network_def read_launcher_def profile_lookup TIMEOUT_INFINITE_def)

end
