(* ===== verification/Config_Files.thy ===== *)
theory Config_Files
  imports Toml_Sections Router Config
begin

section \<open>The configuration files\<close>

text \<open>
  The texts of \<open>svnsrv.toml\<close> and \<open>router.toml\<close>, read by the TOML parser and loaded by the router table and the
  settings. \<open>network_of\<close>, \<open>launcher_of\<close>, \<open>hosts_of\<close> and the default host say what a document gives, straight from its lines: a key that
  is not there has the program's default, whatever else the document holds and in whatever order. The lemmas show that the two loaders give just this for
  any document in which the keys they ask for have values of the right type. The files under \<open>config\<close> are the example.
\<close>

lemma parse_file_document:
  assumes "files f = Some doc" and "list_all2 spells items (essential (lines_of [] doc))" and "items_ok items ([], [])"
  shows "parse_file files stod f = Inr (fst (fold apply_item items ([], [])))"
  using document_reads [OF assms(2,3), of stod] assms(1) by (simp add: parse_file_def)

subsection \<open>A key of a section\<close>

text \<open>The value of a key in the pairs of a section, or a default; and whether it has the type the program takes it for.\<close>

definition entry :: "('d toml \<Rightarrow> 'a option) \<Rightarrow> 'd table \<Rightarrow> string \<Rightarrow> 'a \<Rightarrow> 'a" where
  "entry conv t k d = (case map_of t k of None \<Rightarrow> d | Some v \<Rightarrow> the (conv v))"

definition typed :: "('d toml \<Rightarrow> 'a option) \<Rightarrow> 'd table \<Rightarrow> string \<Rightarrow> bool" where
  "typed conv t k \<longleftrightarrow> (case map_of t k of None \<Rightarrow> True | Some v \<Rightarrow> conv v \<noteq> None)"

definition value_of :: "('d toml \<Rightarrow> 'a option) \<Rightarrow> 'd item list \<Rightarrow> string \<Rightarrow> string \<Rightarrow> 'a \<Rightarrow> 'a" where
  "value_of conv items n k d = entry conv (section_pairs [n] items) k d"

fun readable :: "('d toml \<Rightarrow> 'a option) \<Rightarrow> 'd item list \<Rightarrow> string \<times> string \<Rightarrow> bool" where
  "readable conv items (n, k) \<longleftrightarrow> unshadowed items n k \<and> typed conv (section_pairs [n] items) k"

lemma typed_entry: "typed conv t k \<Longrightarrow> (case map_of t k of None \<Rightarrow> Inr d | Some b \<Rightarrow> deref (conv b)) = Inr (entry conv t k d)"
  by (auto simp: typed_def entry_def split: option.splits)

abbreviation tree :: "'d item list \<Rightarrow> 'd table" where
  "tree items \<equiv> fst (fold apply_item items ([], []))"

text \<open>The question every loader asks, on the tree and on the lines.\<close>

lemma qualified_value:
  assumes "items_ok items ([], [])" and "readable conv items (n, k)" and "split key (CHR ''.'') = [n, k]"
  shows "qualified_or conv (tree items) key d = Inr (value_of conv items n k d)"
proof -
  have "path_lookup (tree items) [n, k] = map_of (section_pairs [n] items) k"
    using document_value [OF assms(1)] assms(2) by simp
  then show ?thesis using assms(2) by (simp add: qualified_or_eq assms(3) value_of_def typed_entry del: path_lookup.simps)
qed

subsection \<open>Settings\<close>

definition network_of :: "'d item list \<Rightarrow> NetworkServerArgs" where
  "network_of items =
     \<lparr>poolSize = word_of_int (value_of as_int items ''Service'' ''PoolSize'' 64),
      net_port = word_of_int (value_of as_int items ''Network'' ''Port'' 3690),
      compressionLevel = word_of_int (value_of as_int items ''Network'' ''Compression'' 0),
      connectTimeout = word_of_int (value_of as_int items ''Network'' ''Timeout'' TIMEOUT_INFINITE),
      isDomainFilter = value_of as_bool items ''Network'' ''DomainFilter'' False,
      isTunnel = value_of as_bool items ''Network'' ''Tunnel'' False,
      net_address = value_of as_string items ''Network'' ''Address'' ''127.0.0.1'',
      domain = value_of as_string items ''Network'' ''Domain'' ''git.oschina.net''\<rparr>"

definition launcher_of :: "'d item list \<Rightarrow> LauncherArgs" where
  "launcher_of items =
     \<lparr>pidFile = value_of as_string items ''Daemon'' ''PidFile'' ''/tmp/svnsrv.pid'',
      log_access_file = value_of as_string items ''Logger'' ''Access'' ''/tmp/svnsrv.access.log'',
      log_error_file = value_of as_string items ''Logger'' ''Error'' ''/tmp/svnsrv.error.log'',
      routerFile = value_of as_string items ''Router'' ''RangeFile'' ''router.toml'',
      crashRestart = value_of as_bool items ''Daemon'' ''CrashRestart'' True\<rparr>"

text \<open>The keys the program asks for have values of its types, where they are given.\<close>

definition settings_readable :: "'d item list \<Rightarrow> bool" where
  "settings_readable items \<longleftrightarrow>
     list_all (readable as_int items) [(''Service'', ''PoolSize''), (''Network'', ''Port''), (''Network'', ''Compression''), (''Network'', ''Timeout'')] \<and>
     list_all (readable as_string items) [(''Network'', ''Address''), (''Network'', ''Domain''), (''Logger'', ''Access''), (''Logger'', ''Error''),
       (''Daemon'', ''PidFile''), (''Router'', ''RangeFile'')] \<and>
     list_all (readable as_bool items) [(''Network'', ''DomainFilter''), (''Network'', ''Tunnel''), (''Daemon'', ''CrashRestart'')]"

lemma lookup_qualified:
  "Strings g key s = qualified_or as_string g key s" "Boolean g key b = qualified_or as_bool g key b"
  "Integer g key v = andThen (qualified_or as_int g key v) (\<lambda>i. Inr (word_of_int i))"
  by (simp_all add: Strings_def Boolean_def qualified_or_def Integer_or)

lemmas qualified_keys = qualified_value [OF _ _ profile_paths(1)]
  qualified_value [OF _ _ profile_paths(2)]
  qualified_value [OF _ _ profile_paths(3)]
  qualified_value [OF _ _ profile_paths(4)]
  qualified_value [OF _ _ profile_paths(5)]
  qualified_value [OF _ _ profile_paths(6)]
  qualified_value [OF _ _ profile_paths(7)]
  qualified_value [OF _ _ profile_paths(8)]
  qualified_value [OF _ _ profile_paths(9)]
  qualified_value [OF _ _ profile_paths(10)]
  qualified_value [OF _ _ profile_paths(11)]
  qualified_value [OF _ _ profile_paths(12)]
  qualified_value [OF _ _ profile_paths(13)]

lemma document_settings:
  assumes "items_ok items ([], [])" and "settings_readable items"
  shows "read_network (tree items) = Inr (network_of items)" "read_launcher (tree items) = Inr (launcher_of items)"
  using assms(2) unfolding settings_readable_def
  by (simp_all add: read_network_def read_launcher_def lookup_qualified qualified_keys [OF assms(1)] network_of_def launcher_of_def del: readable.simps)

subsection \<open>The router table\<close>

text \<open>A list of pairs under \<open>[[Host.Content]]\<close>: without a range or an address it is passed over.\<close>

definition host_of :: "'d table \<Rightarrow> (string \<times> HostElement) option" where
  "host_of u =
     (if map_of u ''range'' = None \<or> map_of u ''address'' = None then None
      else Some (entry as_string u ''range'' [],
        \<lparr>begin_index = 0, end_index = 0, host_port = word_of_int (entry as_int u ''port'' 3690), enabled = entry as_bool u ''enable'' True,
         host_address = entry as_string u ''address'' []\<rparr>))"

definition host_readable :: "'d table \<Rightarrow> bool" where
  "host_readable u \<longleftrightarrow>
     (if map_of u ''range'' = None \<or> map_of u ''address'' = None then True
      else typed as_string u ''range'' \<and> range_bounds (entry as_string u ''range'' []) \<noteq> None \<and> typed as_string u ''address'' \<and>
        typed as_int u ''port'' \<and> typed as_bool u ''enable'')"

definition hosts_of :: "'d item list \<Rightarrow> (string \<times> HostElement) list" where
  "hosts_of items = List.map_filter host_of (elements [''Host'', ''Content''] items)"

definition default_address :: "'d item list \<Rightarrow> string" where
  "default_address items = value_of as_string items ''Host'' ''address'' ''192.168.1.12''"

definition default_port :: "'d item list \<Rightarrow> u16" where
  "default_port items = word_of_int (value_of as_int items ''Host'' ''port'' 3690)"

text \<open>At least one \<open>[[Host.Content]]\<close>; without one the program refuses the file.\<close>

definition routes_readable :: "'d item list \<Rightarrow> bool" where
  "routes_readable items \<longleftrightarrow>
     readable as_string items (''Host'', ''address'') \<and> readable as_int items (''Host'', ''port'') \<and> flat_elements items ''Host'' ''Content'' \<and>
     elements [''Host'', ''Content''] items \<noteq> [] \<and> list_all host_readable (elements [''Host'', ''Content''] items)"

lemma host_entry_of:
  assumes "host_readable u"
  shows "host_entry u = Inr (map_option (\<lambda>(s, e). with_range s e) (host_of u))"
proof (cases "map_of u ''range'' = None \<or> map_of u ''address'' = None")
  case True
  then show ?thesis by (auto simp: host_entry_def host_of_def router_lookup)
next
  case False
  then obtain s a where r: "map_of u ''range'' = Some (TString s)" "map_of u ''address'' = Some (TString a)" "range_bounds s \<noteq> None"
    and t: "typed as_int u ''port''" "typed as_bool u ''enable''"
    using assms by (auto simp: host_readable_def typed_def entry_def elim!: as_string.elims)
  obtain lo hi where b: "range_bounds s = Some (lo, hi)" using r(3) by auto
  obtain l h where h: "RangeToIndex (Some s) 0 0 = Inr (True, l, h)" using RangeToIndex_total by blast
  show ?thesis
    using r c_str_id [OF range_bounds_nul [OF b]] typed_entry [OF t(1)] typed_entry [OF t(2)]
    by (simp add: host_entry_def host_of_def router_lookup h with_range_def entry_def)
qed

lemma host_entries_of:
  "list_all host_readable us \<Longrightarrow> host_entries us = Inr (map (\<lambda>(s, e). with_range s e) (List.map_filter host_of us))"
  by (induction us) (auto simp: host_entry_of List.map_filter_simps split: option.splits)

lemma document_routes:
  assumes "read_file f = Inr (tree items)" and "items_ok items ([], [])" and "routes_readable items" and "f \<noteq> []" and "nul \<notin> set f"
    and "default_address items \<noteq> [] \<or> hosts_of items \<noteq> []"
  shows "InitializeRouterSeletor read_file f \<lparr>hostElement = [], defaultElement = [], defaultPort = q\<rparr> =
    Inr (True, \<lparr>hostElement = map (\<lambda>(s, e). with_range s e) (hosts_of items), defaultElement = default_address items, defaultPort = default_port items\<rparr>)"
proof -
  have r: "readable as_string items (''Host'', ''address'')" "readable as_int items (''Host'', ''port'')" "flat_elements items ''Host'' ''Content''"
    "elements [''Host'', ''Content''] items \<noteq> []" "list_all host_readable (elements [''Host'', ''Content''] items)"
    using assms(3) unfolding routes_readable_def by blast+
  have "get_table_array_qualified (tree items) ''Host.Content'' = Inr (Some (elements [''Host'', ''Content''] items))"
    using document_elements [OF assms(2) r(3)] r(4)
    by (simp add: get_table_array_qualified_eq router_paths elements_so_far_def del: path_lookup.simps)
  moreover have "qualified_or as_string (tree items) ''Host.address'' ''192.168.1.12'' = Inr (default_address items)"
    "qualified_or as_int (tree items) ''Host.port'' 3690 = Inr (value_of as_int items ''Host'' ''port'' 3690)"
    using qualified_value [OF assms(2) r(1)] qualified_value [OF assms(2) r(2)] by (simp_all add: router_paths default_address_def)
  ultimately show ?thesis
    using assms(1,4-6) host_entries_of [OF r(5)]
    by (simp add: InitializeRouterSeletor_def InitializeManager_def c_str_id hosts_of_def [symmetric] default_port_def)
qed

subsection \<open>The files of the repository\<close>

text \<open>\<open>config/svnsrv.toml\<close>.\<close>

definition shipped_settings_lines :: "string list" where
  "shipped_settings_lines =
     [''#svnsrv.toml'',
      ''#Subversion Protocol Daemon'',
      ''[Title]'',
      ''Description='' @ [dquote] @ ''svnsrv a subversion client access proxy server,backend git repository'' @ [dquote],
      ''Last='' @ [dquote] @ ''2015-11-12'' @ [dquote],
      ''Author='' @ [dquote] @ ''Force.Charlie'' @ [dquote],
      [],
      ''[Service]'',
      ''PoolSize=32'',
      [],
      ''[Daemon]'',
      ''CrashRestart=true'',
      ''PidFile='' @ [dquote] @ ''/tmp/svnsrv.pid'' @ [dquote],
      [],
      ''[Logger]'',
      ''Access='' @ [dquote] @ ''/tmp/svnsrv.access.log'' @ [dquote],
      ''Error='' @ [dquote] @ ''/tmp/svnsrv.error.log'' @ [dquote],
      [],
      ''[Router]'',
      ''RangeFile='' @ [dquote] @ ''router.toml'' @ [dquote],
      [],
      ''[Network]'',
      ''Timeout=6000'',
      ''#if IPv6 0::0'',
      ''Address='' @ [dquote] @ ''0.0.0.0'' @ [dquote],
      ''Port=3690'',
      ''Domain='' @ [dquote] @ ''git.oschina.net'' @ [dquote],
      ''DomainFilter=false'',
      ''# Compression 0~9 default 0'',
      ''Compression=0'',
      ''Tunnel=false'']"

text \<open>\<open>config/router.toml\<close>.\<close>

definition shipped_router_lines :: "string list" where
  "shipped_router_lines =
     [''[Host]'',
      ''description='' @ [dquote] @ ''svnsrv router table toml feature'' @ [dquote],
      ''author='' @ [dquote] @ ''Force Charlie'' @ [dquote],
      ''update=2015-12-09T15:19:00Z'',
      ''address='' @ [dquote] @ ''192.168.1.12'' @ [dquote],
      ''port=3690'',
      ''version=1'',
      ''subver=0'',
      ''old_version=0'',
      ''old_subver=0'',
      ''[[Host.Content]]'',
      ''range='' @ [dquote] @ ''A'' @ [dquote],
      ''address='' @ [dquote] @ ''192.168.1.12'' @ [dquote],
      ''port=3690'',
      ''enbale=true'',
      ''[[Host.Content]]'',
      ''range='' @ [dquote] @ ''B~D'' @ [dquote],
      ''address='' @ [dquote] @ ''192.168.1.13'' @ [dquote],
      ''enbale=true'',
      ''port=3690'',
      ''[[Host.Content]]'',
      ''range='' @ [dquote] @ ''E~Zz'' @ [dquote],
      ''address='' @ [dquote] @ ''192.168.1.14'' @ [dquote],
      ''enbale=true'',
      ''port=3690'',
      ''[[Host.Content]]'',
      ''range='' @ [dquote] @ ''aA~zz'' @ [dquote],
      ''address='' @ [dquote] @ ''192.168.1.15'' @ [dquote],
      ''enbale=true'',
      ''port=3690'']"

text \<open>What they say.\<close>

definition shipped_settings :: "nat item list" where
  "shipped_settings = concat (map section_items
     [(''Title'', [(''Description'', TString ''svnsrv a subversion client access proxy server,backend git repository''),
         (''Last'', TString ''2015-11-12''), (''Author'', TString ''Force.Charlie'')]),
      (''Service'', [(''PoolSize'', TInt 32)]),
      (''Daemon'', [(''CrashRestart'', TBool True), (''PidFile'', TString ''/tmp/svnsrv.pid'')]),
      (''Logger'', [(''Access'', TString ''/tmp/svnsrv.access.log''), (''Error'', TString ''/tmp/svnsrv.error.log'')]),
      (''Router'', [(''RangeFile'', TString ''router.toml'')]),
      (''Network'', [(''Timeout'', TInt 6000), (''Address'', TString ''0.0.0.0''), (''Port'', TInt 3690), (''Domain'', TString ''git.oschina.net''),
         (''DomainFilter'', TBool False), (''Compression'', TInt 0), (''Tunnel'', TBool False)])])"

definition shipped_routes :: "nat item list" where
  "shipped_routes = section_items (''Host'',
       [(''description'', TString ''svnsrv router table toml feature''), (''author'', TString ''Force Charlie''),
        (''update'', TDatetime \<lparr>year = 2015, month = 12, day = 9, hour = 15, minute = 19, second = 0, microsecond = 0,
           hour_offset = 0, minute_offset = 0\<rparr>),
        (''address'', TString ''192.168.1.12''), (''port'', TInt 3690), (''version'', TInt 1), (''subver'', TInt 0),
        (''old_version'', TInt 0), (''old_subver'', TInt 0)]) @
     concat (map (\<lambda>u. Element [''Host'', ''Content''] # pairs u)
       [[(''range'', TString ''A''), (''address'', TString ''192.168.1.12''), (''port'', TInt 3690), (''enbale'', TBool True)],
        [(''range'', TString ''B~D''), (''address'', TString ''192.168.1.13''), (''enbale'', TBool True), (''port'', TInt 3690)],
        [(''range'', TString ''E~Zz''), (''address'', TString ''192.168.1.14''), (''enbale'', TBool True), (''port'', TInt 3690)],
        [(''range'', TString ''aA~zz''), (''address'', TString ''192.168.1.15''), (''enbale'', TBool True), (''port'', TInt 3690)]])"

lemmas shipped_simps = shipped_settings_def shipped_routes_def section_items_def pairs_def

definition file_text :: "string list \<Rightarrow> string" where
  "file_text ls = concat (map (\<lambda>l. l @ [linefeed]) ls)"

lemma lines_of_lines: "\<forall>l \<in> set ls. linefeed \<notin> set l \<Longrightarrow> lines_of [] (file_text ls) = ls"
  by (induction ls) (simp_all add: lines_of_line file_text_def)

lemma spelled_by_plain_lines:
  assumes "map plain_line items = essential ls" and "\<forall>l \<in> set ls. linefeed \<notin> set l"
  shows "list_all2 spells items (essential (lines_of [] (file_text ls)))"
  unfolding lines_of_lines [OF assms(2)] assms(1) [symmetric] by (simp add: list_all2_map2 list_all2_conv_all_nth spells_plain)

lemma shipped_settings_spelled: "list_all2 spells shipped_settings (essential (lines_of [] (file_text shipped_settings_lines)))"
  by (rule spelled_by_plain_lines)
    (simp_all add: shipped_simps shipped_settings_lines_def essential_def is_layout_def
      consume_whitespace_def is_blank_def join_dots_def bool_text_def show_int_def show_nat.simps digit_chars)

lemma shipped_routes_spelled: "list_all2 spells shipped_routes (essential (lines_of [] (file_text shipped_router_lines)))"
  by (rule spelled_by_plain_lines)
    (simp_all add: shipped_simps shipped_router_lines_def essential_def is_layout_def
      consume_whitespace_def is_blank_def join_dots_def bool_text_def date_show_simps)

lemmas bare_simps = bare_key_def plain_key_char_def is_blank_def LONG_MIN_def LONG_MAX_def

lemma shipped_settings_ok: "items_ok shipped_settings ([], [])"
  by (simp add: shipped_simps bare_simps insert_key_def)

lemma shipped_routes_ok: "items_ok shipped_routes ([], [])"
  by (simp add: shipped_simps bare_simps takes_elements_def add_element_def insert_key_def datetime_ok_def)

lemma shipped_settings_readable: "settings_readable shipped_settings"
  by (simp add: settings_readable_def shipped_simps unshadowed_def typed_def)

lemma shipped_routes_readable: "routes_readable shipped_routes"
  by (simp add: routes_readable_def shipped_simps unshadowed_def typed_def flat_elements_def host_readable_def entry_def
      range_bounds_def plain_pair_def range_char_def ascii_def uchar_def Let_def)

lemma shipped_network: "network_of shipped_settings =
    \<lparr>poolSize = 32, net_port = 3690, compressionLevel = 0, connectTimeout = 6000, isDomainFilter = False, isTunnel = False,
     net_address = ''0.0.0.0'', domain = ''git.oschina.net''\<rparr>"
  by (simp add: network_of_def value_of_def entry_def shipped_simps)

lemma shipped_launcher: "launcher_of shipped_settings =
    \<lparr>pidFile = ''/tmp/svnsrv.pid'', log_access_file = ''/tmp/svnsrv.access.log'', log_error_file = ''/tmp/svnsrv.error.log'',
     routerFile = ''router.toml'', crashRestart = True\<rparr>"
  by (simp add: launcher_of_def value_of_def entry_def shipped_simps)

text \<open>The four hosts are enabled, since \<open>enbale\<close> is not a key the program knows.\<close>

abbreviation shipped_host :: "string \<Rightarrow> HostElement" where
  "shipped_host a \<equiv> \<lparr>begin_index = 0, end_index = 0, host_port = 3690, enabled = True, host_address = a\<rparr>"

definition shipped_hosts :: "(string \<times> HostElement) list" where
  "shipped_hosts = [(''A'', shipped_host ''192.168.1.12''), (''B~D'', shipped_host ''192.168.1.13''), (''E~Zz'', shipped_host ''192.168.1.14''),
     (''aA~zz'', shipped_host ''192.168.1.15'')]"

lemma shipped_table: "hosts_of shipped_routes = shipped_hosts" "default_address shipped_routes = ''192.168.1.12''" "default_port shipped_routes = 3690"
  by (simp_all add: hosts_of_def default_address_def default_port_def value_of_def entry_def shipped_simps shipped_hosts_def host_of_def
      List.map_filter_simps)

end
