(* ===== verification/Toml_Writer.thy ===== *)
theory Toml_Writer
  imports Toml_Text
begin

section \<open>Printing TOML (\<open>cpptoml.h\<close>: \<open>toml_writer\<close>, \<open>base::accept\<close>)\<close>

text \<open>
  The visitor that prints a tree: its members, one definition per function, and \<open>accept\<close>, which calls the \<open>visit\<close> of the
  concrete class. A table prints its values before its tables. \<open>for (const auto& i : t)\<close> goes over the entries
  in the order of the association list; the order of an \<open>unordered_map\<close> is not specified. How the stream prints a
  \<open>double\<close> with \<open>showpoint\<close> is the argument \<open>dtoa\<close>.

  The theorem is that the parser reads the printed text as the tree, with the values of every table before its tables.
\<close>

subsection \<open>The writer\<close>

record toml_writer =
  stream :: string
  path_stack :: "string list"
  has_naked_endline :: bool

definition new_writer :: toml_writer where
  "new_writer = \<lparr>stream = [], path_stack = [], has_naked_endline = False\<rparr>"

definition write_text :: "string \<Rightarrow> toml_writer \<Rightarrow> toml_writer" where
  "write_text s w = w\<lparr>stream := stream w @ s, has_naked_endline := False\<rparr>"

definition endline :: "toml_writer \<Rightarrow> toml_writer" where
  "endline w = (if \<not> has_naked_endline w then w\<lparr>stream := stream w @ [linefeed], has_naked_endline := True\<rparr> else w)"

text \<open>\<open>for (std::size_t i = 1; i < path_.size(); ++i)\<close>.\<close>

definition indent :: "toml_writer \<Rightarrow> toml_writer" where
  "indent w = ((write_text [CHR 0x09]) ^^ (length (path_stack w) - 1)) w"

definition word_char :: "char \<Rightarrow> bool" where
  "word_char c \<longleftrightarrow> c \<in> set ''ABCDEFGHIJKLMNOPQRSTUVWXYZabcdefghijklmnopqrstuvwxyz0123456789_-''"

text \<open>A part of a key: as it is if \<open>find_first_not_of\<close> finds nothing.\<close>

definition write_key :: "string \<Rightarrow> toml_writer \<Rightarrow> toml_writer" where
  "write_key k w =
     (if \<forall>c \<in> set k. word_char c then write_text k w
      else write_text [dquote] (write_text (escape_string k) (write_text [dquote] w)))"

fun write_parts :: "bool \<Rightarrow> string list \<Rightarrow> toml_writer \<Rightarrow> toml_writer" where
  "write_parts first [] w = w"
| "write_parts first (k # ks) w = write_parts False ks (write_key k (if first then w else write_text ''.'' w))"

definition write_table_header :: "bool \<Rightarrow> toml_writer \<Rightarrow> toml_writer" where
  "write_table_header in_array w =
     (if path_stack w = [] then w
      else
        let w1 = write_text ''['' (indent w);
            w2 = (if in_array then write_text ''['' w1 else w1);
            w3 = write_parts True (path_stack w2) w2;
            w4 = (if in_array then write_text '']'' w3 else w3)
        in endline (write_text '']'' w4))"

definition is_group :: "'d toml \<Rightarrow> bool" where
  "is_group v \<longleftrightarrow> is_table v \<or> is_table_array v"

definition write_table_item_header :: "bool \<Rightarrow> toml_writer \<Rightarrow> toml_writer" where
  "write_table_item_header grp w =
     (if \<not> grp then write_text '' = '' (write_key (last (path_stack w)) (indent w)) else w)"

definition push_path :: "string \<Rightarrow> toml_writer \<Rightarrow> toml_writer" where
  "push_path k w = w\<lparr>path_stack := path_stack w @ [k]\<rparr>"

definition pop_path :: "toml_writer \<Rightarrow> toml_writer" where
  "pop_path w = w\<lparr>path_stack := butlast (path_stack w)\<rparr>"

text \<open>
  The loops of \<open>visit(const table&)\<close> over \<open>values\<close> and \<open>tables\<close>; an entry is its key, whether it is a table or a table array, and what
  \<open>accept\<close> does for it. \<open>sep\<close> says whether the next entry begins with \<open>endline\<close>.
\<close>

type_synonym entry = "string \<times> bool \<times> (toml_writer \<Rightarrow> toml_writer)"

definition write_entry :: "entry \<Rightarrow> bool \<Rightarrow> toml_writer \<Rightarrow> toml_writer" where
  "write_entry e sep w =
     (case e of (k, grp, act) \<Rightarrow>
        let w1 = push_path k w; w2 = (if sep then endline w1 else w1)
        in pop_path (act (write_table_item_header grp w2)))"

fun write_entries :: "bool \<Rightarrow> entry list \<Rightarrow> toml_writer \<Rightarrow> toml_writer" where
  "write_entries sep [] w = w"
| "write_entries sep (e # es) w = write_entries True es (write_entry e sep w)"

definition visit_table :: "bool \<Rightarrow> entry list \<Rightarrow> toml_writer \<Rightarrow> toml_writer" where
  "visit_table in_array es w =
     (let vs = filter (\<lambda>(k, grp, act). \<not> grp) es; ts = filter (\<lambda>(k, grp, act). grp) es
      in endline (write_entries (vs \<noteq> []) ts (write_entries False vs (write_table_header in_array w))))"

fun visit_elements :: "bool \<Rightarrow> (toml_writer \<Rightarrow> toml_writer) list \<Rightarrow> toml_writer \<Rightarrow> toml_writer" where
  "visit_elements first [] w = w"
| "visit_elements first (act # acts) w = visit_elements False acts (act (if first then w else write_text '', '' w))"

definition visit_array :: "(toml_writer \<Rightarrow> toml_writer) list \<Rightarrow> toml_writer \<Rightarrow> toml_writer" where
  "visit_array acts w = write_text '']'' (visit_elements True acts (write_text ''['' w))"

fun visit_tables :: "bool \<Rightarrow> (toml_writer \<Rightarrow> toml_writer) list \<Rightarrow> toml_writer \<Rightarrow> toml_writer" where
  "visit_tables first [] w = w"
| "visit_tables first (act # acts) w = visit_tables False acts (act (if first then w else endline w))"

definition visit_table_array :: "(toml_writer \<Rightarrow> toml_writer) list \<Rightarrow> toml_writer \<Rightarrow> toml_writer" where
  "visit_table_array acts w = endline (visit_tables True acts w)"

text \<open>\<open>write\<close> for the five types of values, then \<open>accept\<close>.\<close>

fun write_value :: "('d \<Rightarrow> string) \<Rightarrow> 'd toml \<Rightarrow> toml_writer \<Rightarrow> toml_writer" where
  "write_value dtoa (TString s) = (\<lambda>w. write_text [dquote] (write_text (escape_string s) (write_text [dquote] w)))"
| "write_value dtoa (TInt i) = write_text (show_int i)"
| "write_value dtoa (TDouble x) = write_text (dtoa x)"
| "write_value dtoa (TDatetime dt) = write_text (show_datetime dt)"
| "write_value dtoa (TBool b) = write_text (if b then ''true'' else ''false'')"
| "write_value dtoa v = (\<lambda>w. w)"

function accept :: "('d \<Rightarrow> string) \<Rightarrow> bool \<Rightarrow> 'd toml \<Rightarrow> toml_writer \<Rightarrow> toml_writer" where
  "accept dtoa in_array (TString s) = write_value dtoa (TString s)"
| "accept dtoa in_array (TInt i) = write_value dtoa (TInt i)"
| "accept dtoa in_array (TDouble x) = write_value dtoa (TDouble x)"
| "accept dtoa in_array (TDatetime dt) = write_value dtoa (TDatetime dt)"
| "accept dtoa in_array (TBool b) = write_value dtoa (TBool b)"
| "accept dtoa in_array (TArray a) = visit_array (map (accept dtoa True) a)"
| "accept dtoa in_array (TTable t) = visit_table in_array (map (\<lambda>kv. (fst kv, is_group (snd kv), accept dtoa False (snd kv))) t)"
| "accept dtoa in_array (TTableArray ts) = visit_table_array (map (\<lambda>t. accept dtoa True (TTable t)) ts)"
  by pat_completeness auto
termination
proof (relation "measure (\<lambda>(dtoa, b, v). size_toml (\<lambda>_. 0) v)")
  fix a :: "'d toml list" and x :: "'d toml" and dtoa :: "'d \<Rightarrow> string" and b
  assume "x \<in> set a"
  then show "((dtoa, True, x), (dtoa, b, TArray a)) \<in> measure (\<lambda>(dtoa, b, v). size_toml (\<lambda>_. 0) v)"
    by (induction a) auto
next
  fix t :: "'d table" and kv :: "string \<times> 'd toml" and dtoa :: "'d \<Rightarrow> string" and b
  assume "kv \<in> set t"
  then show "((dtoa, False, snd kv), (dtoa, b, TTable t)) \<in> measure (\<lambda>(dtoa, b, v). size_toml (\<lambda>_. 0) v)"
    by (induction t) auto
next
  fix ts :: "'d table list" and t :: "'d table" and dtoa :: "'d \<Rightarrow> string" and b
  assume "t \<in> set ts"
  then show "((dtoa, True, TTable t), (dtoa, b, TTableArray ts)) \<in> measure (\<lambda>(dtoa, b, v). size_toml (\<lambda>_. 0) v)"
    by (induction ts) auto
qed simp

text \<open>\<open>operator<<\<close> for a table.\<close>

definition print_table :: "('d \<Rightarrow> string) \<Rightarrow> 'd table \<Rightarrow> string" where
  "print_table dtoa t = stream (accept dtoa False (TTable t) new_writer)"

subsection \<open>The text that is printed\<close>

lemma write_text_simps [simp]:
  "write_text s2 (write_text s1 w) = write_text (s1 @ s2) w"
  "path_stack (write_text s w) = path_stack w"
  "stream (write_text s w) = stream w @ s"
  "\<not> has_naked_endline (write_text s w)"
  by (simp_all add: write_text_def)

lemma endline_path [simp]: "path_stack (endline w) = path_stack w"
  by (simp add: endline_def)

definition word_key :: "string \<Rightarrow> bool" where
  "word_key k \<longleftrightarrow> k \<noteq> [] \<and> (\<forall>c \<in> set k. word_char c)"

lemma word_char_plain: "word_char c \<Longrightarrow> plain_key_char c"
  by (auto simp: word_char_def plain_key_char_def is_blank_def)

lemma word_key_bare: "word_key k \<Longrightarrow> bare_key k"
  by (simp add: word_key_def bare_key_def word_char_plain)

lemma write_word: "word_key k \<Longrightarrow> write_key k w = write_text k w"
  by (simp add: word_key_def write_key_def)

abbreviation tabs :: "nat \<Rightarrow> string" where
  "tabs n \<equiv> replicate n (CHR 0x09)"

lemma write_indent: "write_text s (indent w) = write_text (tabs (length (path_stack w) - 1) @ s) w"
proof -
  have "write_text s (((write_text [CHR 0x09]) ^^ n) w) = write_text (tabs n @ s) w" for n s
    by (induction n arbitrary: s) (simp_all add: replicate_append_same [symmetric] flip: append_assoc)
  then show ?thesis by (simp add: indent_def)
qed

lemma indent_path [simp]: "path_stack (indent w) = path_stack w"
proof -
  have "path_stack (((write_text [CHR 0x09]) ^^ n) w) = path_stack w" for n by (induction n) simp_all
  then show ?thesis by (simp add: indent_def)
qed

lemma write_more_parts:
  "\<forall>k \<in> set ks. word_key k \<Longrightarrow> write_parts False ks (write_text s w) = write_text (s @ concat (map (\<lambda>k. ''.'' @ k) ks)) w"
  by (induction ks arbitrary: s) (simp_all add: write_word)

lemma join_dots_concat: "join_dots (k # ks) = k @ concat (map (\<lambda>k. ''.'' @ k) ks)"
  by (induction ks arbitrary: k) (simp_all add: join_dots_simps)

lemma write_path:
  "ks \<noteq> [] \<Longrightarrow> \<forall>k \<in> set ks. word_key k \<Longrightarrow> write_parts True ks (write_text s w) = write_text (s @ join_dots ks) w"
  by (cases ks) (simp_all add: write_word write_more_parts join_dots_concat)

definition header_text :: "bool \<Rightarrow> string list \<Rightarrow> string" where
  "header_text in_array ps = (if in_array then ''[['' @ join_dots ps @ '']]'' else ''['' @ join_dots ps @ '']'')"

lemma write_header:
  assumes "path_stack w \<noteq> []" and "\<forall>k \<in> set (path_stack w). word_key k"
  shows "write_table_header in_array w =
    endline (write_text (tabs (length (path_stack w) - 1) @ header_text in_array (path_stack w)) w)"
  using assms by (simp add: write_table_header_def header_text_def write_indent write_path Let_def)

lemma accept_scalar: "scalar v \<Longrightarrow> accept dtoa b v = write_text (value_text v)"
  by (cases v) (simp_all add: bool_text_def fun_eq_iff)

subsection \<open>Lines that are printed\<close>

text \<open>Where a line begins, and what the lines so far say.\<close>

definition at_line :: "toml_writer \<Rightarrow> bool" where
  "at_line w \<longleftrightarrow> stream w = [] \<or> last (stream w) = linefeed"

definition writer_ok :: "toml_writer \<Rightarrow> bool" where
  "writer_ok w \<longleftrightarrow> (has_naked_endline w \<longrightarrow> at_line w)"

definition content :: "toml_writer \<Rightarrow> string list" where
  "content w = essential (lines_of [] (stream w))"

lemma lines_of_snoc: "lines_of p (s @ linefeed # r) = lines_of p (s @ [linefeed]) @ lines_of [] r"
  by (induction s arbitrary: p) simp_all

lemma lines_of_append: "s = [] \<or> last s = linefeed \<Longrightarrow> lines_of [] (s @ r) = lines_of [] s @ lines_of [] r"
  using lines_of_snoc [of "[]" "butlast s" r] by (cases "s = []") (auto, metis append.assoc append_Cons append_Nil append_butlast_last_id)

lemma essential_append: "essential (a @ b) = essential a @ essential b"
  by (simp add: essential_def)

lemma essential_line_end: "essential (lines_of p (s @ [linefeed])) = essential (lines_of p s)"
proof (induction s arbitrary: p)
  case Nil
  then show ?case by (simp add: essential_def is_layout_def consume_whitespace_def)
next
  case (Cons c s)
  then show ?case by (simp add: essential_def)
qed

lemma endline_facts:
  assumes "writer_ok w"
  shows "content (endline w) = content w" "at_line (endline w)" "writer_ok (endline w)"
  using assms by (simp_all add: endline_def content_def essential_line_end at_line_def writer_ok_def)

lemma write_line:
  assumes "at_line w" and "linefeed \<notin> set s" and "s \<noteq> []"
  shows "content (write_text s w) = content w @ essential [s]"
proof -
  have "lines_of [] s = [s]" using one_line [OF assms(2,3), of "[]"] by simp
  then show ?thesis using assms(1) lines_of_append [of "stream w" s] by (simp add: content_def at_line_def essential_append)
qed

text \<open>From \<open>w\<close> to \<open>w'\<close> the writer has printed lines that spell the items.\<close>

definition prints :: "'d item list \<Rightarrow> toml_writer \<Rightarrow> toml_writer \<Rightarrow> bool" where
  "prints items w w' \<longleftrightarrow> path_stack w' = path_stack w \<and> writer_ok w' \<and>
     (\<exists>ls. content w' = content w @ ls \<and> list_all2 spells items ls)"

lemma prints_nothing: "writer_ok w \<Longrightarrow> prints [] w w"
  by (simp add: prints_def)

lemma prints_trans: "prints a w w1 \<Longrightarrow> prints b w1 w2 \<Longrightarrow> prints (a @ b) w w2"
  unfolding prints_def by (metis append.assoc list_all2_appendI)

lemma prints_endline: "prints items w w' \<Longrightarrow> prints items w (endline w') \<and> at_line (endline w')"
  by (auto simp: prints_def endline_facts)

lemma prints_after_endline: "writer_ok w \<Longrightarrow> prints items (endline w) w' \<Longrightarrow> prints items w w'"
  by (simp add: prints_def endline_facts)

lemma consume_tabs: "consume_whitespace (tabs n @ s) = consume_whitespace s"
  by (rule consume_blanks) (simp add: is_blank_def)

lemma prints_line:
  assumes "at_line w" and "spells i s" and "linefeed \<notin> set s" and "consume_whitespace s = s" and "\<not> is_layout s"
  shows "prints [i] w (write_text (tabs n @ s) w)"
proof -
  have "s \<noteq> []" using assms(5) by (auto simp: is_layout_def)
  then have "content (write_text (tabs n @ s) w) = content w @ [s]"
    using write_line [OF assms(1), of "tabs n @ s"] assms(3-5) by (simp add: essential_def consume_tabs)
  then show ?thesis using assms(2) by (simp add: prints_def writer_ok_def)
qed

subsection \<open>What a tree says\<close>

lemma size_entry: "(k, v) \<in> set t \<Longrightarrow> size_toml f v < size_toml f (TTable t)"
  by (induction t) auto

lemma size_table: "t \<in> set ts \<Longrightarrow> size_toml f (TTable t) < size_toml f (TTableArray ts)"
  by (induction ts) auto

lemma size_sub_table: "(k, TTable u) \<in> set t \<Longrightarrow> size_toml f (TTable u) < size_toml f (TTable t)"
  using size_entry by blast

lemma size_sub_tables: "(k, TTableArray us) \<in> set t \<Longrightarrow> u \<in> set us \<Longrightarrow> size_toml f (TTable u) < size_toml f (TTable t)"
  using size_entry size_table less_trans by blast

declare toml.case_cong [fundef_cong]

abbreviation plain_entries :: "'d table \<Rightarrow> 'd table" where
  "plain_entries t \<equiv> filter (\<lambda>kv. \<not> is_group (snd kv)) t"

abbreviation group_entries :: "'d table \<Rightarrow> 'd table" where
  "group_entries t \<equiv> filter (\<lambda>kv. is_group (snd kv)) t"

text \<open>The tables a table can print: keys that are words, scalar values, table arrays that are not empty.\<close>

function printable :: "'d table \<Rightarrow> bool" where
  "printable t \<longleftrightarrow> distinct (map fst t) \<and>
     (\<forall>kv \<in> set t. word_key (fst kv) \<and>
        (case snd kv of
           TTable u \<Rightarrow> printable u
         | TTableArray us \<Rightarrow> us \<noteq> [] \<and> (\<forall>u \<in> set us. printable u)
         | v \<Rightarrow> scalar v))"
  by pat_completeness auto
termination
  by (relation "measure (\<lambda>t. size_toml (\<lambda>_. 0) (TTable t))") (auto intro: size_sub_table size_sub_tables simp del: toml.size)

text \<open>The tree that is read: in every table the values come first.\<close>

function arrange :: "'d table \<Rightarrow> 'd table" where
  "arrange t = plain_entries t @
     map (\<lambda>kv. (fst kv,
        case snd kv of
          TTable u \<Rightarrow> TTable (arrange u)
        | TTableArray us \<Rightarrow> TTableArray (map arrange us)
        | v \<Rightarrow> v)) (group_entries t)"
  by pat_completeness auto
termination
  by (relation "measure (\<lambda>t. size_toml (\<lambda>_. 0) (TTable t))") (auto intro: size_sub_table size_sub_tables simp del: toml.size)

function table_items :: "string list \<Rightarrow> 'd table \<Rightarrow> 'd item list" where
  "table_items path t = pairs (plain_entries t) @
     concat (map (\<lambda>kv.
        case snd kv of
          TTable u \<Rightarrow> Header (path @ [fst kv]) # table_items (path @ [fst kv]) u
        | TTableArray us \<Rightarrow> concat (map (\<lambda>u. Element (path @ [fst kv]) # table_items (path @ [fst kv]) u) us)
        | _ \<Rightarrow> []) (group_entries t))"
  by pat_completeness auto
termination
  by (relation "measure (\<lambda>(path, t). size_toml (\<lambda>_. 0) (TTable t))") (auto intro: size_sub_table size_sub_tables simp del: toml.size)

declare printable.simps [simp del] arrange.simps [simp del] table_items.simps [simp del]

definition group_items :: "string list \<Rightarrow> string \<times> 'd toml \<Rightarrow> 'd item list" where
  "group_items path kv =
     (case snd kv of
        TTable u \<Rightarrow> Header (path @ [fst kv]) # table_items (path @ [fst kv]) u
      | TTableArray us \<Rightarrow> concat (map (\<lambda>u. Element (path @ [fst kv]) # table_items (path @ [fst kv]) u) us)
      | _ \<Rightarrow> [])"

lemma table_items_parts: "table_items path t = pairs (plain_entries t) @ concat (map (group_items path) (group_entries t))"
  by (subst table_items.simps) (simp add: group_items_def [abs_def])

lemma printable_entry:
  assumes "printable t" and "(k, v) \<in> set t"
  shows "word_key k" "\<not> is_group v \<Longrightarrow> scalar v" "v = TTable u \<Longrightarrow> printable u"
    "v = TTableArray us \<Longrightarrow> us \<noteq> [] \<and> (\<forall>u \<in> set us. printable u)"
proof -
  have e: "word_key k \<and> (case v of TTable u \<Rightarrow> printable u | TTableArray us \<Rightarrow> us \<noteq> [] \<and> (\<forall>u \<in> set us. printable u) | v \<Rightarrow> scalar v)"
    using assms printable.simps [of t] by fastforce
  then show "word_key k" "v = TTable u \<Longrightarrow> printable u" "v = TTableArray us \<Longrightarrow> us \<noteq> [] \<and> (\<forall>u \<in> set us. printable u)" by simp_all
  show "\<not> is_group v \<Longrightarrow> scalar v" using e by (cases v) (simp_all add: is_group_def)
qed

lemma printable_distinct: "printable t \<Longrightarrow> distinct (map fst t)"
  by (subst (asm) printable.simps) simp

lemma is_group_cases:
  assumes "is_group v"
  obtains u where "v = TTable u" | us where "v = TTableArray us"
  using assms by (cases v) (simp_all add: is_group_def)

subsection \<open>Printing\<close>

lemma push_path_simps [simp]:
  "path_stack (push_path k w) = path_stack w @ [k]"
  "endline (push_path k w) = push_path k (endline w)"
  "pop_path (write_text s (push_path k w)) = write_text s w"
  by (simp_all add: push_path_def pop_path_def endline_def write_text_def)

lemma push_path_facts [simp]:
  "content (push_path k w) = content w" "at_line (push_path k w) = at_line w" "writer_ok (push_path k w) = writer_ok w"
  "content (pop_path w) = content w" "at_line (pop_path w) = at_line w" "writer_ok (pop_path w) = writer_ok w"
  by (simp_all add: push_path_def pop_path_def content_def at_line_def writer_ok_def)

lemma prints_push_pop: "prints items (push_path k w) w' \<Longrightarrow> prints items w (pop_path w')"
  unfolding prints_def push_path_facts push_path_simps(1) by (simp add: pop_path_def content_def writer_ok_def at_line_def)

text \<open>What an entry may begin on: a line, or behind a line that is not ended yet.\<close>

definition entry_start :: "string list \<Rightarrow> bool \<Rightarrow> toml_writer \<Rightarrow> bool" where
  "entry_start path sep w \<longleftrightarrow> writer_ok w \<and> path_stack w = path \<and> (\<not> sep \<longrightarrow> at_line w)"

lemma entry_starts:
  assumes "entry_start path sep w"
  shows "at_line (if sep then endline w else w)" "writer_ok (if sep then endline w else w)"
    "prints items (if sep then endline w else w) w' \<Longrightarrow> prints items w w'"
  using assms by (cases sep; auto simp: entry_start_def endline_facts intro: prints_after_endline)+

lemma key_line_text:
  "\<forall>c \<in> set b1. is_blank c \<Longrightarrow> \<forall>c \<in> set b2. is_blank c \<Longrightarrow> trailing r \<Longrightarrow>
     key_line (k, v) (k @ b1 @ ''='' @ b2 @ value_text v @ r)"
  by (auto simp: key_line_def)

lemma prints_value:
  assumes "entry_start path sep w" and "word_key k" and "scalar v"
  shows "prints [Setting k v] w (write_entry (k, False, accept dtoa False v) sep w)"
proof -
  let ?w = "if sep then endline w else w" and ?s = "k @ '' = '' @ value_text v"
  have p: "path_stack w = path" using assms(1) by (simp add: entry_start_def)
  have r: "write_entry (k, False, accept dtoa False v) sep w = write_text (tabs (length path) @ ?s) ?w"
    using p assms(2)
    by (simp add: write_entry_def write_table_item_header_def accept_scalar [OF assms(3)] write_word write_indent Let_def)
  have "spells (Setting k v) ?s"
    using key_line_text [of "'' ''" "'' ''" "[]" k v] by (simp add: is_blank_def trailing_def consume_whitespace_def)
  moreover have k: "bare_key k" using assms(2) by (rule word_key_bare)
  moreover from bare_key_head [OF this] have "consume_whitespace ?s = ?s" "\<not> is_layout ?s"
    by (metis append_Cons consume_plain) (metis bare_key_head [OF k] append_Cons is_layout_def list.distinct(1) list.sel(1))
  moreover have "linefeed \<notin> set ?s"
    using k value_text_one_line [OF assms(3)] by (auto simp: bare_key_def plain_key_char_def)
  ultimately have "prints [Setting k v] ?w (write_text (tabs (length path) @ ?s) ?w)"
    using entry_starts(1) [OF assms(1)] by (intro prints_line) simp_all
  then show ?thesis unfolding r by (rule entry_starts(3) [OF assms(1)])
qed

lemma prints_entries:
  assumes "\<And>kv sep w. kv \<in> set kvs \<Longrightarrow> entry_start path sep w \<Longrightarrow> prints (f kv) w (write_entry (g kv) sep w)"
    and "entry_start path sep w"
  shows "prints (concat (map f kvs)) w (write_entries sep (map g kvs) w)"
  using assms
proof (induction kvs arbitrary: sep w)
  case Nil
  then show ?case by (simp add: entry_start_def prints_nothing)
next
  case (Cons kv kvs)
  have e: "prints (f kv) w (write_entry (g kv) sep w)" using Cons.prems by simp
  then have "entry_start path True (write_entry (g kv) sep w)" using Cons.prems(2) by (simp add: entry_start_def prints_def)
  then have "prints (concat (map f kvs)) (write_entry (g kv) sep w) (write_entries True (map g kvs) (write_entry (g kv) sep w))"
    by (intro Cons.IH) (use Cons.prems(1) in auto)
  with e show ?case by (simp add: prints_trans)
qed

lemma prints_elements:
  assumes "\<And>u w. u \<in> set us \<Longrightarrow> entry_start path False w \<Longrightarrow> prints (f u) w (act u w) \<and> at_line (act u w)"
    and "entry_start path False w"
  shows "prints (concat (map f us)) w (visit_tables first (map act us) w)"
  using assms
proof (induction us arbitrary: first w)
  case Nil
  then show ?case by (simp add: entry_start_def prints_nothing)
next
  case (Cons u us)
  let ?w = "if first then w else endline w"
  have start: "entry_start path False ?w" using Cons.prems(2) by (simp add: entry_start_def endline_facts)
  then have e: "prints (f u) ?w (act u ?w)" "at_line (act u ?w)" using Cons.prems(1) by auto
  then have "prints (f u) w (act u ?w)" using Cons.prems(2) prints_after_endline by (cases first) (auto simp: entry_start_def)
  moreover have "entry_start path False (act u ?w)" using e start by (simp add: entry_start_def prints_def)
  then have "prints (concat (map f us)) (act u ?w) (visit_tables False (map act us) (act u ?w))"
    by (intro Cons.IH) (use Cons.prems(1) in auto)
  ultimately show ?case by (simp add: prints_trans)
qed

lemma header_item_facts:
  assumes "ps \<noteq> []" and "\<forall>p \<in> set ps. word_key p"
  shows "spells (if b then Element ps else Header ps) (header_text b ps)" "linefeed \<notin> set (header_text b ps)"
    "consume_whitespace (header_text b ps) = header_text b ps" "\<not> is_layout (header_text b ps)"
proof -
  have "linefeed \<notin> set (join_dots ps)"
    using assms word_key_bare by (intro join_dots_no) (auto simp: bare_key_def plain_key_char_def)
  then show "linefeed \<notin> set (header_text b ps)" by (simp add: header_text_def)
  show "spells (if b then Element ps else Header ps) (header_text b ps)"
    using spells_plain [of "if b then Element ps else Header ps"] by (cases b) (simp_all add: header_text_def)
  show "consume_whitespace (header_text b ps) = header_text b ps" "\<not> is_layout (header_text b ps)"
    by (simp_all add: header_text_def consume_whitespace_def is_blank_def is_layout_def)
qed

definition header_items :: "bool \<Rightarrow> string list \<Rightarrow> 'd item list" where
  "header_items b ps = (if ps = [] then [] else [if b then Element ps else Header ps])"

lemma prints_header:
  assumes "entry_start path False w" and "\<forall>p \<in> set path. word_key p"
  shows "prints (header_items b path) w (write_table_header b w) \<and> at_line (write_table_header b w)"
proof (cases "path = []")
  case True
  with assms show ?thesis by (simp add: write_table_header_def header_items_def entry_start_def prints_nothing)
next
  case False
  have p: "path_stack w = path" "at_line w" using assms(1) by (simp_all add: entry_start_def)
  have "prints [if b then Element path else Header path] w (write_text (tabs (length path - 1) @ header_text b path) w)"
    using p(2) header_item_facts(2-4) [OF False assms(2)] by (intro prints_line header_item_facts(1) [OF False assms(2)]) simp_all
  from prints_endline [OF this] show ?thesis
    using False assms(2) p(1) by (simp add: write_header header_items_def)
qed

text \<open>What \<open>visit(const table&)\<close> prints, and where it leaves the stream.\<close>

lemma accept_prints:
  fixes t :: "'d table"
  assumes "printable t" and "entry_start path False w" and "\<forall>p \<in> set path. word_key p"
  shows "prints (header_items b path @ table_items path t) w (accept dtoa b (TTable t) w) \<and> at_line (accept dtoa b (TTable t) w)"
  using assms
proof (induction "size_toml (\<lambda>_. 0) (TTable t)" arbitrary: t b path w rule: less_induct)
  case less
  let ?g = "\<lambda>kv. (fst kv, is_group (snd kv), accept dtoa False (snd kv))"
  let ?vs = "plain_entries t" and ?ts = "group_entries t"
  let ?w1 = "write_table_header b w"
  let ?w2 = "write_entries False (map ?g ?vs) ?w1"
  let ?w3 = "write_entries (?vs \<noteq> []) (map ?g ?ts) ?w2"
  have acc: "accept dtoa b (TTable t) w = endline ?w3"
    by (simp add: visit_table_def filter_map comp_def Let_def filter_empty_conv)
  have 1: "prints (header_items b path :: 'd item list) w ?w1" "at_line ?w1" using prints_header [OF less.prems(2,3)] by auto
  then have s1: "entry_start path False ?w1" using less.prems(2) by (simp add: entry_start_def prints_def)
  have vals: "prints [Setting (fst kv) (snd kv)] w' (write_entry (?g kv) sep w')" if "kv \<in> set ?vs" "entry_start path sep w'" for kv sep w'
    using that printable_entry(1,2) [OF less.prems(1), of "fst kv" "snd kv"] by (simp add: prints_value)
  have "prints (concat (map (\<lambda>kv. [Setting (fst kv) (snd kv)]) ?vs)) ?w1 ?w2" by (rule prints_entries [OF vals s1])
  then have 2: "prints (pairs ?vs) ?w1 ?w2" by (simp add: pairs_def split_def)
  have s2: "entry_start path (?vs \<noteq> []) ?w2" using 2 s1 1(2) by (auto simp: entry_start_def prints_def)
  have groups: "prints (group_items path kv) w' (write_entry (?g kv) sep w')" if kv: "kv \<in> set ?ts" and st: "entry_start path sep w'" for kv sep w'
  proof -
    obtain k v where k: "kv = (k, v)" "(k, v) \<in> set t" "is_group v" using kv by (intro that [of "fst kv" "snd kv"]) auto
    let ?w' = "push_path k (if sep then endline w' else w')" and ?p = "path @ [k]"
    have start: "entry_start ?p False ?w'"
      using entry_starts(1,2) [OF st] st by (auto simp: entry_start_def)
    have keys: "\<forall>p \<in> set ?p. word_key p" using less.prems(3) printable_entry(1) [OF less.prems(1) k(2)] by simp
    have "prints (group_items path kv) ?w' (accept dtoa False v ?w')"
      using k(3)
    proof (cases v rule: is_group_cases)
      case (1 u)
      have "prints (header_items False ?p @ table_items ?p u) ?w' (accept dtoa False (TTable u) ?w')"
        using less.hyps [OF _ printable_entry(3) [OF less.prems(1) k(2) 1] start keys] size_sub_table k(2) 1 by blast
      then show ?thesis using k(1) 1 by (simp add: group_items_def header_items_def)
    next
      case (2 us)
      have us: "u \<in> set us \<Longrightarrow> printable u" for u using printable_entry(4) [OF less.prems(1) k(2) 2] by simp
      have "prints (Element ?p # table_items ?p u) w'' (accept dtoa True (TTable u) w'') \<and> at_line (accept dtoa True (TTable u) w'')"
        if "u \<in> set us" "entry_start ?p False w''" for u w''
        using less.hyps [OF _ us [OF that(1)] that(2) keys, of True] size_sub_tables [OF _ that(1)] k(2) 2 by (simp add: header_items_def)
      then have "prints (concat (map (\<lambda>u. Element ?p # table_items ?p u) us)) ?w' (visit_tables True (map (\<lambda>t. accept dtoa True (TTable t)) us) ?w')"
        by (rule prints_elements [OF _ start])
      from prints_endline [OF this] show ?thesis using k(1) 2 by (simp add: group_items_def visit_table_array_def)
    qed
    from prints_push_pop [OF this] have "prints (group_items path kv) (if sep then endline w' else w') (write_entry (?g kv) sep w')"
      using k by (cases sep) (simp_all add: write_entry_def write_table_item_header_def)
    then show ?thesis by (rule entry_starts(3) [OF st])
  qed
  have "prints (concat (map (group_items path) ?ts)) ?w2 ?w3" by (rule prints_entries [OF groups s2])
  with 1(1) 2 have "prints (header_items b path @ pairs ?vs @ concat (map (group_items path) ?ts)) w ?w3" by (blast intro: prints_trans)
  from prints_endline [OF this] show ?case unfolding acc table_items_parts .
qed

subsection \<open>Reading what was printed\<close>

lemma items_ok_append: "items_ok (a @ b) s \<longleftrightarrow> items_ok a s \<and> items_ok b (fold apply_item a s)"
  by (induction a arbitrary: s) simp_all

lemma update_at_append: "update_at (ps @ qs) f root = update_at ps (update_at qs f) root"
  by (induction ps arbitrary: root) (auto split: option.splits toml.splits)

text \<open>A table at \<open>path\<close> with one more entry behind the others, and the table that is that entry.\<close>

definition grown :: "string list \<Rightarrow> string \<Rightarrow> 'd toml \<Rightarrow> 'd table \<Rightarrow> 'd table" where
  "grown path k v root = update_at path (\<lambda>t. t @ [(k, v)]) root"

lemma grown_at: "table_at path root = Some t \<Longrightarrow> table_at path (grown path k v root) = Some (t @ [(k, v)])"
  by (simp add: grown_def table_at_update)

lemma grown_inner:
  assumes "table_at path root = Some t" and "k \<notin> fst ` set t"
  shows "table_at (path @ [k]) (grown path k (TTable u) root) = Some u"
    "update_at (path @ [k]) f (grown path k (TTable u) root) = grown path k (TTable (f u)) root"
    "table_at (path @ [k]) (grown path k (TTableArray (us @ [u])) root) = Some u"
    "update_at (path @ [k]) f (grown path k (TTableArray (us @ [u])) root) = grown path k (TTableArray (us @ [f u])) root"
proof -
  note m = map_of_fresh_last [OF assms(2)]
  show "table_at (path @ [k]) (grown path k (TTable u) root) = Some u"
    "table_at (path @ [k]) (grown path k (TTableArray (us @ [u])) root) = Some u"
    by (simp_all add: table_at_append grown_at [OF assms(1)] m del: map_of_append)
  show "update_at (path @ [k]) f (grown path k (TTable u) root) = grown path k (TTable (f u)) root"
    "update_at (path @ [k]) f (grown path k (TTableArray (us @ [u])) root) = grown path k (TTableArray (us @ [f u])) root"
    unfolding update_at_append grown_def update_at_twice [OF assms(1)]
    by (rule update_at_cong [OF assms(1)], simp add: m update_last [OF assms(2)] del: map_of_append)+
qed

lemma apply_header:
  assumes "table_at path root = Some t" and "k \<notin> fst ` set t" and "\<forall>p \<in> set path. bare_key p" and "bare_key k"
  shows "item_ok (Header (path @ [k])) (root, ps)" "apply_item (Header (path @ [k])) (root, ps) = (grown path k (TTable []) root, path @ [k])"
  using assms by (simp_all add: list_all_iff grown_def)

text \<open>\<open>us\<close> are the elements so far.\<close>

definition grown_array :: "string list \<Rightarrow> string \<Rightarrow> 'd table list \<Rightarrow> 'd table \<Rightarrow> 'd table" where
  "grown_array path k us root = (if us = [] then root else grown path k (TTableArray us) root)"

lemma apply_element:
  assumes "table_at path root = Some t" and "k \<notin> fst ` set t" and "\<forall>p \<in> set path. bare_key p" and "bare_key k"
  shows "item_ok (Element (path @ [k])) (grown_array path k us root, ps)"
    "apply_item (Element (path @ [k])) (grown_array path k us root, ps) = (grown_array path k (us @ [[]]) root, path @ [k])"
proof -
  note m = map_of_fresh_last [OF assms(2)]
  have n: "map_of t k = None" using assms(2) by (simp add: map_of_eq_None_iff)
  have "case table_at path (grown_array path k us root) of None \<Rightarrow> False | Some t \<Rightarrow> takes_elements t k"
    using assms(1) n by (simp add: grown_array_def grown_at [OF assms(1)] takes_elements_def m del: map_of_append)
  then show "item_ok (Element (path @ [k])) (grown_array path k us root, ps)"
    using assms(3,4) by (simp add: list_all_iff split: option.splits)
  have "update_at path (add_element k) (grown_array path k us root) = grown path k (TTableArray (us @ [[]])) root"
  proof (cases "us = []")
    case True
    then show ?thesis using n update_at_cong [OF assms(1), of "add_element k" "\<lambda>t. t @ [(k, TTableArray [[]])]"]
      by (simp add: grown_array_def grown_def add_element_def update_fresh [OF assms(2)])
  next
    case False
    then have a: "grown_array path k us root = update_at path (\<lambda>t. t @ [(k, TTableArray us)]) root" by (simp add: grown_array_def grown_def)
    show ?thesis
      unfolding a grown_def update_at_twice [OF assms(1)]
      by (intro update_at_cong [OF assms(1)]) (simp add: add_element_def m update_last [OF assms(2)] del: map_of_append)
  qed
  then show "apply_item (Element (path @ [k])) (grown_array path k us root, ps) = (grown_array path k (us @ [[]]) root, path @ [k])"
    by (simp add: grown_array_def)
qed

text \<open>Following the items \<open>is\<close> from \<open>root\<close> leads to \<open>root'\<close>.\<close>

definition leads :: "'d item list \<Rightarrow> 'd table \<times> string list \<Rightarrow> 'd table \<Rightarrow> bool" where
  "leads items s root' \<longleftrightarrow> items_ok items s \<and> fst (fold apply_item items s) = root'"

lemma leads_nil: "leads [] (root, ps) root"
  by (simp add: leads_def)

lemma leads_step: "item_ok i s \<Longrightarrow> leads items (apply_item i s) root' \<Longrightarrow> leads (i # items) s root'"
  by (simp add: leads_def)

lemma leads_append:
  assumes "leads a s root1" and "\<And>ps. leads b (root1, ps) root2"
  shows "leads (a @ b) s root2"
proof -
  obtain ps where "fold apply_item a s = (root1, ps)" using assms(1) by (cases "fold apply_item a s") (simp add: leads_def)
  with assms show ?thesis by (simp add: leads_def items_ok_append)
qed

definition arrange_value :: "'d toml \<Rightarrow> 'd toml" where
  "arrange_value v = (case v of TTable u \<Rightarrow> TTable (arrange u) | TTableArray us \<Rightarrow> TTableArray (map arrange us) | _ \<Rightarrow> v)"

lemma arrange_parts: "arrange t = plain_entries t @ map (\<lambda>kv. (fst kv, arrange_value (snd kv))) (group_entries t)"
  by (subst arrange.simps) (auto simp: arrange_value_def split: toml.splits)

text \<open>One group, given what its tables lead to.\<close>

definition table_leads :: "string list \<Rightarrow> 'd table \<Rightarrow> bool" where
  "table_leads path u \<longleftrightarrow> (\<forall>root. table_at path root = Some [] \<longrightarrow>
     leads (table_items path u) (root, path) (update_at path (\<lambda>_. arrange u) root))"

lemma table_leadsD:
  "table_leads path u \<Longrightarrow> table_at path root = Some [] \<Longrightarrow> leads (table_items path u) (root, path) (update_at path (\<lambda>_. arrange u) root)"
  by (simp add: table_leads_def)

lemma elements_lead:
  assumes "table_at path root = Some t" and "k \<notin> fst ` set t" and "\<forall>p \<in> set path. bare_key p" and "bare_key k"
    and "\<forall>u \<in> set us. table_leads (path @ [k]) u"
  shows "leads (concat (map (\<lambda>u. Element (path @ [k]) # table_items (path @ [k]) u) us)) (grown_array path k xs root, ps)
    (grown_array path k (xs @ map arrange us) root)"
  using assms(5)
proof (induction us arbitrary: xs ps)
  case Nil
  then show ?case by (simp add: leads_nil)
next
  case (Cons u us)
  let ?p = "path @ [k]"
  have g: "grown_array path k (xs @ [v]) root = grown path k (TTableArray (xs @ [v])) root" for v by (simp add: grown_array_def)
  have "leads (table_items ?p u) (grown_array path k (xs @ [[]]) root, ?p) (grown_array path k (xs @ [arrange u]) root)"
    using table_leadsD [OF _ grown_inner(3) [OF assms(1,2)], of u xs] Cons.prems
    by (simp add: grown_inner(4) [OF assms(1,2)] g)
  then have "leads (Element ?p # table_items ?p u) (grown_array path k xs root, ps) (grown_array path k (xs @ [arrange u]) root)"
    using apply_element [OF assms(1-4), of xs ps] by (intro leads_step) (simp_all del: item_ok.simps apply_item.simps)
  from leads_append [OF this Cons.IH [of "xs @ [arrange u]"]] Cons.prems show ?case by simp
qed

lemma group_leads:
  assumes "table_at path root = Some t" and "k \<notin> fst ` set t" and "\<forall>p \<in> set path. bare_key p" and "bare_key k"
    and "is_group v" and "\<And>u. v = TTable u \<Longrightarrow> table_leads (path @ [k]) u"
    and "\<And>us. v = TTableArray us \<Longrightarrow> us \<noteq> [] \<and> (\<forall>u \<in> set us. table_leads (path @ [k]) u)"
  shows "leads (group_items path (k, v)) (root, ps) (grown path k (arrange_value v) root)"
  using assms(5)
proof (cases v rule: is_group_cases)
  case (1 u)
  have "leads (table_items (path @ [k]) u) (grown path k (TTable []) root, path @ [k]) (grown path k (TTable (arrange u)) root)"
    using table_leadsD [OF assms(6) [OF 1] grown_inner(1) [OF assms(1,2)]] by (simp add: grown_inner(2) [OF assms(1,2)])
  then show ?thesis
    using apply_header [OF assms(1-4), of ps] 1
    by (simp add: group_items_def arrange_value_def leads_step del: item_ok.simps apply_item.simps)
next
  case (2 us)
  then show ?thesis
    using elements_lead [OF assms(1-4), of us "[]" ps] assms(7) [OF 2] by (simp add: group_items_def arrange_value_def grown_array_def)
qed

lemma groups_lead:
  assumes "table_at path root = Some t" and "distinct (map fst kvs)" and "fst ` set t \<inter> fst ` set kvs = {}"
    and "\<And>k v root t ps. (k, v) \<in> set kvs \<Longrightarrow> table_at path root = Some t \<Longrightarrow> k \<notin> fst ` set t \<Longrightarrow>
      leads (group_items path (k, v)) (root, ps) (grown path k (arrange_value v) root)"
  shows "leads (concat (map (group_items path) kvs)) (root, ps)
    (update_at path (\<lambda>t. t @ map (\<lambda>kv. (fst kv, arrange_value (snd kv))) kvs) root)"
  using assms
proof (induction kvs arbitrary: root t ps)
  case Nil
  then show ?case by (simp add: leads_nil update_at_id)
next
  case (Cons kv kvs)
  obtain k v where kv: "kv = (k, v)" by (cases kv)
  let ?root = "grown path k (arrange_value v) root"
  have "leads (group_items path (k, v)) (root, ps) ?root"
    by (rule Cons.prems(4) [OF _ Cons.prems(1)]) (use Cons.prems(3) kv in auto)
  moreover have "leads (concat (map (group_items path) kvs)) (?root, qs)
      (update_at path (\<lambda>t. t @ map (\<lambda>kv. (fst kv, arrange_value (snd kv))) kvs) ?root)" for qs
  proof (rule Cons.IH [OF grown_at [OF Cons.prems(1)]])
    show "distinct (map fst kvs)" using Cons.prems(2) by simp
    have "k \<notin> fst ` set kvs" using Cons.prems(2) kv by (simp flip: set_map)
    then show "fst ` set (t @ [(k, arrange_value v)]) \<inter> fst ` set kvs = {}" using Cons.prems(3) kv by auto
  qed (use Cons.prems(4) in auto)
  ultimately have "leads (concat (map (group_items path) (kv # kvs))) (root, ps)
      (update_at path (\<lambda>t. t @ map (\<lambda>kv. (fst kv, arrange_value (snd kv))) kvs) ?root)"
    unfolding kv by (simp add: leads_append)
  then show ?case by (simp add: kv grown_def update_at_twice [OF Cons.prems(1)])
qed

lemma table_leads_printable: "printable t \<Longrightarrow> \<forall>p \<in> set path. bare_key p \<Longrightarrow> table_leads path t"
proof (induction "size_toml (\<lambda>_. 0) (TTable t)" arbitrary: t path rule: less_induct)
  case less
  show ?case
    unfolding table_leads_def
  proof (intro allI impI)
    fix root :: "'a table" assume root: "table_at path root = Some []"
    let ?vs = "plain_entries t" and ?ts = "group_entries t"
    have dist: "distinct (map fst t)" using less.prems(1) by (rule printable_distinct)
    have "plain_pairs ?vs"
      using printable_entry(1,2) [OF less.prems(1)] word_key_bare distinct_map_filter [OF dist] by (auto simp: plain_pairs_def)
    from pairs_ok [OF root this, of "[]"] fold_pairs [OF root, of ?vs]
    have vals: "leads (pairs ?vs) (root, path) (update_at path (\<lambda>t. t @ ?vs) root)" by (simp add: leads_def)
    let ?root = "update_at path (\<lambda>t. t @ ?vs) root"
    have at: "table_at path ?root = Some ?vs" using table_at_update [OF root, of "\<lambda>t. t @ ?vs"] by simp
    have "fst ` set ?vs \<inter> fst ` set ?ts = {}"
      using dist by (auto simp: distinct_map inj_on_def)
    have groups: "leads (group_items path (k, v)) (root', ps) (grown path k (arrange_value v) root')"
      if kv: "(k, v) \<in> set ?ts" and at': "table_at path root' = Some t'" and fresh: "k \<notin> fst ` set t'" for k v root' t' ps
    proof -
      have kv': "(k, v) \<in> set t" "is_group v" using kv by auto
      note entry = printable_entry [OF less.prems(1) kv'(1)]
      have keys: "\<forall>p \<in> set (path @ [k]). bare_key p" using less.prems(2) entry(1) word_key_bare by auto
      show ?thesis
      proof (rule group_leads [OF at' fresh _ _ kv'(2)])
        show "table_leads (path @ [k]) u" if "v = TTable u" for u
          using less.hyps [OF size_sub_table entry(3) [OF that] keys] kv'(1) that by blast
        show "us \<noteq> [] \<and> (\<forall>u \<in> set us. table_leads (path @ [k]) u)" if "v = TTableArray us" for us
          using less.hyps [OF size_sub_tables _ keys] entry(4) [OF that] kv'(1) that by blast
      qed (use keys in auto)
    qed
    have "leads (concat (map (group_items path) ?ts)) (?root, ps)
        (update_at path (\<lambda>t. t @ map (\<lambda>kv. (fst kv, arrange_value (snd kv))) ?ts) ?root)" for ps
      using groups distinct_map_filter [OF dist] \<open>fst ` set ?vs \<inter> fst ` set ?ts = {}\<close> by (intro groups_lead [OF at]) auto
    from leads_append [OF vals this]
    have "leads (table_items path t) (root, path)
        (update_at path (\<lambda>t. t @ map (\<lambda>kv. (fst kv, arrange_value (snd kv))) ?ts) ?root)" by (simp add: table_items_parts)
    also have "update_at path (\<lambda>t. t @ map (\<lambda>kv. (fst kv, arrange_value (snd kv))) ?ts) ?root = update_at path (\<lambda>_. arrange t) root"
      unfolding update_at_twice [OF root] by (rule update_at_cong [OF root]) (simp add: arrange_parts)
    finally show "leads (table_items path t) (root, path) (update_at path (\<lambda>_. arrange t) root)" .
  qed
qed

subsection \<open>The round trip\<close>

lemma map_of_split:
  assumes "distinct (map fst t)"
  shows "map_of (filter (\<lambda>kv. \<not> P (snd kv)) t @ map (\<lambda>kv. (fst kv, f (snd kv))) (filter (\<lambda>kv. P (snd kv)) t)) k =
    map_option (\<lambda>v. if P v then f v else v) (map_of t k)"
  using assms
proof (induction t)
  case (Cons kv t)
  obtain j v where kv: "kv = (j, v)" by (cases kv)
  have "map_of (filter (\<lambda>kv. \<not> P (snd kv)) t) j = None" using Cons.prems kv by (auto simp: map_of_eq_None_iff)
  with Cons kv show ?case by (auto simp: map_add_def split: option.splits)
qed simp

lemma map_of_arrange:
  assumes "printable t"
  shows "map_of (arrange t) k = map_option arrange_value (map_of t k)"
proof -
  have "arrange_value v = v" if "\<not> is_group v" for v :: "'a toml" using that by (cases v) (simp_all add: is_group_def arrange_value_def)
  then have "(if is_group v then arrange_value v else v) = arrange_value v" for v :: "'a toml" by simp
  then show ?thesis using map_of_split [OF printable_distinct [OF assms], of is_group arrange_value k] by (simp add: arrange_parts)
qed

lemma path_lookup_arrange: "printable t \<Longrightarrow> path_lookup (arrange t) ks = map_option arrange_value (path_lookup t ks)"
proof (induction t ks rule: path_lookup.induct)
  case (3 t k j ks)
  show ?case
  proof (cases "map_of t k")
    case None
    then show ?thesis by (simp add: map_of_arrange [OF "3.prems"])
  next
    case (Some v)
    then have "(k, v) \<in> set t" by (rule map_of_SomeD)
    with "3.IH" Some printable_entry(3) [OF "3.prems"] show ?thesis
      by (cases v) (auto simp: map_of_arrange [OF "3.prems"] arrange_value_def)
  qed
qed (simp_all add: map_of_arrange)

lemma print_leads:
  assumes "printable t"
  shows "list_all2 spells (table_items [] t) (essential (lines_of [] (print_table dtoa t)))"
    and "leads (table_items [] t) ([], []) (arrange t)"
proof -
  have "entry_start [] False new_writer" by (simp add: entry_start_def new_writer_def writer_ok_def at_line_def)
  from accept_prints [OF assms this, of False dtoa]
  show "list_all2 spells (table_items [] t) (essential (lines_of [] (print_table dtoa t)))"
    by (auto simp: prints_def print_table_def header_items_def content_def new_writer_def essential_def)
  have "table_leads [] t" using assms by (rule table_leads_printable) simp
  from table_leadsD [OF this, of "[]"] show "leads (table_items [] t) ([], []) (arrange t)" by simp
qed

text \<open>
  C15: What the writer prints the parser reads back: for a tree whose keys are words, whose values are strings, integers in range, booleans
  and dates, and whose table arrays are not empty, the printed text is read as that tree, with the values of every table before
  its tables. Every path of keys then leads to the value it led to. The dates are those the format can hold: no part has more digits than its place, and the hour and the minute of the offset
  have the same sign, the minute being no more than 0 when the hour is 0. So an offset like +00:30 is excluded, which the parser reads and the writer prints as -00:30 (\<open>date_changes_when_rewritten\<close>).
\<close>

theorem printed_table_roundtrip:
  assumes "printable t"
  shows "parse stod (print_table dtoa t) = Some (Inr (arrange t)) \<and>
    path_lookup (arrange t) ks = map_option arrange_value (path_lookup t ks)"
  using document_reads [OF print_leads(1) [OF assms], of stod] print_leads(2) [OF assms] path_lookup_arrange [OF assms]
  by (simp add: leads_def)

definition example_tree :: "nat table" where
  "example_tree =
     [(''Network'', TTable [(''Port'', TInt 3690), (''Limits'', TTable []), (''Tunnel'', TBool True)]),
      (''Host'', TTableArray [[(''range'', TString ''A~Zz'')], []]), (''title'', TString [dquote])]"

theorem printed_table_roundtrip_witness:
  "parse (\<lambda>_. None :: nat option) (print_table (\<lambda>_. []) example_tree) =
    Some (Inr [(''title'', TString [dquote]),
      (''Network'', TTable [(''Port'', TInt 3690), (''Tunnel'', TBool True), (''Limits'', TTable [])]),
      (''Host'', TTableArray [[(''range'', TString ''A~Zz'')], []])])"
proof -
  have "printable example_tree"
    by (simp add: printable.simps example_tree_def word_key_def word_char_def LONG_MIN_def LONG_MAX_def)
  from printed_table_roundtrip [OF this] show ?thesis
    by (simp add: example_tree_def arrange.simps is_group_def)
qed

text \<open>Outside these trees the text may be one the parser refuses, or lose an entry: an empty key, an empty table array.\<close>

theorem unprintable_tables:
  "parse stod (print_table dtoa [([], TInt 1)]) = Some (Inl (ParseException ''Bare key missing name at line 1'')) \<and>
   parse stod (print_table dtoa [(''hosts'', TTableArray [])]) = Some (Inr [])"
proof
  have a: "print_table dtoa [([], TInt 1)] = '' = 1'' @ [linefeed]"
    by (simp add: print_table_def new_writer_def visit_table_def is_group_def write_table_header_def write_entry_def push_path_def
        write_table_item_header_def indent_def write_key_def pop_path_def write_text_def endline_def show_int_def show_nat.simps digit_chars)
  have "parse_lines stod (Suc (Suc n)) [] [] 0 ['' = 1''] = Some (Inl (ParseException ''Bare key missing name at line 1''))" for n
    by (simp add: parse_simps show_nat.simps digit_chars)
  from this [of 23] show "parse stod (print_table dtoa [([], TInt 1)]) = Some (Inl (ParseException ''Bare key missing name at line 1''))"
    unfolding a parse_def by (simp del: parse_lines.simps)
  have b: "print_table dtoa [(''hosts'', TTableArray [])] = [linefeed]"
    by (simp add: print_table_def new_writer_def visit_table_def is_group_def write_table_header_def write_entry_def push_path_def
        write_table_item_header_def pop_path_def endline_def visit_table_array_def)
  have "parse_lines stod (Suc (Suc n)) [] [] 0 [[]] = Some (Inr [])" for n by (simp add: consume_whitespace_def)
  from this [of 11] show "parse stod (print_table dtoa [(''hosts'', TTableArray [])]) = Some (Inr [])"
    unfolding b parse_def by simp
qed

end
