(* ===== verification/Klog.thy ===== *)
theory Klog
  imports C_Runtime
begin

section \<open>The logger (\<open>klog.h\<close>, \<open>klog.cc\<close>)\<close>

text \<open>
  \<open>Klogger\<close> writes an access log and an error log, and renames a log away when it has
  grown to \<open>MAX_LINE_NUMBER\<close> lines. The record is the object's members with, beside them,
  the calls made to the C library's streams (\<open>calls\<close>), which is what the outside sees.
  Whether a path can be opened is the argument \<open>fopen_ok\<close>, the local time the argument
  \<open>tm\<close>; a variadic call is given by the text its format expands to.

  The properties: which lines are written intact, which overrun the 4096-byte stack
  buffer, how often a log is renamed and what of it stays on the disk, and what logging does after \<open>destroy\<close>.
\<close>

subsection \<open>Data\<close>

datatype KloggerLevel = kDebug | kInfo | kWarn | kError | kFatal

fun leveMessage :: "KloggerLevel \<Rightarrow> string" where
  "leveMessage kDebug = ''Debug''"
| "leveMessage kInfo = ''Info''"
| "leveMessage kWarn = ''Warn''"
| "leveMessage kError = ''Error''"
| "leveMessage kFatal = ''Fatal''"

datatype stream = Stdout | Stderr | File string

datatype stream_call =
    Fopen string
  | Fclose stream
  | Rename string string
  | Fwrite stream string
  | Fflush "stream option"

text \<open>The null \<open>FILE *\<close> is \<open>None\<close>.\<close>

record Klogger =
  infoFile :: string
  errorFile :: string
  logAccess :: "stream option"
  logError :: "stream option"
  accessCounts :: u32
  errorCounts :: u32
  calls :: "stream_call list"

definition MAX_LINE_NUMBER :: u32 where
  "MAX_LINE_NUMBER = 50000"

record tm =
  tm_year :: int
  tm_mon :: int
  tm_mday :: int
  tm_yday :: int
  tm_wday :: int
  tm_hour :: int
  tm_min :: int
  tm_sec :: int

definition new_klogger :: Klogger where
  "new_klogger = \<lparr>infoFile = [], errorFile = [], logAccess = Some Stdout, logError = Some Stdout,
     accessCounts = 0, errorCounts = 0, calls = []\<rparr>"

subsection \<open>Streams\<close>

text \<open>
  \<open>stdout\<close> is the one stream two members can share, and the one that is not opened
  again: after \<open>fclose(stdout)\<close> every use of it is undefined. A stream opened on a file
  is closed only where the member that holds it is overwritten.
\<close>

definition closed :: "stream \<Rightarrow> Klogger \<Rightarrow> bool" where
  "closed f k \<longleftrightarrow> f = Stdout \<and> Fclose Stdout \<in> set (calls k)"

definition fclose :: "stream \<Rightarrow> Klogger \<Rightarrow> Klogger eff" where
  "fclose f k = (if closed f k then Inl UseAfterClose else Inr (k\<lparr>calls := calls k @ [Fclose f]\<rparr>))"

definition fwrite :: "stream option \<Rightarrow> string \<Rightarrow> Klogger \<Rightarrow> Klogger eff" where
  "fwrite f line k =
     (case f of
        None \<Rightarrow> Inl NullDeref
      | Some g \<Rightarrow> if closed g k then Inl UseAfterClose else Inr (k\<lparr>calls := calls k @ [Fwrite g line]\<rparr>))"

subsection \<open>Rolling\<close>

definition rolled_name :: "string \<Rightarrow> tm \<Rightarrow> string" where
  "rolled_name file t =
     snprintf_text 4096 (file @ ''.'' @ show_int (tm_year t + 1900) @ ''-'' @ show_int (tm_mon t + 1) @ ''-'' @
       show_int (tm_yday t) @ ''+'' @ show_int (tm_hour t) @ ''.'' @ show_int (tm_min t))"

definition RollingFileA :: "(string \<Rightarrow> bool) \<Rightarrow> tm \<Rightarrow> Klogger \<Rightarrow> Klogger eff" where
  "RollingFileA fopen_ok t k =
     (case logAccess k of
        None \<Rightarrow> Inr k
      | Some f \<Rightarrow>
          if f = Stdout then Inr k
          else
            andThen (fclose f k) (\<lambda>k1. Inr
              (k1\<lparr>logAccess := Some (if fopen_ok (infoFile k) then File (infoFile k) else Stdout),
                 calls := calls k1 @ [Rename (infoFile k) (rolled_name (infoFile k) t), Fopen (infoFile k)]\<rparr>)))"

definition RollingFileE :: "(string \<Rightarrow> bool) \<Rightarrow> tm \<Rightarrow> Klogger \<Rightarrow> Klogger eff" where
  "RollingFileE fopen_ok t k =
     (case logError k of
        None \<Rightarrow> Inr k
      | Some f \<Rightarrow>
          if f = Stderr then Inr k
          else
            andThen (fclose f k) (\<lambda>k1. Inr
              (k1\<lparr>logError := Some (if fopen_ok (errorFile k) then File (errorFile k) else Stdout),
                 calls := calls k1 @ [Rename (errorFile k) (rolled_name (errorFile k) t), Fopen (errorFile k)]\<rparr>)))"

subsection \<open>Writing\<close>

definition writerAccess :: "(string \<Rightarrow> bool) \<Rightarrow> tm \<Rightarrow> string \<Rightarrow> Klogger \<Rightarrow> Klogger eff" where
  "writerAccess fopen_ok t buffer k =
     andThen (if MAX_LINE_NUMBER \<le> accessCounts k then RollingFileA fopen_ok t k else Inr k) (\<lambda>k1.
       let k2 = k1\<lparr>accessCounts := accessCounts k1 + 1\<rparr>
       in fwrite (logAccess k2) buffer k2)"

definition writerError :: "(string \<Rightarrow> bool) \<Rightarrow> tm \<Rightarrow> string \<Rightarrow> Klogger \<Rightarrow> Klogger eff" where
  "writerError fopen_ok t buffer k =
     andThen (if MAX_LINE_NUMBER \<le> errorCounts k then RollingFileE fopen_ok t k else Inr k) (\<lambda>k1.
       let k2 = k1\<lparr>errorCounts := errorCounts k1 + 1\<rparr>
       in fwrite (logError k2) buffer k2)"

definition init :: "(string \<Rightarrow> bool) \<Rightarrow> string option \<Rightarrow> string option \<Rightarrow> Klogger \<Rightarrow> bool \<times> Klogger" where
  "init fopen_ok info error k =
     (let k1 = (case info of
                  None \<Rightarrow> k
                | Some f \<Rightarrow>
                    if fopen_ok f then k\<lparr>logAccess := Some (File f), infoFile := f, calls := calls k @ [Fopen f]\<rparr>
                    else k\<lparr>calls := calls k @ [Fopen f]\<rparr>);
          k2 = (case error of
                  None \<Rightarrow> k1
                | Some f \<Rightarrow>
                    if fopen_ok f then k1\<lparr>logError := Some (File f), errorFile := f, calls := calls k1 @ [Fopen f]\<rparr>
                    else k1\<lparr>calls := calls k1 @ [Fopen f]\<rparr>)
      in (True, k2))"

definition fflushE :: "Klogger \<Rightarrow> Klogger eff" where
  "fflushE k =
     (if (\<exists>f \<in> set_option (logAccess k) \<union> set_option (logError k). closed f k) then Inl UseAfterClose
      else Inr (k\<lparr>calls := calls k @ [Fflush (logAccess k), Fflush (logError k)]\<rparr>))"

subsection \<open>Formatting into the stack buffer\<close>

definition wday :: "int \<Rightarrow> string eff" where
  "wday i = (if 0 \<le> i \<and> i < 7
     then Inr ([''Sun'', ''Mon'', ''Tue'', ''Wed'', ''Thu'', ''Fri'', ''Sat''] ! nat i) else Inl OutOfBounds)"

definition clock :: "tm \<Rightarrow> string eff" where
  "clock t = andThen (wday (tm_wday t)) (\<lambda>d. Inr
     (show_int (1900 + tm_year t) @ ''/'' @ show_02d (tm_mon t + 1) @ ''/'' @ show_02d (tm_mday t) @ '' '' @ d @ '' '' @
      show_02d (tm_hour t) @ '':'' @ show_02d (tm_min t) @ '':'' @ show_02d (tm_sec t)))"

text \<open>
  The common tail of \<open>access\<close> and \<open>log\<close>, for the text \<open>pre\<close> of the prefix and \<open>msg\<close> of the
  message: \<open>vsnprintf\<close> stores at most \<open>4095 - len\<close> bytes, its NUL included, but returns
  the length of the whole message, and the newline is stored at \<open>buffer[len + ret]\<close>.
\<close>

definition log_line :: "string \<Rightarrow> string \<Rightarrow> string eff" where
  "log_line pre msg =
     (let len = length pre; l = 4095 - len; ret = length msg; total = len + ret;
          buffer = pre @ snprintf_text l msg @ [nul]
      in if total < 4096 then Inr (take (total + 1) ((buffer @ replicate 4096 nul)[total := CHR 0x0A]))
         else Inl OutOfBounds)"

definition access :: "(string \<Rightarrow> bool) \<Rightarrow> tm \<Rightarrow> string \<Rightarrow> Klogger \<Rightarrow> Klogger eff" where
  "access fopen_ok t msg k =
     andThen (clock t) (\<lambda>c.
     andThen (log_line (''['' @ c @ ''] '') msg) (\<lambda>line.
       writerAccess fopen_ok t line k))"

definition log :: "(string \<Rightarrow> bool) \<Rightarrow> tm \<Rightarrow> int \<Rightarrow> nat \<Rightarrow> KloggerLevel \<Rightarrow> string \<Rightarrow> Klogger \<Rightarrow> Klogger eff" where
  "log fopen_ok t pid tid level msg k =
     andThen (clock t) (\<lambda>c.
     andThen (log_line (''['' @ leveMessage level @ ''] Process: '' @ show_int pid @ '' Thread: '' @ show_nat tid @
       '' Time: '' @ c @ '' '') msg) (\<lambda>line.
       writerError fopen_ok t line k))"

definition destroy :: "tm \<Rightarrow> int \<Rightarrow> nat \<Rightarrow> string \<Rightarrow> Klogger \<Rightarrow> Klogger eff" where
  "destroy t pid tid msg k =
     andThen (clock t) (\<lambda>c.
       let text = ''[Info] Process: '' @ show_int pid @ '' Thread: '' @ show_nat tid @ '' Time: '' @ c @ '' '' @ msg @ [CHR 0x0A];
           len = length text;
           buffer = snprintf_text 4096 text @ [nul]
       in andThen
            (case logError k of
               None \<Rightarrow> Inr k
             | Some f \<Rightarrow>
                 if 4096 < len then Inl OutOfBounds
                 else andThen (fwrite (Some f) (take len buffer) k) (\<lambda>k1.
                      andThen (fclose f k1) (\<lambda>k2. Inr (k2\<lparr>logError := None\<rparr>))))
            (\<lambda>k3. case logAccess k3 of
               None \<Rightarrow> Inr k3
             | Some f \<Rightarrow> andThen (fclose f k3) (\<lambda>k4. Inr (k4\<lparr>logAccess := None\<rparr>))))"

text \<open>\<open>~Klogger()\<close>, run when the process exits.\<close>

definition finalize :: "Klogger \<Rightarrow> Klogger eff" where
  "finalize k =
     andThen (case logAccess k of None \<Rightarrow> Inr k | Some f \<Rightarrow> if f = Stdout then Inr k else fclose f k) (\<lambda>k1.
       case logError k1 of None \<Rightarrow> Inr k1 | Some f \<Rightarrow> if f = Stderr then Inr k1 else fclose f k1)"

subsection \<open>Facts about the formatting\<close>

text \<open>The broken-down time \<open>localtime\<close> gives for the years 1900 to 9999.\<close>

definition calendar :: "tm \<Rightarrow> bool" where
  "calendar t \<longleftrightarrow> 0 \<le> tm_year t \<and> tm_year t < 8100 \<and> 0 \<le> tm_mon t \<and> tm_mon t < 12 \<and>
     1 \<le> tm_mday t \<and> tm_mday t \<le> 31 \<and> 0 \<le> tm_wday t \<and> tm_wday t < 7 \<and>
     0 \<le> tm_hour t \<and> tm_hour t < 24 \<and> 0 \<le> tm_min t \<and> tm_min t < 60 \<and> 0 \<le> tm_sec t \<and> tm_sec t \<le> 60"

definition clock_text :: "tm \<Rightarrow> string" where
  "clock_text t = (case clock t of Inl _ \<Rightarrow> [] | Inr c \<Rightarrow> c)"

definition access_prefix :: "tm \<Rightarrow> string" where
  "access_prefix t = ''['' @ clock_text t @ ''] ''"

definition log_prefix :: "tm \<Rightarrow> int \<Rightarrow> nat \<Rightarrow> KloggerLevel \<Rightarrow> string" where
  "log_prefix t pid tid level = ''['' @ leveMessage level @ ''] Process: '' @ show_int pid @ '' Thread: '' @
     show_nat tid @ '' Time: '' @ clock_text t @ '' ''"

lemma length_show_02d: "0 \<le> i \<Longrightarrow> i < 100 \<Longrightarrow> length (show_02d i) = 2"
proof -
  assume "0 \<le> i" "i < 100"
  then have "length (show_int i) \<le> 2" "show_int i \<noteq> []"
    using length_show_nat [of "nat i" 2] by (auto simp: show_int_def)
  moreover from this(2) have "0 < length (show_int i)" by blast
  ultimately have "length (show_int i) = 1 \<or> length (show_int i) = 2" by linarith
  then show ?thesis by (auto simp: show_02d_def Let_def)
qed

lemma length_show_year: "1000 \<le> i \<Longrightarrow> i < 10000 \<Longrightarrow> length (show_int i) = 4"
proof -
  assume i: "1000 \<le> i" "i < 10000"
  then have le: "length (show_int i) \<le> 4"
    using length_show_nat [of "nat i" 4] by (auto simp: show_int_def)
  have "length (show_nat n) \<ge> 4" if "1000 \<le> n" for n
    using that by (subst show_nat.simps, subst show_nat.simps, subst show_nat.simps, subst show_nat.simps)
      (auto simp: Suc_le_eq div_less)
  then have "4 \<le> length (show_int i)" using i by (simp add: show_int_def nat_le_eq_zle le_nat_iff)
  with le show ?thesis by simp
qed

lemma length_wday: "wday i = Inr d \<Longrightarrow> length d = 3"
proof -
  assume w: "wday i = Inr d"
  then have "nat i \<in> {0, 1, 2, 3, 4, 5, 6}" by (auto simp: wday_def split: if_splits)
  with w show ?thesis by (auto simp: wday_def split: if_splits)
qed

lemma clock_calendar:
  assumes "calendar t"
  shows "clock t = Inr (clock_text t)" and "length (clock_text t) = 23"
proof -
  obtain d where d: "wday (tm_wday t) = Inr d" using assms by (auto simp: wday_def calendar_def)
  then show c: "clock t = Inr (clock_text t)" by (simp add: clock_def clock_text_def)
  show "length (clock_text t) = 23"
    using assms length_wday [OF d]
    by (simp add: clock_text_def clock_def d calendar_def length_show_02d length_show_year)
qed

lemma length_access_prefix: "calendar t \<Longrightarrow> length (access_prefix t) = 26"
  by (simp add: access_prefix_def clock_calendar)

text \<open>The line that reaches the log, by the length of prefix and message together.\<close>

lemma log_line_intact:
  "length pre + length msg \<le> 4094 \<Longrightarrow> log_line pre msg = Inr (pre @ msg @ [CHR 0x0A])"
  by (simp add: log_line_def Let_def snprintf_text_def list_update_append)

lemma take_store_behind:
  "0 < n \<Longrightarrow> take (Suc (length xs)) ((xs @ replicate n a)[length xs := c]) = xs @ [c]"
  by (cases n) (auto simp: list_update_append)

lemma log_line_clipped:
  assumes "length pre + length msg = 4095" "msg \<noteq> []"
  shows "log_line pre msg = Inr (pre @ butlast msg @ [nul, CHR 0x0A])"
proof -
  let ?b = "pre @ butlast msg @ [nul]"
  have "snprintf_text (4095 - length pre) msg = butlast msg"
    using assms(1) by (simp add: snprintf_text_def butlast_conv_take flip: assms(1))
  moreover have "length ?b = 4095" using assms by (cases msg rule: rev_cases) auto
  ultimately show ?thesis
    using assms(1) take_store_behind [of 4096 ?b nul "CHR 0x0A"] by (simp add: log_line_def Let_def)
qed

lemma log_line_overrun: "4096 \<le> length pre + length msg \<Longrightarrow> log_line pre msg = Inl OutOfBounds"
  by (simp add: log_line_def Let_def)

subsection \<open>What a log call does\<close>

lemma access_calendar:
  "calendar t \<Longrightarrow> access ok t msg k = andThen (log_line (access_prefix t) msg) (\<lambda>line. writerAccess ok t line k)"
  by (simp add: access_def access_prefix_def clock_calendar)

lemma log_calendar:
  "calendar t \<Longrightarrow>
     log ok t pid tid level msg k = andThen (log_line (log_prefix t pid tid level) msg) (\<lambda>line. writerError ok t line k)"
  by (simp add: log_def log_prefix_def clock_calendar)

text \<open>A date for the examples: Friday 2 December 2016, 03:04:05.\<close>

definition example_tm :: tm where
  "example_tm = \<lparr>tm_year = 116, tm_mon = 11, tm_mday = 2, tm_yday = 336, tm_wday = 5,
     tm_hour = 3, tm_min = 4, tm_sec = 5\<rparr>"

lemma calendar_example_tm: "calendar example_tm"
  by (simp add: calendar_def example_tm_def)

text \<open>
  \<open>Klogger::access\<close>, by the length of the message. Up to 4068 bytes the access log gets
  the prefix, the message and a newline; at 4069 the last byte of the message is replaced by
  a NUL; from 4070 bytes on the newline is stored past the end of the 4096-byte stack
  buffer, and the bytes behind it would be written to the log.
\<close>

theorem access_by_length:
  assumes "calendar t"
  shows "access ok t msg k =
     (if length msg \<le> 4068 then writerAccess ok t (access_prefix t @ msg @ [CHR 0x0A]) k
      else if length msg = 4069 then writerAccess ok t (access_prefix t @ butlast msg @ [nul, CHR 0x0A]) k
      else Inl OutOfBounds)"
proof -
  note p = length_access_prefix [OF assms]
  consider "length msg \<le> 4068" | "length msg = 4069" | "4070 \<le> length msg" by linarith
  then show ?thesis
  proof cases
    case 1
    then show ?thesis by (simp add: access_calendar [OF assms] log_line_intact p)
  next
    case 2
    then have "msg \<noteq> []" by auto
    with 2 show ?thesis by (simp add: access_calendar [OF assms] log_line_clipped p)
  next
    case 3
    then show ?thesis by (simp add: access_calendar [OF assms] log_line_overrun p)
  qed
qed

theorem access_by_length_witness:
  "access (\<lambda>_. True) example_tm (replicate 4070 CHR ''u'') new_klogger = Inl OutOfBounds"
  by (subst access_by_length [OF calendar_example_tm]) simp

subsection \<open>Rotation\<close>

text \<open>
  The lines a stream was given, the number of renames, and a run of \<open>access\<close>, each line with the time it is logged at. Rolling reads
  the clock once more; its time is taken to be that of the line.
\<close>

definition written :: "stream \<Rightarrow> Klogger \<Rightarrow> string list" where
  "written f k = concat (map (\<lambda>c. case c of Fwrite g l \<Rightarrow> if g = f then [l] else [] | _ \<Rightarrow> []) (calls k))"

definition renames :: "Klogger \<Rightarrow> nat" where
  "renames k = length (filter (\<lambda>c. case c of Rename _ _ \<Rightarrow> True | _ \<Rightarrow> False) (calls k))"

fun access_lines :: "(string \<Rightarrow> bool) \<Rightarrow> (tm \<times> string) list \<Rightarrow> Klogger \<Rightarrow> Klogger eff" where
  "access_lines ok [] k = Inr k"
| "access_lines ok ((t, m) # ms) k = andThen (access ok t m k) (access_lines ok ms)"

definition line_of :: "tm \<times> string \<Rightarrow> string" where
  "line_of x = access_prefix (fst x) @ snd x @ [CHR 0x0A]"

text \<open>
  What the calls leave on the disk, by name and as lines: \<open>fopen\<close> with \<open>a+\<close> makes a missing file, and \<open>rename\<close> puts
  a file in the place of the one that has its new name, as POSIX has it.
\<close>

fun disk_step :: "stream_call \<Rightarrow> (string \<rightharpoonup> string list) \<Rightarrow> (string \<rightharpoonup> string list)" where
  "disk_step (Fopen f) d = (case d f of None \<Rightarrow> d(f \<mapsto> []) | Some x \<Rightarrow> d)"
| "disk_step (Rename a b) d = (case d a of None \<Rightarrow> d | Some x \<Rightarrow> (d(a := None))(b \<mapsto> x))"
| "disk_step (Fwrite (File f) l) d = d(f \<mapsto> (case d f of None \<Rightarrow> [] | Some x \<Rightarrow> x) @ [l])"
| "disk_step c d = d"

definition disk :: "Klogger \<Rightarrow> (string \<rightharpoonup> string list)" where
  "disk k = fold disk_step (calls k) Map.empty"

text \<open>One short line, to a log file that can be opened again.\<close>

definition on_file :: "(string \<Rightarrow> bool) \<Rightarrow> Klogger \<Rightarrow> bool" where
  "on_file ok k \<longleftrightarrow> logAccess k = Some (File (infoFile k)) \<and> ok (infoFile k) \<and> length (infoFile k) < 4095"

lemma rolled_name_other:
  assumes "length f < 4095"
  shows "rolled_name f t \<noteq> f"
proof
  assume "rolled_name f t = f"
  moreover have "length f < length (rolled_name f t)" using assms by (simp add: rolled_name_def snprintf_text_def)
  ultimately show False by simp
qed

lemma writerAccess_on_file:
  assumes "on_file ok k" and "disk k (infoFile k) = Some cur"
  obtains k' where "writerAccess ok t line k = Inr k'" "on_file ok k'" "infoFile k' = infoFile k"
    "accessCounts k' = accessCounts k + 1"
    "written (File (infoFile k)) k' = written (File (infoFile k)) k @ [line]"
    "renames k' = renames k + (if MAX_LINE_NUMBER \<le> accessCounts k then 1 else 0)"
    "disk k' = (if MAX_LINE_NUMBER \<le> accessCounts k
       then (disk k)(rolled_name (infoFile k) t \<mapsto> cur, infoFile k \<mapsto> [line])
       else (disk k)(infoFile k \<mapsto> cur @ [line]))"
proof (cases "MAX_LINE_NUMBER \<le> accessCounts k")
  case True
  have "rolled_name (infoFile k) t \<noteq> infoFile k" using assms(1) by (intro rolled_name_other) (simp add: on_file_def)
  then show ?thesis
    using assms that True
    by (simp add: writerAccess_def RollingFileA_def on_file_def fwrite_def fclose_def closed_def
        written_def renames_def disk_def Let_def fun_upd_twist)
next
  case False
  then show ?thesis
    using assms that
    by (simp add: writerAccess_def on_file_def fwrite_def closed_def written_def renames_def disk_def Let_def)
qed

definition loggable :: "tm \<times> string \<Rightarrow> bool" where
  "loggable x \<longleftrightarrow> calendar (fst x) \<and> length (snd x) \<le> 4068"

lemma access_on_file:
  assumes "on_file ok k" and "disk k (infoFile k) = Some cur" and "loggable (t, m)" and "unat (accessCounts k) + 1 < 2 ^ 32"
  obtains k' where "access ok t m k = Inr k'" "on_file ok k'" "infoFile k' = infoFile k"
    "unat (accessCounts k') = unat (accessCounts k) + 1"
    "written (File (infoFile k)) k' = written (File (infoFile k)) k @ [line_of (t, m)]"
    "renames k' = renames k + (if 50000 \<le> unat (accessCounts k) then 1 else 0)"
    "disk k' = (if 50000 \<le> unat (accessCounts k)
       then (disk k)(rolled_name (infoFile k) t \<mapsto> cur, infoFile k \<mapsto> [line_of (t, m)])
       else (disk k)(infoFile k \<mapsto> cur @ [line_of (t, m)]))"
proof -
  have c: "calendar t" "length m \<le> 4068" using assms(3) by (simp_all add: loggable_def)
  have acc: "access ok t m k = writerAccess ok t (line_of (t, m)) k"
    using c(2) length_access_prefix [OF c(1)] by (simp add: access_calendar [OF c(1)] log_line_intact line_of_def)
  have full: "MAX_LINE_NUMBER \<le> accessCounts k \<longleftrightarrow> 50000 \<le> unat (accessCounts k)"
    by (simp add: MAX_LINE_NUMBER_def word_le_nat_alt)
  have count: "unat (accessCounts k + 1) = unat (accessCounts k) + 1" using assms(4) by (simp add: unat_word_ariths)
  show thesis by (rule writerAccess_on_file [OF assms(1,2), of t "line_of (t, m)"]) (use that acc full count in simp)
qed

text \<open>Up to the 50,000th line the file grows.\<close>

lemma access_lines_grow:
  assumes "on_file ok k" and "disk k (infoFile k) = Some cur" and "\<forall>x \<in> set ms. loggable x"
    and "unat (accessCounts k) + length ms \<le> 50000"
  shows "\<exists>k'. access_lines ok ms k = Inr k' \<and> on_file ok k' \<and> infoFile k' = infoFile k \<and>
     unat (accessCounts k') = unat (accessCounts k) + length ms \<and> renames k' = renames k \<and>
     written (File (infoFile k)) k' = written (File (infoFile k)) k @ map line_of ms \<and>
     disk k' = (disk k)(infoFile k \<mapsto> cur @ map line_of ms)"
  using assms
proof (induction ms arbitrary: k cur)
  case Nil
  then show ?case by (auto simp: fun_upd_idem)
next
  case (Cons x ms)
  obtain t m where x: "x = (t, m)" by (cases x)
  have line: "loggable (t, m)" "unat (accessCounts k) + 1 < 2 ^ 32" using Cons.prems x by simp_all
  obtain k1 where k0: "access ok t m k = Inr k1" "on_file ok k1" "infoFile k1 = infoFile k"
    "unat (accessCounts k1) = unat (accessCounts k) + 1"
    "written (File (infoFile k)) k1 = written (File (infoFile k)) k @ [line_of (t, m)]"
    "renames k1 = renames k + (if 50000 \<le> unat (accessCounts k) then 1 else 0)"
    "disk k1 = (if 50000 \<le> unat (accessCounts k)
       then (disk k)(rolled_name (infoFile k) t \<mapsto> cur, infoFile k \<mapsto> [line_of (t, m)])
       else (disk k)(infoFile k \<mapsto> cur @ [line_of (t, m)]))"
    by (rule access_on_file [OF Cons.prems(1,2) line])
  have "\<not> 50000 \<le> unat (accessCounts k)" using Cons.prems(4) by simp
  with k0 have k1: "renames k1 = renames k" "disk k1 = (disk k)(infoFile k \<mapsto> cur @ [line_of x])" using x by simp_all
  have "disk k1 (infoFile k1) = Some (cur @ [line_of x])" "\<forall>x \<in> set ms. loggable x" "unat (accessCounts k1) + length ms \<le> 50000"
    using Cons.prems(3,4) k0(3,4) k1(2) by simp_all
  from Cons.IH [OF k0(2) this] k0(1,3-5) k1 x show ?case by (auto intro!: ext)
qed

text \<open>From then on every line moves the file away.\<close>

definition moved_away :: "string \<Rightarrow> string list \<Rightarrow> (tm \<times> string) list \<Rightarrow> (string \<rightharpoonup> string list)" where
  "moved_away f cur ms = map_of (rev (zip (map (\<lambda>x. rolled_name f (fst x)) ms) (cur # map (\<lambda>x. [line_of x]) ms)))"

lemma moved_away_simps:
  "moved_away f cur [] = Map.empty"
  "moved_away f cur (x # ms) = [rolled_name f (fst x) \<mapsto> cur] ++ moved_away f [line_of x] ms"
  by (simp_all add: moved_away_def)

lemma access_lines_roll:
  assumes "on_file ok k" and "disk k (infoFile k) = Some cur" and "\<forall>x \<in> set ms. loggable x"
    and "50000 \<le> unat (accessCounts k)" and "unat (accessCounts k) + length ms < 2 ^ 32"
  shows "\<exists>k'. access_lines ok ms k = Inr k' \<and> renames k' = renames k + length ms \<and>
     written (File (infoFile k)) k' = written (File (infoFile k)) k @ map line_of ms \<and>
     disk k' = (disk k ++ moved_away (infoFile k) cur ms)(infoFile k \<mapsto> last (cur # map (\<lambda>x. [line_of x]) ms))"
  using assms
proof (induction ms arbitrary: k cur)
  case Nil
  then show ?case by (auto simp: fun_upd_idem moved_away_simps)
next
  case (Cons x ms)
  obtain t m where x: "x = (t, m)" by (cases x)
  have line: "loggable (t, m)" "unat (accessCounts k) + 1 < 2 ^ 32" using Cons.prems x by simp_all
  obtain k1 where k0: "access ok t m k = Inr k1" "on_file ok k1" "infoFile k1 = infoFile k"
    "unat (accessCounts k1) = unat (accessCounts k) + 1"
    "written (File (infoFile k)) k1 = written (File (infoFile k)) k @ [line_of (t, m)]"
    "renames k1 = renames k + (if 50000 \<le> unat (accessCounts k) then 1 else 0)"
    "disk k1 = (if 50000 \<le> unat (accessCounts k)
       then (disk k)(rolled_name (infoFile k) t \<mapsto> cur, infoFile k \<mapsto> [line_of (t, m)])
       else (disk k)(infoFile k \<mapsto> cur @ [line_of (t, m)]))"
    by (rule access_on_file [OF Cons.prems(1,2) line])
  from k0 have k1: "access ok t m k = Inr k1" "on_file ok k1" "infoFile k1 = infoFile k"
    "unat (accessCounts k1) = unat (accessCounts k) + 1" "renames k1 = renames k + 1"
    "written (File (infoFile k)) k1 = written (File (infoFile k)) k @ [line_of x]"
    "disk k1 = (disk k)(rolled_name (infoFile k) t \<mapsto> cur, infoFile k \<mapsto> [line_of x])"
    using Cons.prems(4) x by simp_all
  have "disk k1 (infoFile k1) = Some [line_of x]" "\<forall>x \<in> set ms. loggable x" "50000 \<le> unat (accessCounts k1)"
    "unat (accessCounts k1) + length ms < 2 ^ 32"
    using Cons.prems(3-5) k1(3,4,7) by simp_all
  from Cons.IH [OF k1(2) this]
  obtain k2 where k2: "access_lines ok ms k1 = Inr k2" "renames k2 = renames k1 + length ms"
    "written (File (infoFile k)) k2 = written (File (infoFile k)) k1 @ map line_of ms"
    "disk k2 = (disk k1 ++ moved_away (infoFile k) [line_of x] ms)(infoFile k \<mapsto> last ([line_of x] # map (\<lambda>x. [line_of x]) ms))"
    unfolding k1(3) by blast
  have "disk k2 = (disk k ++ moved_away (infoFile k) cur (x # ms))(infoFile k \<mapsto> last (cur # map (\<lambda>x. [line_of x]) (x # ms)))"
    unfolding k2(4) k1(7) by (auto simp: fun_eq_iff map_add_def x moved_away_simps split: option.splits)
  then show ?case using k1(1,5,6) k2(1-3) x by auto
qed

lemma access_lines_append: "access_lines ok (xs @ ys) k = andThen (access_lines ok xs k) (access_lines ok ys)"
  proof (induction xs arbitrary: k)
  case (Cons x xs)
  then show ?case by (cases x; cases "access ok (fst x) (snd x) k") simp_all
qed simp

text \<open>
  C35: The access log on its own file, over any times: each message of at most 4068 bytes is written once and in order. The first 50,000 stay in
  the file. \<open>accessCounts\<close> is not set back when the file is rolled, so every later line first renames the file, and starts a new one that has this
  line only. The new name has the minute in it, so a rename takes the place of an earlier one of the same minute: of those, the
  disk keeps what the last one moved, and the 50,000 lines are gone if the next line comes within the minute.
\<close>

theorem access_log_on_disk:
  assumes "logAccess k = Some (File (infoFile k))" and "ok (infoFile k)" and "length (infoFile k) < 4095"
    and "accessCounts k = 0" and "disk k (infoFile k) = Some old"
    and "\<forall>x \<in> set (first @ later). loggable x" and "length first = 50000" and "length (first @ later) < 2 ^ 32"
  shows "\<exists>k'. access_lines ok (first @ later) k = Inr k' \<and>
     written (File (infoFile k)) k' = written (File (infoFile k)) k @ map line_of (first @ later) \<and>
     renames k' = renames k + length later \<and>
     disk k' = (disk k ++ moved_away (infoFile k) (old @ map line_of first) later)
       (infoFile k \<mapsto> last ((old @ map line_of first) # map (\<lambda>x. [line_of x]) later))"
proof -
  have "on_file ok k" using assms(1-3) by (simp add: on_file_def)
  with access_lines_grow [of ok k old first] assms(4-7)
  obtain k1 where k1: "access_lines ok first k = Inr k1" "on_file ok k1" "infoFile k1 = infoFile k" "unat (accessCounts k1) = 50000"
    "renames k1 = renames k" "written (File (infoFile k)) k1 = written (File (infoFile k)) k @ map line_of first"
    "disk k1 = (disk k)(infoFile k \<mapsto> old @ map line_of first)" by auto
  with access_lines_roll [of ok k1 "old @ map line_of first" later] assms(6-8)
  obtain k2 where k2: "access_lines ok later k1 = Inr k2" "renames k2 = renames k + length later"
    "written (File (infoFile k)) k2 = written (File (infoFile k)) k @ map line_of (first @ later)"
    "disk k2 = (disk k1 ++ moved_away (infoFile k) (old @ map line_of first) later)
       (infoFile k \<mapsto> last ((old @ map line_of first) # map (\<lambda>x. [line_of x]) later))" by auto
  have "disk k2 = (disk k ++ moved_away (infoFile k) (old @ map line_of first) later)
      (infoFile k \<mapsto> last ((old @ map line_of first) # map (\<lambda>x. [line_of x]) later))"
    unfolding k2(4) k1(7) by (simp add: fun_eq_iff map_add_def split: option.splits)
  then show ?thesis using k1(1) k2(1-3) by (auto simp: access_lines_append)
qed

text \<open>50,002 lines, the last two of them in one minute: two lines are left.\<close>

theorem access_log_on_disk_witness:
  "\<exists>k'. access_lines (\<lambda>_. True) (replicate 50000 (example_tm, ''early'') @ [(example_tm, ''x''), (example_tm\<lparr>tm_sec := 9\<rparr>, ''y'')])
       (snd (init (\<lambda>_. True) (Some ''a.log'') None new_klogger)) = Inr k' \<and>
     disk k' = [rolled_name ''a.log'' example_tm \<mapsto> [line_of (example_tm, ''x'')],
       ''a.log'' \<mapsto> [line_of (example_tm\<lparr>tm_sec := 9\<rparr>, ''y'')]]"
proof -
  let ?k = "snd (init (\<lambda>_. True) (Some ''a.log'') None new_klogger)" and ?first = "replicate 50000 (example_tm, ''early'')"
    and ?later = "[(example_tm, ''x''), (example_tm\<lparr>tm_sec := 9\<rparr>, ''y'')]"
  have k: "logAccess ?k = Some (File (infoFile ?k))" "length (infoFile ?k) < 4095" "accessCounts ?k = 0" "disk ?k (infoFile ?k) = Some []"
    "infoFile ?k = ''a.log''" "disk ?k = [''a.log'' \<mapsto> []]"
    by (simp_all add: init_def new_klogger_def disk_def)
  have n: "length ?first = 50000" "length (?first @ ?later) < 2 ^ 32" by (simp_all only: length_replicate length_append) simp
  have l: "\<forall>x \<in> set (?first @ ?later). loggable x"
    using calendar_example_tm by (simp add: loggable_def calendar_def)
  have same: "rolled_name f (example_tm\<lparr>tm_sec := 9\<rparr>) = rolled_name f example_tm" for f by (simp add: rolled_name_def)
  obtain k' where k': "access_lines (\<lambda>_. True) (?first @ ?later) ?k = Inr k'"
    "disk k' = (disk ?k ++ moved_away (infoFile ?k) ([] @ map line_of ?first) ?later)
       (infoFile ?k \<mapsto> last (([] @ map line_of ?first) # map (\<lambda>x. [line_of x]) ?later))"
    using access_log_on_disk [OF k(1) TrueI k(2-4) l n] by blast
  have "disk k' = [rolled_name ''a.log'' example_tm \<mapsto> [line_of (example_tm, ''x'')],
       ''a.log'' \<mapsto> [line_of (example_tm\<lparr>tm_sec := 9\<rparr>, ''y'')]]"
    unfolding k'(2) k(5,6) using rolled_name_other [of "''a.log''" example_tm]
    by (simp add: moved_away_simps same fun_eq_iff map_add_def)
  with k'(1) show ?thesis by blast
qed

subsection \<open>The error log and the end\<close>

text \<open>
  When a full error log cannot be opened again, \<open>RollingFileE\<close> falls back to \<open>stdout\<close>, but its
  guard spares only \<open>stderr\<close>: the next error line closes \<open>stdout\<close>, fails again to open the
  file, and writes to the closed stream.
\<close>

theorem error_log_fallback_closes_stdout:
  assumes "MAX_LINE_NUMBER \<le> errorCounts k" and "errorCounts k + 1 \<ge> MAX_LINE_NUMBER"
    and "logError k = Some (File f)" and "\<not> ok (errorFile k)" and "Fclose Stdout \<notin> set (calls k)"
  shows "\<exists>k'. writerError ok t l k = Inr k' \<and> written Stdout k' = written Stdout k @ [l] \<and>
     writerError ok t' l' k' = Inl UseAfterClose"
  using assms
  by (auto simp: writerError_def RollingFileE_def fwrite_def fclose_def closed_def written_def Let_def)

theorem error_log_fallback_closes_stdout_witness:
  "\<exists>k'. writerError (\<lambda>_. False) example_tm ''x''
       (new_klogger\<lparr>errorFile := ''e.log'', logError := Some (File ''e.log''), errorCounts := 50000\<rparr>) = Inr k' \<and>
     writerError (\<lambda>_. False) example_tm ''y'' k' = Inl UseAfterClose"
  using error_log_fallback_closes_stdout
    [of "new_klogger\<lparr>errorFile := ''e.log'', logError := Some (File ''e.log''), errorCounts := 50000\<rparr>" "''e.log''"
      "\<lambda>_. False" example_tm "''x''" example_tm "''y''"]
  by (simp add: MAX_LINE_NUMBER_def new_klogger_def) blast

lemma destroy_files:
  assumes "calendar t" and "logError k = Some (File e)" and "logAccess k = Some (File a)"
    and "length (log_prefix t pid tid kInfo) + length msg \<le> 4094"
  shows "destroy t pid tid msg k = Inr (k\<lparr>logError := None, logAccess := None, calls := calls k @
    [Fwrite (File e) (log_prefix t pid tid kInfo @ msg @ [CHR 0x0A]), Fclose (File e), Fclose (File a)]\<rparr>)"
proof -
  let ?text = "log_prefix t pid tid kInfo @ msg @ [CHR 0x0A]"
  have len: "length ?text \<le> 4095" using assms(4) by simp
  then have cut: "take (length ?text) (snprintf_text 4096 ?text @ [nul]) = ?text"
    by (simp add: snprintf_text_def)
  show ?thesis
    using assms(2,3) len cut
    by (simp add: destroy_def clock_calendar [OF assms(1)] log_prefix_def fwrite_def fclose_def closed_def Let_def)
qed

text \<open>
  \<open>destroy\<close> on two log files writes its last line and closes both; after it a log call of
  ordinary length writes through a null stream.
\<close>

theorem destroy_then_log:
  assumes "calendar t" and "logError k = Some (File e)" and "logAccess k = Some (File a)"
    and "length (log_prefix t pid tid kInfo) + length msg \<le> 4094"
    and "calendar t'" and "length m \<le> 4068"
  shows "\<exists>k'. destroy t pid tid msg k = Inr k' \<and>
     calls k' = calls k @ [Fwrite (File e) (log_prefix t pid tid kInfo @ msg @ [CHR 0x0A]), Fclose (File e), Fclose (File a)] \<and>
     access ok t' m k' = Inl NullDeref"
  using assms(6) length_access_prefix [OF assms(5)]
  by (simp add: destroy_files [OF assms(1-4)] access_calendar [OF assms(5)] log_line_intact writerAccess_def
      RollingFileA_def fwrite_def Let_def)

theorem destroy_then_log_witness:
  "\<exists>k'. destroy example_tm 7 8 ''bye'' (snd (init (\<lambda>_. True) (Some ''a.log'') (Some ''e.log'') new_klogger)) = Inr k' \<and>
     access (\<lambda>_. True) example_tm ''late'' k' = Inl NullDeref"
proof -
  let ?k = "snd (init (\<lambda>_. True) (Some ''a.log'') (Some ''e.log'') new_klogger)"
  have k: "logError ?k = Some (File ''e.log'')" "logAccess ?k = Some (File ''a.log'')"
    by (simp_all add: init_def new_klogger_def)
  have "length (show_int 7) \<le> 1" "length (show_nat 8) \<le> 1"
    using length_show_nat [of 7 1] length_show_nat [of 8 1] by (simp_all add: show_int_def)
  then have "length (log_prefix example_tm 7 8 kInfo) + length ''bye'' \<le> 4094"
    by (simp add: log_prefix_def clock_calendar [OF calendar_example_tm])
  from destroy_then_log [OF calendar_example_tm k this calendar_example_tm, of "''late''" "\<lambda>_. True"]
  show ?thesis by auto
qed

text \<open>
  A logger that was never given its own files has both members on \<open>stdout\<close>; \<open>destroy\<close>
  then closes it twice.
\<close>

theorem destroy_uninitialised:
  assumes "calendar t" and "length (log_prefix t pid tid kInfo) + length msg \<le> 4094"
  shows "destroy t pid tid msg new_klogger = Inl UseAfterClose"
  using assms(2)
  by (simp add: destroy_def clock_calendar [OF assms(1)] log_prefix_def fwrite_def fclose_def closed_def
      new_klogger_def Let_def)

theorem destroy_uninitialised_witness:
  "destroy example_tm 7 8 ''bye'' new_klogger = Inl UseAfterClose"
proof (rule destroy_uninitialised [OF calendar_example_tm])
  have "length (show_int 7) \<le> 1" "length (show_nat 8) \<le> 1"
    using length_show_nat [of 7 1] length_show_nat [of 8 1] by (simp_all add: show_int_def)
  then show "length (log_prefix example_tm 7 8 kInfo) + length ''bye'' \<le> 4094"
    by (simp add: log_prefix_def clock_calendar [OF calendar_example_tm])
qed

end
