(* ===== verification/Toml_Build.thy ===== *)
theory Toml_Build
  imports Toml_Writer Klog
begin

section \<open>Building a tree by hand (\<open>cpptoml.h\<close>: \<open>option\<close>, \<open>datetime\<close>, the mutators of \<open>array\<close> and \<open>table_array\<close>)\<close>

text \<open>
  What a program that does not parse its tree uses of the library: optional results, dates made of a \<open>struct tm\<close>, and the operations that change an array.
  A position in a vector is its index; \<open>strftime\<close> with \<open>%z\<close> is the argument \<open>zone\<close>, the text it leaves in the buffer.

  The properties: what the elements of an array built by any sequence of operations can be, what an optional result with a default gives, and that a date made of
  a local time is printed and read back.
\<close>

subsection \<open>\<open>option\<close>\<close>

text \<open>\<open>value_\<close> of an empty option is what the default initialisation of the type leaves, the argument \<open>d\<close>.\<close>

record 'a held =
  vacant :: bool
  content :: 'a

definition held_empty :: "'a \<Rightarrow> 'a held" where
  "held_empty d = \<lparr>vacant = True, content = d\<rparr>"

definition held_of :: "'a \<Rightarrow> 'a held" where
  "held_of v = \<lparr>vacant = False, content = v\<rparr>"

definition held_bool :: "'a held \<Rightarrow> bool" where
  "held_bool h \<longleftrightarrow> \<not> vacant h"

definition held_get :: "'a held \<Rightarrow> 'a" where
  "held_get h = content h"

definition value_or :: "'a held \<Rightarrow> 'a \<Rightarrow> 'a" where
  "value_or h alternative = (if \<not> vacant h then content h else alternative)"

text \<open>The result of \<open>get_as\<close> as the class has it.\<close>

definition held_result :: "'a \<Rightarrow> 'a option \<Rightarrow> 'a held" where
  "held_result d r = (case r of None \<Rightarrow> held_empty d | Some v \<Rightarrow> held_of v)"

subsection \<open>\<open>datetime\<close>\<close>

text \<open>\<open>std::stoi\<close>: as \<open>strtol\<close>, with an exception for a text without digits and for a number an \<open>int\<close> cannot hold.\<close>

definition stoi :: "string \<Rightarrow> int eff" where
  "stoi s =
     (let t = dropWhile is_space (c_str s);
          u = (if t \<noteq> [] \<and> (hd t = CHR ''-'' \<or> hd t = CHR ''+'') then tl t else t);
          v = strtol s
      in if takeWhile is_digit u = [] then Inl InvalidArgument
         else if v < - 2147483648 \<or> 2147483647 < v then Inl OutOfRange
         else Inr v)"

definition from_utc :: "tm \<Rightarrow> datetime eff" where
  "from_utc t =
     (if 2147483647 < tm_year t + 1900 \<or> 2147483647 < tm_mon t + 1 then Inl IntOverflow
      else Inr \<lparr>year = tm_year t + 1900, month = tm_mon t + 1, day = tm_mday t, hour = tm_hour t, minute = tm_min t, second = tm_sec t,
        microsecond = 0, hour_offset = 0, minute_offset = 0\<rparr>)"

text \<open>Division of \<open>int\<close> is towards zero.\<close>

definition from_local :: "tm \<Rightarrow> string \<Rightarrow> datetime eff" where
  "from_local t zone =
     andThen (from_utc t) (\<lambda>dt.
     andThen (stoi zone) (\<lambda>offset.
       Inr (dt\<lparr>hour_offset := sgn offset * (\<bar>offset\<bar> div 100), minute_offset := sgn offset * (\<bar>offset\<bar> mod 100)\<rparr>)))"

subsection \<open>\<open>array\<close> and \<open>table_array\<close>\<close>

definition vector_insert :: "nat \<Rightarrow> 'a \<Rightarrow> 'a list \<Rightarrow> 'a list eff" where
  "vector_insert i v a = (if length a < i then Inl OutOfBounds else Inr (take i a @ v # drop i a))"

definition vector_erase :: "nat \<Rightarrow> 'a list \<Rightarrow> 'a list eff" where
  "vector_erase i a = (if length a \<le> i then Inl OutOfBounds else Inr (take i a @ drop (Suc i) a))"

definition array_of :: "('d toml \<Rightarrow> 'a option) \<Rightarrow> 'd toml list \<Rightarrow> 'a option list" where
  "array_of conv a = map conv a"

definition array_insert_value :: "'d toml list \<Rightarrow> nat \<Rightarrow> 'd toml \<Rightarrow> 'd toml list eff" where
  "array_insert_value a i v =
     (case a of
        [] \<Rightarrow> vector_insert i v a
      | x # _ \<Rightarrow> if converts_to_type_of x v then vector_insert i v a
                else Inl (RuntimeError ''Arrays must be homogenous.''))"

definition array_insert_array :: "'d toml list \<Rightarrow> nat \<Rightarrow> 'd toml list \<Rightarrow> 'd toml list eff" where
  "array_insert_array a i v =
     (case a of
        [] \<Rightarrow> vector_insert i (TArray v) a
      | x # _ \<Rightarrow> if is_array x then vector_insert i (TArray v) a
                else Inl (RuntimeError ''Arrays must be homogenous.''))"

definition array_erase :: "'d toml list \<Rightarrow> nat \<Rightarrow> 'd toml list eff" where
  "array_erase a i = vector_erase i a"

definition array_clear :: "'d toml list \<Rightarrow> 'd toml list" where
  "array_clear a = []"

definition table_array_push_back :: "'d table list \<Rightarrow> 'd table \<Rightarrow> 'd table list" where
  "table_array_push_back ts t = ts @ [t]"

definition table_array_insert :: "'d table list \<Rightarrow> nat \<Rightarrow> 'd table \<Rightarrow> 'd table list eff" where
  "table_array_insert ts i t = vector_insert i t ts"

definition table_array_erase :: "'d table list \<Rightarrow> nat \<Rightarrow> 'd table list eff" where
  "table_array_erase ts i = vector_erase i ts"

definition table_array_clear :: "'d table list \<Rightarrow> 'd table list" where
  "table_array_clear ts = []"

definition table_empty :: "'d table \<Rightarrow> bool" where
  "table_empty t \<longleftrightarrow> t = []"

subsection \<open>What an array can hold\<close>

definition numeric :: "'d toml \<Rightarrow> bool" where
  "numeric x \<longleftrightarrow> as_int x \<noteq> None \<or> (\<exists>d. x = TDouble d)"

definition one_kind :: "'d toml list \<Rightarrow> bool" where
  "one_kind a \<longleftrightarrow> (\<forall>x \<in> set a. \<forall>y \<in> set a. same_kind x y) \<or> (\<forall>x \<in> set a. numeric x)"

text \<open>The operations that change an array, and the arrays a sequence of them makes.\<close>

inductive array_step :: "'d toml list \<Rightarrow> 'd toml list \<Rightarrow> bool" where
  push_back_value: "is_value v \<Longrightarrow> array_push_value a v = Inr b \<Longrightarrow> array_step a b"
| push_back_array: "array_push_array a v = Inr b \<Longrightarrow> array_step a b"
| insert_value: "is_value v \<Longrightarrow> array_insert_value a i v = Inr b \<Longrightarrow> array_step a b"
| insert_array: "array_insert_array a i v = Inr b \<Longrightarrow> array_step a b"
| erase: "array_erase a i = Inr b \<Longrightarrow> array_step a b"
| clear: "array_step a (array_clear a)"

lemma same_kind_laws:
  "same_kind x y \<Longrightarrow> same_kind y x" "same_kind x y \<Longrightarrow> same_kind y z \<Longrightarrow> same_kind x z"
  "same_kind x y \<Longrightarrow> same_kind x x" "same_kind x y \<Longrightarrow> numeric x \<longleftrightarrow> numeric y"
  by (cases x; cases y; cases z; simp add: numeric_def)+

lemma same_kind_refl: "is_value v \<or> is_array v \<Longrightarrow> same_kind v v"
  by (cases v) auto

lemma converts_kinds: "is_value v \<Longrightarrow> converts_to_type_of x v \<Longrightarrow> same_kind x v \<or> numeric x \<and> numeric v"
  by (cases v; cases x) (auto simp: numeric_def)

lemma one_kind_added:
  assumes "one_kind a" and "set b = insert v (set a)" and "same_kind v v" and "x \<in> set a" and "same_kind x v \<or> numeric x \<and> numeric v"
  shows "one_kind b"
proof (cases "\<forall>x \<in> set a. numeric x")
  case True
  with assms(2,4,5) same_kind_laws(4) show ?thesis by (auto simp: one_kind_def)
next
  case False
  with assms(1) have same: "\<forall>x \<in> set a. \<forall>y \<in> set a. same_kind x y" by (auto simp: one_kind_def)
  with False assms(4) have "\<not> numeric x" using same_kind_laws(4) by blast
  with assms(5) have "same_kind x v" by blast
  with same assms(2-4) same_kind_laws(1,2) have "\<forall>x \<in> set b. \<forall>y \<in> set b. same_kind x y" by simp blast
  then show ?thesis by (simp add: one_kind_def)
qed

lemma one_kind_subset: "one_kind a \<Longrightarrow> set b \<subseteq> set a \<Longrightarrow> one_kind b"
  unfolding one_kind_def by blast

lemma vector_insert_set: "vector_insert i v a = Inr b \<Longrightarrow> set b = insert v (set a)"
  by (auto simp: vector_insert_def split: if_splits) (metis Un_iff append_take_drop_id set_append)+

lemma vector_erase_set: "vector_erase i a = Inr b \<Longrightarrow> set b \<subseteq> set a"
  by (auto simp: vector_erase_def split: if_splits dest: in_set_takeD in_set_dropD)

lemma added_kind:
  assumes "one_kind a" and "set b = insert v (set a)" and "is_value v \<or> is_array v"
    and "\<And>x xs. a = x # xs \<Longrightarrow> same_kind x v \<or> numeric x \<and> numeric v"
  shows "one_kind b"
proof (cases a)
  case Nil
  with assms(2,3) show ?thesis by (simp add: one_kind_def same_kind_refl)
next
  case (Cons x xs)
  then show ?thesis using one_kind_added [OF assms(1,2) same_kind_refl [OF assms(3)], of x] assms(4) by simp
qed

lemma array_step_one_kind: "array_step a b \<Longrightarrow> one_kind a \<Longrightarrow> one_kind b"
proof (induction rule: array_step.induct)
  case (push_back_value v a b)
  then show ?case
    by (intro added_kind [of a b v]) (auto simp: array_push_value_def converts_kinds split: list.splits if_splits)
next
  case (push_back_array a v b)
  then show ?case
    by (intro added_kind [of a b "TArray v"]) (auto simp: array_push_array_def split: list.splits if_splits elim!: is_array.elims)
next
  case (insert_value v a i b)
  then show ?case
    by (intro added_kind [of a b v]) (auto simp: array_insert_value_def converts_kinds vector_insert_set split: list.splits if_splits)
next
  case (insert_array a i v b)
  then show ?case
    by (intro added_kind [of a b "TArray v"])
      (auto simp: array_insert_array_def vector_insert_set split: list.splits if_splits elim!: is_array.elims)
next
  case (erase a i b)
  then show ?case using one_kind_subset vector_erase_set unfolding array_erase_def by blast
next
  case (clear a)
  then show ?case by (simp add: array_clear_def one_kind_def)
qed

text \<open>
  C40: What an array made by any sequence of insertions and removals can hold: elements of one type, or integers and doubles mixed. The test compares a new
  element with the first one only, and an integer passes for a double.
\<close>

theorem array_holds_one_kind:
  assumes "array_step\<^sup>*\<^sup>* [] a"
  shows "(\<forall>x \<in> set a. \<forall>y \<in> set a. same_kind x y) \<or> (\<forall>x \<in> set a. numeric x)"
proof -
  from assms have "one_kind a"
    by (induction rule: rtranclp_induct) (auto simp: one_kind_def [of "[]"] intro: array_step_one_kind)
  then show ?thesis by (simp add: one_kind_def)
qed

theorem array_holds_one_kind_witness:
  "array_step\<^sup>*\<^sup>* [] [TDouble (0::nat), TInt 1] \<and> numeric (TDouble (0::nat)) \<and> numeric (TInt 1 :: nat toml)"
proof -
  have "array_step [] [TInt 1 :: nat toml]"
    by (rule array_step.push_back_value [of "TInt 1"]) (simp_all add: array_push_value_def)
  moreover have "array_step [TInt 1 :: nat toml] [TDouble 0, TInt 1]"
    by (rule array_step.insert_value [of "TDouble 0" _ 0]) (simp_all add: array_insert_value_def vector_insert_def)
  ultimately have r: "array_step\<^sup>*\<^sup>* [] [TDouble (0::nat), TInt 1]" by (blast intro: rtranclp.intros)
  have "\<not> same_kind (TDouble (0::nat)) (TInt 1)" by simp
  with array_holds_one_kind [OF r] r show ?thesis by simp
qed

subsection \<open>Optional results\<close>

text \<open>
  \<open>get_as\<close> with a default never throws: it gives the value of the key where it has one of the type asked for, and the default where the key is missing
  or of another type.
\<close>

theorem default_value:
  "\<exists>r. get_as conv t k = Inr r \<and>
     value_or (held_result d r) alternative = (case Option.bind (map_of t k) conv of None \<Rightarrow> alternative | Some v \<Rightarrow> v)"
  by (auto simp: get_as_def get_def catch_out_of_range_def held_result_def held_empty_def held_of_def value_or_def split: option.splits)

subsection \<open>Dates of a local time\<close>

text \<open>What \<open>%z\<close> gives for an offset of \<open>m\<close> minutes.\<close>

definition zone_of :: "int \<Rightarrow> string" where
  "zone_of m = (if m < 0 then CHR ''-'' else CHR ''+'') # padded 2 (\<bar>m\<bar> div 60) @ padded 2 (\<bar>m\<bar> mod 60)"

lemma stoi_signed:
  assumes "c = CHR ''-'' \<or> c = CHR ''+''" and "ds \<noteq> []" and "\<forall>x \<in> set ds. is_digit x" and "digits_value ds \<le> 2147483647"
  shows "stoi (c # ds) = Inr (if c = CHR ''-'' then - digits_value ds else digits_value ds)"
proof -
  have sign: "\<not> is_space c" "c \<noteq> nul" using assms(1) by (auto simp: is_space_def uchar_def)
  have "c_str (c # ds) = c # ds" using assms(3) sign digit_facts(4) by (intro c_str_id) auto
  then show ?thesis
    using assms sign digits_value_nonneg [OF assms(3)]
    by (auto simp: stoi_def strtol_def Let_def takeWhile_all LONG_MAX_def LONG_MIN_def)
qed

lemma digits_value_append: "digits_value (xs @ ys) = digits_value xs * 10 ^ length ys + digits_value ys"
proof (induction ys rule: rev_induct)
  case (snoc y ys)
  then show ?case using digits_value_snoc [of "xs @ ys" y] by (simp add: digits_value_snoc algebra_simps)
qed simp

lemma stoi_zone:
  assumes "\<bar>m\<bar> < 6000"
  shows "stoi (zone_of m) = Inr (sgn m * (100 * (\<bar>m\<bar> div 60) + \<bar>m\<bar> mod 60))"
proof -
  define h where "h = \<bar>m\<bar> div 60"
  define k where "k = \<bar>m\<bar> mod 60"
  have b: "0 \<le> h" "h < 10 ^ 2" "0 \<le> k" "k < 10 ^ 2" using assms by (simp_all add: h_def k_def)
  note h = padded_facts [OF b(1,2), simplified] and k = padded_facts [OF b(3,4), simplified]
  let ?ds = "padded 2 h @ padded 2 k" and ?c = "if m < 0 then CHR ''-'' else CHR ''+''"
  have v: "digits_value ?ds = 100 * h + k" using h k by (simp add: digits_value_append)
  have "?ds \<noteq> []" using h(1) by force
  moreover have "\<forall>x \<in> set ?ds. is_digit x" using h(2) k(2) by (auto simp: is_number_def)
  moreover have "digits_value ?ds \<le> 2147483647" unfolding v using b by simp
  ultimately have "stoi (?c # ?ds) = Inr (if ?c = CHR ''-'' then - digits_value ?ds else digits_value ?ds)"
    by (intro stoi_signed) simp_all
  moreover have "(if ?c = CHR ''-'' then - digits_value ?ds else digits_value ?ds) = sgn m * (100 * h + k)"
  proof (cases "m = 0")
    case True
    then have "h = 0" "k = 0" by (simp_all add: h_def k_def)
    then show ?thesis using v True by simp
  next
    case False
    then show ?thesis using v by (simp add: sgn_if)
  qed
  ultimately show ?thesis by (simp add: zone_of_def h_def k_def)
qed

text \<open>An offset as it was written: hours and minutes with the sign of the whole.\<close>

lemma offset_parts:
  fixes h k s :: int
  assumes "0 \<le> h" and "0 \<le> k" and "k < 100" and "s = 1 \<or> s = - 1"
  shows "sgn (s * (100 * h + k)) * (\<bar>s * (100 * h + k)\<bar> div 100) = s * h"
    and "sgn (s * (100 * h + k)) * (\<bar>s * (100 * h + k)\<bar> mod 100) = s * k"
proof -
  have "(100 * h + k) div 100 = h" "(100 * h + k) mod 100 = k" "0 \<le> 100 * h + k" using assms by simp_all
  moreover have "sgn (100 * h + k) = 1 \<or> h = 0 \<and> k = 0" using assms by (auto simp: sgn_if)
  ultimately show "sgn (s * (100 * h + k)) * (\<bar>s * (100 * h + k)\<bar> div 100) = s * h"
    and "sgn (s * (100 * h + k)) * (\<bar>s * (100 * h + k)\<bar> mod 100) = s * k"
    using assms(4) by (auto simp only: sgn_mult abs_mult abs_of_nonneg) simp_all
qed

lemma from_local_zone:
  assumes "calendar t" and "\<bar>m\<bar> < 6000"
  shows "from_local t (zone_of m) = Inr \<lparr>year = tm_year t + 1900, month = tm_mon t + 1, day = tm_mday t, hour = tm_hour t,
    minute = tm_min t, second = tm_sec t, microsecond = 0, hour_offset = sgn m * (\<bar>m\<bar> div 60), minute_offset = sgn m * (\<bar>m\<bar> mod 60)\<rparr>"
proof -
  define h where "h = \<bar>m\<bar> div 60"
  define k where "k = \<bar>m\<bar> mod 60"
  have b: "0 \<le> h" "0 \<le> k" "k < 100" by (simp_all add: h_def k_def)
  let ?o = "sgn m * (100 * h + k)"
  have o: "sgn ?o * (\<bar>?o\<bar> div 100) = sgn m * h \<and> sgn ?o * (\<bar>?o\<bar> mod 100) = sgn m * k"
  proof (cases "m = 0")
    case False
    then have "sgn m = 1 \<or> sgn m = - 1" by (auto simp: sgn_if)
    from offset_parts [OF b this] show ?thesis by blast
  qed simp
  have "\<not> (2147483647 < tm_year t + 1900 \<or> 2147483647 < tm_mon t + 1)" using assms(1) by (simp add: calendar_def)
  then show ?thesis using stoi_zone [OF assms(2)] o unfolding from_local_def from_utc_def h_def k_def by (simp only: if_False andThen_simps) simp
qed

text \<open>
  A date made of a local time is printed and read back unchanged, whatever white space or comment follows it, for every offset of whole minutes but those from 1 to
  59 minutes east, which are printed with a minus sign.
\<close>

theorem local_date_roundtrip:
  assumes "calendar t" and "\<bar>m\<bar> < 6000" and "m \<le> 0 \<or> 60 \<le> m" and "trailing r"
  shows "\<exists>dt. from_local t (zone_of m) = Inr dt \<and> hour_offset dt * 60 + minute_offset dt = m \<and>
    parse_date ln (show_datetime dt @ r) = Inr (dt, r)"
proof -
  define h where "h = \<bar>m\<bar> div 60"
  define k where "k = \<bar>m\<bar> mod 60"
  define dt where "dt = \<lparr>year = tm_year t + 1900, month = tm_mon t + 1, day = tm_mday t,
      hour = tm_hour t, minute = tm_min t, second = tm_sec t, microsecond = 0, hour_offset = sgn m * h, minute_offset = sgn m * k\<rparr>"
  have dt: "from_local t (zone_of m) = Inr dt" using from_local_zone [OF assms(1,2)] by (simp add: dt_def h_def k_def)
  have b: "0 \<le> h" "h < 100" "0 \<le> k" "k < 60" using assms(2) by (simp_all add: h_def k_def)
  have pos: "0 < h" if "0 < m" using that assms(3) by (simp add: h_def pos_imp_zdiv_pos_iff)
  have "sgn m = 1 \<and> 0 < m \<or> sgn m = 0 \<or> sgn m = - 1 \<and> m < 0" by (auto simp: sgn_if)
  then have "datetime_ok dt" using assms(1) b pos by (auto simp: dt_def datetime_ok_def calendar_def)
  then have "parse_date ln (show_datetime dt @ r) = Inr (dt, r)" using printed_date [OF _ assms(4)] by blast
  moreover have "hour_offset dt * 60 + minute_offset dt = m"
  proof -
    have "h * 60 + k = \<bar>m\<bar>" by (simp add: h_def k_def)
    then have "sgn m * (h * 60 + k) = m" by (simp only: sgn_mult_abs)
    then show ?thesis by (simp add: dt_def algebra_simps)
  qed
  ultimately show ?thesis using dt by blast
qed

theorem local_date_roundtrip_witness:
  "\<exists>dt. from_local example_tm ''+0830'' = Inr dt \<and> parse_date 1 (show_datetime dt @ '' # x'') = Inr (dt, '' # x'')"
proof -
  have "zone_of 510 = ''+0830''" by (simp add: zone_of_def padded_def show_int_def show_nat.simps digit_chars Let_def)
  moreover have "trailing '' # x''" by (simp add: trailing_def is_blank_def consume_whitespace_def)
  ultimately show ?thesis using local_date_roundtrip [OF calendar_example_tm, of 510 "'' # x''" 1] by auto
qed

end
