(* ===== verification/Toml_Invariant.thy ===== *)
theory Toml_Invariant
  imports Toml_Build
begin

section \<open>The invariant of a parsed tree (\<open>cpptoml.h\<close>)\<close>

text \<open>
  What the program that reads a parsed tree may rely on: keys are distinct in every table, a table array has at least one table (the parser calls \<open>back()\<close> of it without a
  test), the values of an array are of one kind, integers fit 64 bits, and the fields of a date are those of its digits. Each function of the parser keeps
  the invariant if the calls it makes do.
\<close>

subsection \<open>The invariant\<close>

definition date_in_digits :: "datetime \<Rightarrow> bool" where
  "date_in_digits dt \<longleftrightarrow> 0 \<le> year dt \<and> year dt < 10000 \<and> 0 \<le> month dt \<and> month dt < 100 \<and> 0 \<le> day dt \<and> day dt < 100 \<and>
     0 \<le> hour dt \<and> hour dt < 100 \<and> 0 \<le> minute dt \<and> minute dt < 100 \<and> 0 \<le> second dt \<and> second dt < 100 \<and>
     0 \<le> microsecond dt \<and> microsecond dt \<le> 2147483647 \<and> \<bar>hour_offset dt\<bar> < 100 \<and> \<bar>minute_offset dt\<bar> < 100 \<and>
     (0 \<le> hour_offset dt \<and> 0 \<le> minute_offset dt \<or> hour_offset dt \<le> 0 \<and> minute_offset dt \<le> 0)"

definition nested :: "'d toml \<Rightarrow> bool" where
  "nested v \<longleftrightarrow> is_array v \<or> is_table_array v"

inductive tree_ok :: "'d toml \<Rightarrow> bool" where
  string: "tree_ok (TString s)"
| int: "LONG_MIN \<le> i \<Longrightarrow> i \<le> LONG_MAX \<Longrightarrow> tree_ok (TInt i)"
| double: "tree_ok (TDouble d)"
| date: "date_in_digits dt \<Longrightarrow> tree_ok (TDatetime dt)"
| bool: "tree_ok (TBool b)"
| array: "\<forall>v \<in> set vs. tree_ok v \<Longrightarrow> one_kind vs \<or> (\<forall>v \<in> set vs. nested v) \<Longrightarrow> tree_ok (TArray vs)"
| table: "distinct (map fst t) \<Longrightarrow> \<forall>kv \<in> set t. tree_ok (snd kv) \<Longrightarrow> tree_ok (TTable t)"
| table_array: "ts \<noteq> [] \<Longrightarrow> \<forall>t \<in> set ts. tree_ok (TTable t) \<Longrightarrow> tree_ok (TTableArray ts)"

inductive_simps tree_ok_simps [simp]:
  "tree_ok (TString s)" "tree_ok (TInt i)" "tree_ok (TDouble d)" "tree_ok (TDatetime dt)" "tree_ok (TBool b)" "tree_ok (TArray vs)"
  "tree_ok (TTableArray ts)"

inductive_simps table_ok: "tree_ok (TTable t)"

lemma empty_table_ok [simp]: "tree_ok (TTable [])"
  by (simp add: table_ok)

lemma insert_key_ok: "tree_ok (TTable t) \<Longrightarrow> tree_ok v \<Longrightarrow> tree_ok (TTable (insert_key t k v))"
  by (induction t) (auto simp: table_ok insert_key_def dom_update update_keys split: if_splits)

lemma map_of_ok: "tree_ok (TTable t) \<Longrightarrow> map_of t k = Some v \<Longrightarrow> tree_ok v"
  by (auto simp: table_ok dest!: map_of_SomeD)

subsection \<open>Values\<close>

lemma parse_int_ok: "parse_int ln v = Inr x \<Longrightarrow> tree_ok x"
  by (auto simp: parse_int_def stoll_def Let_def split: option.splits if_splits)

lemma parse_float_ok: "parse_float stod ln v = Inr x \<Longrightarrow> tree_ok x"
  by (auto simp: parse_float_def split: option.splits)

lemma parse_number_ok: "parse_number stod ln r = Inr (x, q) \<Longrightarrow> tree_ok x"
  by (auto simp: parse_number_def Let_def fault_simps split: if_splits dest: parse_int_ok parse_float_ok)

lemma eat_digits_bounds:
  "eat_digits ln after n val d = Inr (v, q) \<Longrightarrow> 0 \<le> val \<Longrightarrow> 0 \<le> v \<and> v < (val + 1) * 10 ^ n"
proof (induction ln "after" n val d rule: eat_digits.induct)
  case (2 ln "after" n val d)
  then obtain x where x: "is_number x" "eat_digits ln after n (10 * val + (uchar x - 48)) (tl d) = Inr (v, q)"
    and "peek (d @ after) = Inr x" "d \<noteq> []"
    by (auto simp: fault_simps split: if_splits)
  from x(1) have "0 \<le> uchar x - 48" "uchar x - 48 \<le> 9" by (simp_all add: is_number_def is_digit_def)
  moreover from this have "0 \<le> v \<and> v < (10 * val + (uchar x - 48) + 1) * 10 ^ n"
    using 2 x \<open>peek (d @ after) = Inr x\<close> \<open>d \<noteq> []\<close> by simp
  moreover from calculation have "(10 * val + (uchar x - 48) + 1) * 10 ^ n \<le> (10 * (val + 1)) * 10 ^ n"
    by (intro mult_right_mono) simp_all
  moreover have "(10 * (val + 1)) * 10 ^ n = (val + 1) * 10 ^ Suc n" by (simp add: mult.assoc mult.left_commute)
  ultimately show ?case by linarith
qed simp

lemma eat_fraction_bounds: "eat_fraction us d = Inr (v, q) \<Longrightarrow> 0 \<le> us \<Longrightarrow> us \<le> 2147483647 \<Longrightarrow> 0 \<le> v \<and> v \<le> 2147483647"
proof (induction us d rule: eat_fraction.induct)
  case (2 us c d)
  have "0 \<le> uchar c - 48" if "is_number c" using that by (simp add: is_number_def is_digit_def)
  with 2 show ?case by (auto simp: Let_def split: if_splits)
qed simp

text \<open>A property of the result when there is one, and how it goes through the reading of a date.\<close>

definition yields :: "'a eff \<Rightarrow> ('a \<Rightarrow> bool) \<Rightarrow> bool" where
  "yields m P \<longleftrightarrow> (\<forall>x. m = Inr x \<longrightarrow> P x)"

lemma yields_digits:
  "(\<And>v q. 0 \<le> v \<Longrightarrow> v < 10 ^ n \<Longrightarrow> yields (f v q) P) \<Longrightarrow> yields (andThen (eat_digits ln after n 0 d) (\<lambda>(v, q). f v q)) P"
  using eat_digits_bounds [of ln "after" n 0 d] by (fastforce simp: yields_def fault_simps)

lemma yields_fraction:
  "(\<And>v q. 0 \<le> v \<Longrightarrow> v \<le> 2147483647 \<Longrightarrow> yields (f v q) P) \<Longrightarrow>
     yields (andThen (if b then andThen (advance d) (eat_fraction 0) else Inr (0, d)) (\<lambda>(v, q). f v q)) P"
  using eat_fraction_bounds [of 0] by (fastforce simp: yields_def fault_simps split: if_splits)

lemma yields_bind: "(\<And>x. yields (f x) P) \<Longrightarrow> yields (andThen m f) P"
  by (auto simp: yields_def fault_simps)

lemma yields_if: "(b \<Longrightarrow> yields m P) \<Longrightarrow> (\<not> b \<Longrightarrow> yields m' P) \<Longrightarrow> yields (if b then m else m') P"
  by simp

lemma yields_result: "yields (throw ln e) P" "P x \<Longrightarrow> yields (Inr x) P"
  by (simp_all add: yields_def)

lemma date_fields_ok: "yields (date_fields ln after d) date_in_digits"
  unfolding date_fields_def Let_def
proof (rule yields_digits, rule yields_bind, rule yields_digits, rule yields_bind, rule yields_digits, rule yields_bind,
    rule yields_digits, rule yields_bind, rule yields_digits, rule yields_bind, rule yields_digits, rule yields_bind, rule yields_fraction,
    rule yields_if, rule yields_result, unfold if_distrib [of "\<lambda>m. andThen m f" for f] andThen_assoc prod.case_distrib,
    rule yields_if, goal_cases)
  case 1
  then show ?case by (auto simp: yields_def fault_simps date_in_digits_def split: if_splits dest!: eat_digits_bounds)
next
  case 2
  then show ?case by (auto simp: yields_def fault_simps date_in_digits_def split: if_splits)
qed

lemma parse_date_ok: "parse_date ln r = Inr (dt, q) \<Longrightarrow> tree_ok (TDatetime dt)"
  using date_fields_ok by (auto simp: parse_date_def Let_def fault_simps yields_def)

subsection \<open>The functions that call each other\<close>

text \<open>What a call is given and what it gives; the loop over inline tables is only entered at the brace of the first or with one collected.\<close>

fun job_ok :: "'d job \<Rightarrow> scanner \<Rightarrow> bool" where
  "job_ok Value s = True"
| "job_ok Array s = True"
| "job_ok (Value_array ty vs) s = (\<forall>v \<in> set vs. tree_ok v \<and> has_type ty v)"
| "job_ok (Object_array (Arrays vs)) s = (\<forall>v \<in> set vs. tree_ok v \<and> nested v)"
| "job_ok (Object_array (Tables ts)) s = ((\<forall>t \<in> set ts. tree_ok (TTable t)) \<and> (ts = [] \<longrightarrow> cur s \<noteq> [] \<and> hd (cur s) \<noteq> CHR '']''))"
| "job_ok (Inline_table t) s = tree_ok (TTable t)"
| "job_ok (Key_value t) s = tree_ok (TTable t)"

fun result_kind :: "'d job \<Rightarrow> 'd toml \<Rightarrow> bool" where
  "result_kind Value v = True"
| "result_kind (Inline_table t) v = is_table v"
| "result_kind (Key_value t) v = is_table v"
| "result_kind j v = nested v"

definition calls_ok :: "('d job \<Rightarrow> scanner \<Rightarrow> 'd parsed) \<Rightarrow> bool" where
  "calls_ok call \<longleftrightarrow> (\<forall>j s v s'. call j s = Some (Inr (v, s')) \<longrightarrow> job_ok j s \<longrightarrow> tree_ok v \<and> result_kind j v)"

lemma calls_okD: "calls_ok call \<Longrightarrow> call j s = Some (Inr (v, s')) \<Longrightarrow> job_ok j s \<Longrightarrow> tree_ok v \<and> result_kind j v"
  unfolding calls_ok_def by blast

lemma has_type_kinds: "has_type ty x \<Longrightarrow> has_type ty y \<Longrightarrow> same_kind x y \<or> numeric x \<and> numeric y"
  by (cases ty; cases x; cases y) (auto simp: numeric_def)

lemma has_type_one_kind:
  assumes "\<forall>v \<in> set vs. has_type ty v"
  shows "one_kind vs"
proof (cases "ty = FLOAT")
  case True
  have "has_type FLOAT v \<Longrightarrow> numeric v" for v :: "'a toml" by (cases v) (auto simp: numeric_def)
  with True assms show ?thesis by (auto simp: one_kind_def)
next
  case False
  then have "has_type ty x \<Longrightarrow> has_type ty y \<Longrightarrow> same_kind x y" for x y :: "'a toml" by (cases ty; cases x; cases y) auto
  with assms show ?thesis by (auto simp: one_kind_def)
qed

lemma parse_value_ok:
  assumes "calls_ok call" and "parse_value call stod s = Some (Inr (v, s'))"
  shows "tree_ok v"
  using assms(2)
  by (auto simp: parse_value_def thenP_Inr fault_simps on_line_def split: parse_type.splits
      dest: parse_number_ok parse_date_ok calls_okD [OF assms(1)])
    (metis parse_type.exhaust)

lemma parse_array_ok:
  assumes "calls_ok call" and "parse_array call s = Some (Inr (v, s'))"
  shows "tree_ok v \<and> nested v"
proof -
  obtain s2 where "v = TArray [] \<or> (\<exists>ty. determine_value_type (line_number s2) (cur s2) (first_value_length (cur s2)) = Inr ty \<and>
      (ty = ARRAY \<and> call (Object_array (Arrays [])) s2 = Some (Inr (v, s')) \<or>
       ty = INLINE_TABLE \<and> call (Object_array (Tables [])) s2 = Some (Inr (v, s')) \<or>
       call (Value_array ty []) s2 = Some (Inr (v, s'))))"
    using assms(2) by (auto simp: parse_array_def thenP_Inr split: if_splits parse_type.splits) (metis parse_type.exhaust)
  moreover have "cur s2 \<noteq> [] \<and> hd (cur s2) \<noteq> CHR '']''" if "determine_value_type (line_number s2) (cur s2) n = Inr INLINE_TABLE" for n
    using that by (cases "cur s2") (auto simp: determine_value_type_def determine_number_type_def Let_def throw_def split: if_splits)
  ultimately show ?thesis using calls_okD [OF assms(1)]
    by (fastforce simp: one_kind_def nested_def)
qed

lemma value_array_ok:
  assumes "calls_ok call" and "job_ok (Value_array ty vs) s" and "value_array call ty vs s = Some (Inr (v, s'))"
  shows "tree_ok v \<and> nested v"
proof (cases "cur s = [] \<or> hd (cur s) = CHR '']''")
  case True
  with assms(2,3) has_type_one_kind [of vs ty] show ?thesis by (auto simp: value_array_def nested_def)
next
  case False
  with assms(3) obtain w s1 where 1: "call Value s = Some (Inr (w, s1))" and ty: "has_type ty w"
    and v: "v = TArray (vs @ [w]) \<or> (\<exists>s3. call (Value_array ty (vs @ [w])) s3 = Some (Inr (v, s')))"
    by (auto simp: value_array_def thenP_Inr split: if_splits)
  have ok: "\<forall>x \<in> set (vs @ [w]). tree_ok x \<and> has_type ty x" using assms(2) ty calls_okD [OF assms(1) 1] by auto
  with v show ?thesis
  proof (elim disjE exE)
    assume "v = TArray (vs @ [w])"
    with ok has_type_one_kind [of "vs @ [w]" ty] show ?thesis by (simp add: nested_def)
  next
    fix s3 assume "call (Value_array ty (vs @ [w])) s3 = Some (Inr (v, s'))"
    from calls_okD [OF assms(1) this] ok show ?thesis by (simp add: nested_def)
  qed
qed

lemma object_array_end_ok:
  assumes "object_array_end os s = Some (Inr (v, s'))"
  shows "v = object_result os \<and> cur s \<noteq> [] \<and> hd (cur s) = CHR '']''"
  using assms by (auto simp: object_array_end_def split: if_splits)

lemma object_result_ok: "job_ok (Object_array os) s \<Longrightarrow> os \<noteq> Tables [] \<Longrightarrow> tree_ok (object_result os) \<and> nested (object_result os)"
  by (cases os) (auto simp: nested_def)

lemma collect_object_ok:
  assumes "job_ok (Object_array os) s" and "tree_ok w" and "result_kind (object_call os) w"
  shows "job_ok (Object_array (collect_object os w)) s1 \<and> collect_object os w \<noteq> Tables []"
  using assms by (cases os; cases w) (auto simp: nested_def)

lemma object_array_ok:
  assumes "calls_ok call" and "job_ok (Object_array os) s" and "object_array call os s = Some (Inr (v, s'))"
  shows "tree_ok v \<and> nested v"
proof (cases "cur s = [] \<or> hd (cur s) = CHR '']''")
  case True
  with assms(3) have e: "v = object_result os" "cur s \<noteq> []" "hd (cur s) = CHR '']''"
    by (auto simp: object_array_def dest!: object_array_end_ok)
  with assms(2) have "os \<noteq> Tables []" by auto
  with object_result_ok [OF assms(2)] e(1) show ?thesis by simp
next
  case False
  with assms(3) obtain w s1 s2 where 1: "call (object_call os) s = Some (Inr (w, s1))"
    and v: "object_array_end (collect_object os w) s2 = Some (Inr (v, s')) \<or>
      (\<exists>s3. call (Object_array (collect_object os w)) s3 = Some (Inr (v, s')))"
    by (auto simp: object_array_def thenP_Inr split: if_splits)
  have "job_ok (object_call os) s" by (cases os) simp_all
  from calls_okD [OF assms(1) 1 this] have c: "job_ok (Object_array (collect_object os w)) x \<and> collect_object os w \<noteq> Tables []" for x
    using collect_object_ok [OF assms(2)] by blast
  from v show ?thesis
  proof (elim disjE exE)
    assume "object_array_end (collect_object os w) s2 = Some (Inr (v, s'))"
    from object_array_end_ok [OF this] object_result_ok c show ?thesis by blast
  next
    fix s3 assume "call (Object_array (collect_object os w)) s3 = Some (Inr (v, s'))"
    from calls_okD [OF assms(1) this] c show ?thesis by simp
  qed
qed

lemma is_table_as: "is_table v \<Longrightarrow> v = TTable (case as_table v of None \<Rightarrow> [] | Some u \<Rightarrow> u)"
  by (cases v) auto

lemma inline_table_ok:
  assumes "calls_ok call" and "tree_ok (TTable t)" and "inline_table call t s = Some (Inr (v, s'))"
  shows "tree_ok v \<and> is_table v"
proof -
  obtain s1 w s2 s3 where 2: "call (Key_value t) s1 = Some (Inr (w, s2))"
    and v: "let t1 = (case as_table w of None \<Rightarrow> [] | Some u \<Rightarrow> u) in call (Inline_table t1) s3 = Some (Inr (v, s')) \<or> v = TTable t1"
    using assms(3) by (auto simp: inline_table_def thenP_Inr Let_def split: if_splits)
  define t1 where "t1 = (case as_table w of None \<Rightarrow> [] | Some u \<Rightarrow> u)"
  have "tree_ok w" "is_table w" using calls_okD [OF assms(1) 2] assms(2) by simp_all
  then have "tree_ok (TTable t1)" using is_table_as [of w] by (simp add: t1_def)
  with v show ?thesis using calls_okD [OF assms(1), of "Inline_table t1" s3 v s'] by (auto simp: Let_def simp flip: t1_def)
qed

lemma parse_key_value_ok:
  assumes "calls_ok call" and "tree_ok (TTable t)" and "parse_key_value call t s = Some (Inr (v, s'))"
  shows "tree_ok v \<and> is_table v"
proof -
  obtain key w s1 s2 where "call Value s1 = Some (Inr (w, s2))" "v = TTable (insert_key t key w)"
    using assms(3) by (auto simp: parse_key_value_def thenP_Inr split: if_splits)
  with calls_okD [OF assms(1)] insert_key_ok [OF assms(2)] show ?thesis by auto
qed

lemma run_ok: "calls_ok (run stod n)"
proof (induction n)
  case 0
  show ?case by (simp add: calls_ok_def)
next
  case (Suc n)
  show ?case
    unfolding calls_ok_def
  proof (intro allI impI)
    fix j s and v :: "'a toml" and s' assume r: "run stod (Suc n) j s = Some (Inr (v, s'))" and ok: "job_ok j s"
    note steps = parse_value_ok parse_array_ok value_array_ok [unfolded job_ok.simps] object_array_ok inline_table_ok parse_key_value_ok
    show "tree_ok v \<and> result_kind j v"
      using r ok by (cases j) (auto simp: job_step_def dest: steps [OF Suc])
  qed
qed

subsection \<open>The tree under headers\<close>

lemma table_at_ok: "tree_ok (TTable t) \<Longrightarrow> table_at ks t = Some u \<Longrightarrow> tree_ok (TTable u)"
proof (induction ks t rule: table_at.induct)
  case (2 k ks t)
  from 2(4) obtain x where x: "map_of t k = Some x" by (auto split: option.splits)
  with 2(3) have "tree_ok x" by (rule map_of_ok)
  with 2 x show ?case by (cases x) (auto split: if_splits)
qed simp

lemma update_at_ok:
  "tree_ok (TTable t) \<Longrightarrow> (\<And>u. tree_ok (TTable u) \<Longrightarrow> tree_ok (TTable (f u))) \<Longrightarrow> tree_ok (TTable (update_at ks f t))"
proof (induction ks f t rule: update_at.induct)
  case (2 k ks f t)
  show ?case
  proof (cases "map_of t k")
    case (Some x)
    with 2(3) have "tree_ok x" by (rule map_of_ok)
    with 2 Some show ?thesis by (cases x) (auto intro!: insert_key_ok dest!: in_set_butlastD)
  qed (use 2 in simp)
qed simp

lemma table_part_ok:
  assumes "tree_ok (TTable root)" and "table_part ln root path full ins part = Inr (root', path', ins')"
  shows "tree_ok (TTable root')"
  using assms by (auto simp: table_part_def fault_simps split: option.splits if_splits intro!: update_at_ok insert_key_ok)

lemma array_part_ok:
  assumes "tree_ok (TTable root)" and "array_part ln root path full at_end part = Inr (root', path')"
  shows "tree_ok (TTable root')"
proof -
  obtain t where t: "table_at path root = Some t" using assms(2) by (auto simp: array_part_def split: option.splits)
  have ok: "tree_ok (TTable t)" using assms(1) t by (rule table_at_ok)
  consider "root' = root"
    | us where "map_of t part = Some (TTableArray us)" "root' = update_at path (\<lambda>t. insert_key t part (TTableArray (us @ [[]]))) root"
    | "root' = update_at path (\<lambda>t. insert_key t part (if at_end then TTableArray [[]] else TTable [])) root"
    using assms(2) t
    by (auto simp: array_part_def fault_simps get_def split: option.splits if_splits elim!: as_table_array.elims)
  then show ?thesis
  proof cases
    case (2 us)
    with map_of_ok [OF ok] show ?thesis using assms(1) by (force intro!: update_at_ok insert_key_ok)
  qed (use assms(1) in \<open>auto intro!: update_at_ok insert_key_ok\<close>)
qed

lemma single_table_loop_ok:
  "tree_ok (TTable root) \<Longrightarrow> single_table_loop ln root path full ins r = Inr (root', path', full', ins', q) \<Longrightarrow> tree_ok (TTable root')"
proof (induction ln root path full ins r rule: single_table_loop.induct)
  case (1 ln root path full ins r)
  show ?case
  proof (cases "r = [] \<or> hd r = CHR '']''")
    case True
    with 1 show ?thesis by (simp add: single_table_loop.simps [of ln root])
  next
    case False
    have e: "single_table_loop ln root path full ins r = Inr (root', path', full', ins', q)" by (rule 1)
    obtain part u root1 path1 ins1 where k: "parse_key header_stop ln r = Inr (part, u)" "part \<noteq> []"
      and p: "table_part ln root path (full_name full part) ins part = Inr (root1, path1, ins1)"
      and l: "single_table_loop ln root1 path1 (full_name full part) ins1 (skip_dot u) = Inr (root', path', full', ins', q)"
      using e False by (subst (asm) single_table_loop.simps) (auto simp: fault_simps split: if_splits)
    from 1(1) [OF False k(1) refl k(2) p refl refl table_part_ok [OF 1(2) p] l] show ?thesis .
  qed
qed

lemma table_array_loop_ok:
  "tree_ok (TTable root) \<Longrightarrow> table_array_loop ln root path full r = Inr (root', path', q) \<Longrightarrow> tree_ok (TTable root')"
proof (induction ln root path full r rule: table_array_loop.induct)
  case (1 ln root path full r)
  show ?case
  proof (cases "r = [] \<or> hd r = CHR '']''")
    case True
    with 1 show ?thesis by (simp add: table_array_loop.simps [of ln root])
  next
    case False
    have e: "table_array_loop ln root path full r = Inr (root', path', q)" by (rule 1)
    obtain part u root1 path1 where k: "parse_key header_stop ln r = Inr (part, u)" "part \<noteq> []"
      and p: "array_part ln root path (full_name full part) (skip_dot u \<noteq> [] \<and> hd (skip_dot u) = CHR '']'') part = Inr (root1, path1)"
      and l: "table_array_loop ln root1 path1 (full_name full part) (skip_dot u) = Inr (root', path', q)"
      using e False by (subst (asm) table_array_loop.simps) (auto simp: fault_simps Let_def split: if_splits)
    from 1(1) [OF False k(1) refl k(2) refl p refl array_part_ok [OF 1(2) p] l] show ?thesis .
  qed
qed

lemma parse_table_ok:
  assumes "tree_ok (TTable root)" and "parse_table ln root r = Inr (root', path)"
  shows "tree_ok (TTable root')"
  using assms(2)
  by (auto simp: parse_table_def parse_single_table_def parse_table_array_def Let_def fault_simps split: if_splits
      dest: single_table_loop_ok [OF assms(1)] table_array_loop_ok [OF assms(1)])

lemma parse_lines_ok:
  "tree_ok (TTable root) \<Longrightarrow> parse_lines stod n root path ln ls = Some (Inr t) \<Longrightarrow> tree_ok (TTable t)"
proof (induction n arbitrary: root path ln ls)
  case (Suc n)
  show ?case
  proof (cases ls)
    case Nil
    with Suc.prems show ?thesis by simp
  next
    case (Cons l ls1)
    let ?r = "consume_whitespace l"
    consider "?r = [] \<or> hd ?r = CHR ''#''" | "\<not> (?r = [] \<or> hd ?r = CHR ''#'')" "hd ?r = CHR ''[''"
      | "\<not> (?r = [] \<or> hd ?r = CHR ''#'')" "hd ?r \<noteq> CHR ''[''" by blast
    then show ?thesis
    proof cases
      case 1
      with Suc Cons show ?thesis by (simp add: Let_def)
    next
      case 2
      with Suc.prems(2) Cons obtain root1 path1 where "parse_table (ln + 1) root ?r = Inr (root1, path1)"
        "parse_lines stod n root1 path1 (ln + 1) ls1 = Some (Inr t)"
        by (auto simp: Let_def thenP_Inr)
      with Suc.IH parse_table_ok [OF Suc.prems(1)] show ?thesis by blast
    next
      case 3
      with Suc.prems(2) Cons obtain u v s where u: "table_at path root = Some u"
        and v: "run stod n (Key_value u) \<lparr>cur = ?r, input_lines = ls1, line_number = ln + 1\<rparr> = Some (Inr (v, s))"
        and t: "parse_lines stod n (update_at path (\<lambda>_. case as_table v of None \<Rightarrow> [] | Some u \<Rightarrow> u) root) path (line_number s) (input_lines s) = Some (Inr t)"
        by (auto simp: Let_def thenP_Inr split: option.splits)
      have "tree_ok v \<and> is_table v" using calls_okD [OF run_ok v] table_at_ok [OF Suc.prems(1) u] by simp
      then have "tree_ok (TTable (case as_table v of None \<Rightarrow> [] | Some u \<Rightarrow> u))" using is_table_as by metis
      with Suc.prems(1) have "tree_ok (TTable (update_at path (\<lambda>_. case as_table v of None \<Rightarrow> [] | Some u \<Rightarrow> u) root))"
        by (intro update_at_ok) auto
      from Suc.IH [OF this t] show ?thesis .
    qed
  qed
qed simp

text \<open>
  C32: Whatever text it is given, the tree that \<open>parse\<close> returns has distinct keys in every table, no empty table array, arrays of one kind (or of arrays and table arrays),
  integers of 64 bits, and dates with fields of the digits the format has.
\<close>

theorem parsed_tree_ok:
  assumes "parse stod text = Some (Inr t)"
  shows "tree_ok (TTable t)"
  using assms parse_lines_ok [OF empty_table_ok] unfolding parse_def by blast

theorem parsed_tree_ok_witness:
  "\<exists>t. parse (\<lambda>_. None :: nat option) (print_table (\<lambda>_. []) example_tree) = Some (Inr t) \<and> t \<noteq> [] \<and> tree_ok (TTable t)"
proof -
  have p: "printable example_tree"
    by (simp add: printable.simps example_tree_def word_key_def word_char_def LONG_MIN_def LONG_MAX_def)
  from document_reads [OF print_leads(1) [OF p]] print_leads(2) [OF p]
  have "parse (\<lambda>_. None :: nat option) (print_table (\<lambda>_. []) example_tree) = Some (Inr (arrange example_tree))"
    by (simp add: leads_def)
  moreover have "arrange example_tree \<noteq> []" by (simp add: example_tree_def arrange.simps is_group_def)
  ultimately show ?thesis using parsed_tree_ok by blast
qed

end
