(* ===== verification/Win_Runtime.thy ===== *)
theory Win_Runtime
  imports Config
begin

section \<open>Paths and settings on Windows (\<open>Runtime.cc\<close>, \<open>TOMLParse.cc\<close>, Windows part)\<close>

text \<open>
  The same functions as in \<open>Paths\<close>, and the end of \<open>ParseServiceProfile\<close>, as the Windows build has them. The system calls are
  the fields of a \<open>windows\<close>: \<open>to_wide cp\<close> is \<open>MultiByteToWideChar\<close> from the code page \<open>cp\<close> (\<open>None\<close> for 0), \<open>to_bytes\<close>
  is \<open>WideCharToMultiByte\<close> to the code page of the system, \<open>attributes_known\<close> whether \<open>GetFileAttributesW\<close> answers, for
  a null pointer too. A wide string is the list of its 16-bit units without the NUL. \<open>profile_dir\<close> is the
  folder \<open>SHGetKnownFolderPath\<close> gives; the build with another compiler takes \<open>getenv("USERPROFILE")\<close>, \<open>user_profile\<close>.

  The properties: which settings file is read, and that the names in a settings file arrive as written where the code pages agree.
\<close>

subsection \<open>The system\<close>

type_synonym wide = "16 word list"

record windows =
  to_wide :: "nat \<Rightarrow> string \<Rightarrow> wide option"
  to_bytes :: "wide \<Rightarrow> string option"
  module_file :: "wide option"
  remove_file_spec :: "wide \<Rightarrow> bool \<times> wide"
  attributes_known :: "wide option \<Rightarrow> bool"
  microsoft_compiler :: bool
  profile_dir :: "wide option"
  user_profile :: "string option"

definition CP_ACP :: nat where
  "CP_ACP = 0"

definition CP_UTF8 :: nat where
  "CP_UTF8 = 65001"

subsection \<open>Conversions\<close>

text \<open>The three classes; the result is what \<open>Get()\<close> returns, \<open>None\<close> for a null pointer. A failed \<open>WideCharToMultiByte\<close> leaves an empty string.\<close>

definition CharacterA :: "windows \<Rightarrow> wide option \<Rightarrow> string option" where
  "CharacterA win wstr =
     (case wstr of
        None \<Rightarrow> None
      | Some w \<Rightarrow> Some (case to_bytes win w of None \<Rightarrow> [] | Some s \<Rightarrow> c_str s))"

definition CharacterW :: "windows \<Rightarrow> string option \<Rightarrow> wide option" where
  "CharacterW win str = (case str of None \<Rightarrow> None | Some s \<Rightarrow> to_wide win CP_ACP s)"

definition CharacterFlip :: "windows \<Rightarrow> string option \<Rightarrow> string option" where
  "CharacterFlip win u8 =
     (case u8 of
        None \<Rightarrow> None
      | Some s \<Rightarrow>
          (case to_wide win CP_UTF8 s of
             None \<Rightarrow> None
           | Some w \<Rightarrow> Some (case to_bytes win w of None \<Rightarrow> [] | Some t \<Rightarrow> c_str t)))"

subsection \<open>Paths\<close>

definition GetProcessImageFileFolder_win :: "windows \<Rightarrow> string \<Rightarrow> (bool \<times> string) eff" where
  "GetProcessImageFileFolder_win win dir =
     (case module_file win of
        None \<Rightarrow> Inr (False, dir)
      | Some buffer \<Rightarrow>
          (case remove_file_spec win buffer of
             (removed, buffer1) \<Rightarrow>
               if \<not> removed then Inr (False, dir)
               else andThen (deref (CharacterA win (Some buffer1))) (\<lambda>d. Inr (True, d))))"

definition PathFileIsExists_win :: "windows \<Rightarrow> string \<Rightarrow> bool" where
  "PathFileIsExists_win win path = (if path = [] then False else attributes_known win (CharacterW win (Some (c_str path))))"

text \<open>Assigning a null \<open>char*\<close> to a string, and \<open>back()\<close> of an empty one, are undefined.\<close>

definition PathCombineHomeExists_win :: "windows \<Rightarrow> string \<Rightarrow> string option \<Rightarrow> (bool \<times> string) eff" where
  "PathCombineHomeExists_win win path relativePath =
     (case relativePath of
        None \<Rightarrow> Inr (False, path)
      | Some rel \<Rightarrow>
          if microsoft_compiler win \<and> profile_dir win = None then Inr (False, path)
          else
            andThen (deref (if microsoft_compiler win then CharacterA win (profile_dir win) else user_profile win)) (\<lambda>d.
              if d = [] then Inl OutOfBounds
              else
                let p1 = (if last d \<noteq> CHR 0x5C then d @ [CHR 0x5C] else d);
                    rel1 = (case rel of [] \<Rightarrow> [] | c # cs \<Rightarrow> if c = CHR 0x5C \<or> c = CHR ''/'' then cs else rel)
                in Inr (True, p1 @ rel1)))"

subsection \<open>Settings\<close>

definition profile_file_win :: "windows \<Rightarrow> string option \<Rightarrow> string option eff" where
  "profile_file_win win =
     search_profile (GetProcessImageFileFolder_win win []) (PathFileIsExists_win win)
       (\<lambda>path rel. PathCombineHomeExists_win win path (Some rel))"

text \<open>A file name of the settings, from UTF-8 to the code page of the system.\<close>

definition flipped :: "windows \<Rightarrow> 'd table \<Rightarrow> string \<Rightarrow> string \<Rightarrow> string eff" where
  "flipped win g key v = andThen (Strings g key v) (\<lambda>s. deref (CharacterFlip win (Some (c_str s))))"

definition read_launcher_win :: "windows \<Rightarrow> 'd table \<Rightarrow> LauncherArgs eff" where
  "read_launcher_win win g =
     andThen (flipped win g ''Router.RangeFile'' ''router.toml'') (\<lambda>rf.
     andThen (flipped win g ''Logger.Access'' ''svnsrv.access.log'') (\<lambda>la.
     andThen (flipped win g ''Logger.Error'' ''svnsrv.error.log'') (\<lambda>le.
     andThen (flipped win g ''Daemon.PidFile'' ''svnsrv.pid'') (\<lambda>pf.
     andThen (Boolean g ''Daemon.CrashRestart'' False) (\<lambda>cr.
       Inr \<lparr>pidFile = pf, log_access_file = la, log_error_file = le, routerFile = rf, crashRestart = cr\<rparr>)))))"

definition ParseServiceProfile_win ::
    "windows \<Rightarrow> (string \<Rightarrow> 'd table eff) \<Rightarrow> string option \<Rightarrow> NetworkServerArgs \<Rightarrow> LauncherArgs \<Rightarrow>
     (bool \<times> NetworkServerArgs \<times> LauncherArgs) eff" where
  "ParseServiceProfile_win win parse_file configfile =
     load_profile (profile_file_win win configfile) parse_file (read_launcher_win win)"

subsection \<open>Properties\<close>

text \<open>
  The code pages agree on a text: its bytes read as UTF-8 or in the code page of the system give the same wide string, and this gives the bytes
  back. Microsoft documents that for ASCII.
\<close>

definition agreed :: "windows \<Rightarrow> string \<Rightarrow> bool" where
  "agreed win s \<longleftrightarrow> nul \<notin> set s \<and> (\<exists>w. to_wide win CP_UTF8 s = Some w \<and> to_wide win CP_ACP s = Some w \<and> to_bytes win w = Some s)"

lemma flip_agreed: "agreed win s \<Longrightarrow> CharacterFlip win (Some (c_str s)) = Some s"
  by (auto simp: agreed_def CharacterFlip_def c_str_id)

text \<open>
  A settings file that gives every value is loaded as written on Windows as well, as long as the code pages agree on the four file
  names in it.
\<close>

theorem profile_loaded_win:
  fixes parse_file :: "string \<Rightarrow> 'd table eff"
  assumes "profile_file_win win c = Inr (Some f)" and "parse_file f = Inr (settings_table na la)"
    and "\<forall>s \<in> {routerFile la, log_access_file la, log_error_file la, pidFile la}. agreed win s"
  shows "ParseServiceProfile_win win parse_file c na0 la0 = Inr (True, na, la)"
proof -
  have "read_launcher_win win (settings_table na la :: 'd table) = Inr la"
    using assms(3) by (simp add: read_launcher_win_def flipped_def profile_lookup settings_table_def flip_agreed)
  then show ?thesis using assms(1,2) by (simp add: ParseServiceProfile_win_def load_profile_def read_settings_table)
qed

text \<open>ASCII as Windows converts it.\<close>

definition widen :: "string \<Rightarrow> wide" where
  "widen s = map (\<lambda>c. word_of_nat (of_char c)) s"

definition narrow :: "wide \<Rightarrow> string" where
  "narrow w = map (\<lambda>x. char_of (unat x)) w"

lemma narrow_widen [simp]: "narrow (widen s) = s"
proof -
  have "unat (word_of_nat (of_char c) :: 16 word) = (of_char c :: nat)" for c
  proof -
    have "(of_char c :: nat) < 65536" using nat_of_char_less_256 [of c] by linarith
    then have "(of_char c :: nat) mod 65536 = of_char c" by (rule mod_less)
    then show ?thesis by (simp only: unat_of_nat) simp
  qed
  then show ?thesis by (simp add: narrow_def widen_def comp_def)
qed

definition example_windows :: windows where
  "example_windows =
     \<lparr>to_wide = (\<lambda>_ s. Some (widen s)), to_bytes = (\<lambda>w. Some (narrow w)), module_file = Some (widen (''C:'' @ [CHR 0x5C] @ ''svn'' @ [CHR 0x5C] @ ''svnsrv.exe'')),
      remove_file_spec = (\<lambda>w. (True, widen (''C:'' @ [CHR 0x5C] @ ''svn''))),
      attributes_known = (\<lambda>w. w = Some (widen (''C:'' @ [CHR 0x5C] @ ''svn/svnsrv.toml''))), microsoft_compiler = True,
      profile_dir = Some (widen (''C:'' @ [CHR 0x5C] @ ''me'')), user_profile = None\<rparr>"

lemma example_agreed: "nul \<notin> set s \<Longrightarrow> agreed example_windows s"
  by (simp add: agreed_def example_windows_def)

lemma profile_search_eq:
  assumes "module_file win = Some m" and "remove_file_spec win m = (True, w)" and "to_bytes win w = Some d" and "nul \<notin> set d"
    and "microsoft_compiler win" and "profile_dir win = Some hw" and "to_bytes win hw = Some h" and "nul \<notin> set h" and "h \<noteq> []"
    and "last h \<noteq> CHR 0x5C"
  shows "profile_file_win win None = Inr (Some
    (if PathFileIsExists_win win (d @ ''/svnsrv.toml'') then d @ ''/svnsrv.toml''
     else if PathFileIsExists_win win ''svnsrv.toml'' then ''svnsrv.toml''
     else h @ [CHR 0x5C] @ ''.svnsrv/svnsrv.toml''))"
  using assms
  by (simp add: profile_file_win_def search_profile_def GetProcessImageFileFolder_win_def PathCombineHomeExists_win_def CharacterA_def c_str_id)

text \<open>
  Without a \<open>-c\<close> option the settings file is looked for beside the executable and in the working directory; the one below the home directory
  is taken without a test whether it exists, unlike on the other systems.
\<close>

theorem profile_search_win:
  assumes "module_file win = Some m" and "remove_file_spec win m = (True, w)" and "to_bytes win w = Some d" and "nul \<notin> set d"
    and "microsoft_compiler win" and "profile_dir win = Some hw" and "to_bytes win hw = Some h" and "nul \<notin> set h" and "h \<noteq> []"
    and "last h \<noteq> CHR 0x5C"
  shows "profile_file_win win None = Inr (Some
    (if PathFileIsExists_win win (d @ ''/svnsrv.toml'') then d @ ''/svnsrv.toml''
     else if PathFileIsExists_win win ''svnsrv.toml'' then ''svnsrv.toml''
     else h @ [CHR 0x5C] @ ''.svnsrv/svnsrv.toml''))"
  using assms by (rule profile_search_eq)

theorem profile_search_win_witness:
  "profile_file_win (example_windows\<lparr>attributes_known := (\<lambda>w. False)\<rparr>) None =
    Inr (Some (''C:'' @ [CHR 0x5C] @ ''me'' @ [CHR 0x5C] @ ''.svnsrv/svnsrv.toml''))"
  using profile_search_win [of "example_windows\<lparr>attributes_known := (\<lambda>w. False)\<rparr>"]
  by (simp add: example_windows_def PathFileIsExists_win_def)

theorem profile_loaded_win_witness:
  "ParseServiceProfile_win example_windows (\<lambda>_. Inr (settings_table example_network example_launcher :: nat table)) None
     (example_network\<lparr>net_port := 0\<rparr>) (example_launcher\<lparr>pidFile := []\<rparr>) = Inr (True, example_network, example_launcher)"
proof -
  have "profile_file_win example_windows None = Inr (Some (''C:'' @ [CHR 0x5C] @ ''svn/svnsrv.toml''))"
    by (simp add: profile_search_eq [of _ _ "widen (''C:'' @ [CHR 0x5C] @ ''svn'')"] example_windows_def PathFileIsExists_win_def CharacterW_def c_str_def)
  then show ?thesis
    by (rule profile_loaded_win [where parse_file = "\<lambda>_. Inr (settings_table example_network example_launcher :: nat table)"])
      (simp_all add: example_launcher_def example_agreed)
qed

end
