(* ===== verification/Process_Title.thy ===== *)
theory Process_Title
  imports Svn_Prelude
begin

section \<open>The process title (\<open>ProcessTitle.hpp\<close>)\<close>

text \<open>
  A worker overwrites its command line with a title. The kernel lays the argument strings and behind them the environment
  strings out in one area; \<open>initializeProcessEnv\<close> copies the environment strings of the area to the heap and
  leaves in \<open>lastArgv\<close> the area's last byte, \<open>changeProcessTitle\<close> writes the title over the area.

  Memory is a list of objects, each with its address and its bytes; an access that is not inside one object is a fault. A
  null pointer in \<open>argv\<close> or \<open>environ\<close> is \<open>None\<close>. The block \<open>malloc\<close> gives is an argument, its
  bytes included, as they are indeterminate.

  The properties: on an area laid out as the kernel does it the title replaces the command line and no environment
  variable changes; on an area that is too small for the title \<open>memset\<close> gets a negative size.
\<close>

subsection \<open>Memory\<close>

type_synonym memory = "(int \<times> string) list"

text \<open>What is left, from an address on, of the object it lies in.\<close>

fun bytes_at :: "memory \<Rightarrow> int \<Rightarrow> string option" where
  "bytes_at [] p = None"
| "bytes_at ((a, b) # m) p =
     (if a \<le> p \<and> p < a + int (length b) then Some (drop (nat (p - a)) b) else bytes_at m p)"

definition strlen :: "memory \<Rightarrow> int \<Rightarrow> nat eff" where
  "strlen m p =
     (case bytes_at m p of
        None \<Rightarrow> Inl OutOfBounds
      | Some t \<Rightarrow> if nul \<in> set t then Inr (length (c_str t)) else Inl OutOfBounds)"

fun store_bytes :: "memory \<Rightarrow> int \<Rightarrow> string \<Rightarrow> memory eff" where
  "store_bytes m p [] = Inr m"
| "store_bytes [] p (c # cs) = Inl OutOfBounds"
| "store_bytes ((a, b) # m) p (c # cs) =
     (if a \<le> p \<and> p < a + int (length b) then
        let k = nat (p - a); n = length (c # cs) in
        if k + n \<le> length b then Inr ((a, take k b @ (c # cs) @ drop (k + n) b) # m) else Inl OutOfBounds
      else andThen (store_bytes m p (c # cs)) (\<lambda>m'. Inr ((a, b) # m')))"

text \<open>The size of \<open>memset\<close> and \<open>strncpy\<close> is a \<open>size_t\<close>: a negative difference is larger than any object.\<close>

definition store_sized :: "memory \<Rightarrow> int \<Rightarrow> int \<Rightarrow> (nat \<Rightarrow> string) \<Rightarrow> memory eff" where
  "store_sized m p n bytes = (if n < 0 then Inl OutOfBounds else store_bytes m p (bytes (nat n)))"

subsection \<open>The two operations\<close>

record title_state =
  memory :: memory
  argv :: "int option list"
  environ :: "int option list"
  lastArgv :: int

fun env_size :: "memory \<Rightarrow> int option list \<Rightarrow> nat eff" where
  "env_size m [] = Inl OutOfBounds"
| "env_size m (None # ps) = Inr 0"
| "env_size m (Some p # ps) = andThen (strlen m p) (\<lambda>n. andThen (env_size m ps) (\<lambda>r. Inr (n + 1 + r)))"

fun last_of_args :: "memory \<Rightarrow> int option list \<Rightarrow> int \<Rightarrow> int eff" where
  "last_of_args m [] l = Inl OutOfBounds"
| "last_of_args m (None # ps) l = Inr l"
| "last_of_args m (Some p # ps) l =
     (if l = p then andThen (strlen m p) (\<lambda>n. last_of_args m ps (p + int n + 1)) else last_of_args m ps l)"

fun move_env :: "memory \<Rightarrow> int option list \<Rightarrow> int \<Rightarrow> int \<Rightarrow> (memory \<times> int option list \<times> int) eff" where
  "move_env m [] l d = Inl OutOfBounds"
| "move_env m (None # ps) l d = Inr (m, None # ps, l)"
| "move_env m (Some p # ps) l d =
     (if l = p then
        andThen (strlen m p) (\<lambda>n.
        andThen (store_bytes m d (take (n + 1) (the (bytes_at m p)))) (\<lambda>m1.
        andThen (move_env m1 ps (p + int (n + 1)) (d + int (n + 1))) (\<lambda>(m2, es, l'). Inr (m2, Some d # es, l'))))
      else andThen (move_env m ps l d) (\<lambda>(m1, es, l'). Inr (m1, Some p # es, l')))"

definition initializeProcessEnv :: "(int \<times> string) option \<Rightarrow> title_state \<Rightarrow> (bool \<times> title_state) eff" where
  "initializeProcessEnv block s =
     andThen (env_size (memory s) (environ s)) (\<lambda>size.
       case block of
         None \<Rightarrow> Inr (False, s)
       | Some (p, bytes) \<Rightarrow>
           case argv s of
             Some a # _ \<Rightarrow>
               andThen (last_of_args (memory s) (argv s) a) (\<lambda>l.
               andThen (move_env (memory s @ [(p, take size bytes)]) (environ s) l p) (\<lambda>(m, es, l').
                 Inr (True, s\<lparr>memory := m, environ := es, lastArgv := l' - 1\<rparr>)))
           | _ \<Rightarrow> Inl NullDeref)"

definition changeProcessTitle :: "string \<Rightarrow> title_state \<Rightarrow> title_state eff" where
  "changeProcessTitle title s =
     (case argv s of
        Some a # _ # rest \<Rightarrow>
          andThen (store_sized (memory s) a (lastArgv s - a) (\<lambda>n. take n (c_str title @ replicate n nul))) (\<lambda>m1.
          andThen (strlen m1 a) (\<lambda>n.
            let p = a + int n + 1 in
            andThen (if lastArgv s - p \<noteq> 0 then store_sized m1 p (lastArgv s - p) (\<lambda>n. replicate n nul) else Inr m1) (\<lambda>m2.
              Inr (s\<lparr>memory := m2, argv := Some a # None # rest\<rparr>))))
      | None # _ # _ \<Rightarrow> Inl NullDeref
      | _ \<Rightarrow> Inl OutOfBounds)"

text \<open>The two calls of the worker, one after the other.\<close>

definition relabel :: "(int \<times> string) option \<Rightarrow> string \<Rightarrow> title_state \<Rightarrow> title_state eff" where
  "relabel block title s = andThen (initializeProcessEnv block s) (\<lambda>(_, s1). changeProcessTitle title s1)"

subsection \<open>The area as the kernel lays it out\<close>

definition proc_cmdline :: "string list \<Rightarrow> string" where
  "proc_cmdline args = concat (map (\<lambda>a. a @ [nul]) args)"

lemma proc_cmdline_simps [simp]:
  "proc_cmdline [] = []"
  "proc_cmdline (a # as) = a @ nul # proc_cmdline as"
  "proc_cmdline (as @ bs) = proc_cmdline as @ proc_cmdline bs"
  by (simp_all add: proc_cmdline_def)

fun pointers :: "int \<Rightarrow> string list \<Rightarrow> int option list" where
  "pointers a [] = [None]"
| "pointers a (s # ss) = Some a # pointers (a + int (length s) + 1) ss"

definition laid_out :: "int \<Rightarrow> string list \<Rightarrow> string list \<Rightarrow> int \<Rightarrow> title_state" where
  "laid_out a args envs l = \<lparr>memory = [(a, proc_cmdline (args @ envs))], argv = pointers a args,
     environ = pointers (a + int (length (proc_cmdline args))) envs, lastArgv = l\<rparr>"

subsection \<open>Facts\<close>

lemma c_str_at: "nul \<notin> set a \<Longrightarrow> c_str (a @ nul # r) = a"
  unfolding c_str_def by (rule takeWhile_append_stop) auto

lemma bytes_at_block: "bytes_at ((a, pre @ c # post) # m) (a + int (length pre)) = Some (c # post)"
  by simp

lemma strlen_block:
  assumes "nul \<notin> set s" and "p = a + int (length pre)"
  shows "strlen ((a, pre @ s @ nul # post) # m) p = Inr (length s)"
  using assms by (simp add: strlen_def c_str_at)

lemma env_size_block:
  assumes "\<forall>e \<in> set envs. nul \<notin> set e" and "p = a + int (length pre)"
  shows "env_size ((a, pre @ proc_cmdline envs @ post) # m) (pointers p envs) = Inr (length (proc_cmdline envs))"
  using assms
proof (induction envs arbitrary: pre p)
  case (Cons e envs)
  from Cons.IH [where pre = "pre @ e @ [nul]" and p = "p + int (length e) + 1"] Cons.prems show ?case
    by (simp add: strlen_block)
qed simp

lemma last_of_args_block:
  assumes "\<forall>e \<in> set args. nul \<notin> set e" and "p = a + int (length pre)"
  shows "last_of_args ((a, pre @ proc_cmdline args @ post) # m) (pointers p args) p = Inr (p + int (length (proc_cmdline args)))"
  using assms
proof (induction args arbitrary: pre p)
  case (Cons e args)
  from Cons.IH [where pre = "pre @ e @ [nul]" and p = "p + int (length e) + 1"] Cons.prems show ?case
    by (simp add: strlen_block)
qed simp

lemma store_bytes_second:
  assumes "a + int (length b) \<le> h \<or> h + int (length front + length bs + length rest) \<le> a" and "bs \<noteq> []"
  shows "store_bytes [(a, b), (h, front @ old @ rest)] (h + int (length front)) bs =
    (if length bs \<le> length old + length rest then Inr [(a, b), (h, front @ bs @ drop (length bs) (old @ rest))] else Inl OutOfBounds)"
  using assms by (cases bs) (auto simp: Let_def)

lemma move_env_block:
  assumes "\<forall>e \<in> set envs. nul \<notin> set e" and "p = a + int (length pre)" and "d = h + int (length front)"
    and "length g = length (proc_cmdline envs)"
    and "a + int (length (pre @ proc_cmdline envs)) \<le> h \<or> h + int (length (front @ g)) \<le> a"
  shows "move_env [(a, pre @ proc_cmdline envs), (h, front @ g)] (pointers p envs) p d =
    Inr ([(a, pre @ proc_cmdline envs), (h, front @ proc_cmdline envs)], pointers d envs, p + int (length (proc_cmdline envs)))"
  using assms
proof (induction envs arbitrary: pre front g p d)
  case (Cons e envs)
  let ?b = "pre @ proc_cmdline (e # envs)" and ?s = "e @ [nul]"
  have n: "strlen [(a, ?b), (h, front @ g)] p = Inr (length e)"
    using Cons.prems(1,2) by (simp add: strlen_block)
  have t: "take (length e + 1) (the (bytes_at [(a, ?b), (h, front @ g)] p)) = ?s"
    using Cons.prems(2) by simp
  have "store_bytes [(a, ?b), (h, front @ take (length ?s) g @ drop (length ?s) g)] (h + int (length front)) ?s =
      (if length ?s \<le> length (take (length ?s) g) + length (drop (length ?s) g)
       then Inr [(a, ?b), (h, front @ ?s @ drop (length ?s) (take (length ?s) g @ drop (length ?s) g))] else Inl OutOfBounds)"
    by (rule store_bytes_second) (use Cons.prems(4,5) in auto)
  moreover have "length ?s \<le> length (take (length ?s) g) + length (drop (length ?s) g)" using Cons.prems(4) by simp
  ultimately have st: "store_bytes [(a, ?b), (h, front @ g)] d ?s = Inr [(a, ?b), (h, front @ ?s @ drop (length ?s) g)]"
    unfolding Cons.prems(3) by (simp only: append_take_drop_id if_True)
  have "move_env [(a, (pre @ ?s) @ proc_cmdline envs), (h, (front @ ?s) @ drop (length ?s) g)]
      (pointers (p + int (length e) + 1) envs) (p + int (length e) + 1) (d + int (length e) + 1) =
    Inr ([(a, (pre @ ?s) @ proc_cmdline envs), (h, (front @ ?s) @ proc_cmdline envs)],
      pointers (d + int (length e) + 1) envs, p + int (length e) + 1 + int (length (proc_cmdline envs)))"
    by (rule Cons.IH) (use Cons.prems in auto)
  then have rest: "move_env [(a, ?b), (h, front @ ?s @ drop (length ?s) g)]
      (pointers (p + int (length e) + 1) envs) (p + int (length e + 1)) (d + int (length e + 1)) =
    Inr ([(a, ?b), (h, front @ proc_cmdline (e # envs))],
      pointers (d + int (length e) + 1) envs, p + int (length (proc_cmdline (e # envs))))"
    by (simp add: ac_simps)
  show ?case by (simp only: pointers.simps move_env.simps if_True refl n andThen_simps t st rest prod.case)
qed simp

text \<open>The area once the environment has been moved to a block of the heap.\<close>

definition env_moved :: "int \<Rightarrow> string list \<Rightarrow> string list \<Rightarrow> int \<Rightarrow> title_state" where
  "env_moved a args envs h = \<lparr>memory = [(a, proc_cmdline (args @ envs)), (h, proc_cmdline envs)], argv = pointers a args,
     environ = pointers h envs, lastArgv = a + int (length (proc_cmdline (args @ envs))) - 1\<rparr>"

definition apart :: "int \<Rightarrow> string list \<Rightarrow> string list \<Rightarrow> int \<Rightarrow> bool" where
  "apart a args envs h \<longleftrightarrow> a + int (length (proc_cmdline (args @ envs))) \<le> h \<or> h + int (length (proc_cmdline envs)) \<le> a"

lemma initializeProcessEnv_laid_out:
  assumes "args \<noteq> []" and "\<forall>s \<in> set (args @ envs). nul \<notin> set s" and "apart a args envs h"
    and "length (proc_cmdline envs) \<le> length g"
  shows "initializeProcessEnv (Some (h, g)) (laid_out a args envs l) = Inr (True, env_moved a args envs h)"
proof -
  let ?m = "[(a, proc_cmdline args @ proc_cmdline envs)]" and ?p = "a + int (length (proc_cmdline args))"
  obtain x xs where args: "args = x # xs" using assms(1) by (cases args) auto
  have size: "env_size ?m (pointers ?p envs) = Inr (length (proc_cmdline envs))"
    using env_size_block [of envs ?p a "proc_cmdline args" "[]" "[]"] assms(2) by simp
  have last: "last_of_args ?m (pointers a args) a = Inr ?p"
    using last_of_args_block [of args a a "[]" "proc_cmdline envs" "[]"] assms(2) by simp
  have move: "move_env (?m @ [(h, take (length (proc_cmdline envs)) g)]) (pointers ?p envs) ?p h =
      Inr ([(a, proc_cmdline args @ proc_cmdline envs), (h, proc_cmdline envs)], pointers h envs, ?p + int (length (proc_cmdline envs)))"
    using move_env_block [of envs ?p a "proc_cmdline args" h h "[]" "take (length (proc_cmdline envs)) g"] assms(2-4)
    by (simp add: apart_def min_absorb2)
  have ptr: "pointers a args = Some a # pointers (a + int (length x) + 1) xs" by (simp add: args)
  show ?thesis
    using size last move by (simp add: initializeProcessEnv_def laid_out_def env_moved_def ptr)
qed

lemma store_bytes_first: "bs \<noteq> [] \<Longrightarrow> store_bytes ((a, pre @ old @ post) # m) (a + int (length pre)) bs =
  (if length bs \<le> length old + length post then Inr ((a, pre @ bs @ drop (length bs) (old @ post)) # m) else Inl OutOfBounds)"
  if "old @ post \<noteq> []"
  using that by (cases bs; cases old; cases post) (auto simp: Let_def)

lemma pointers_Cons: "args \<noteq> [] \<Longrightarrow> \<exists>q rest. pointers a args = Some a # q # rest"
  by (cases args; cases "tl args") auto

lemma take_padded: "length t \<le> n \<Longrightarrow> take n (t @ replicate n c) = t @ replicate (n - length t) c"
  by (simp add: min_def)

lemma replicate_Suc_append: "replicate k c @ c # xs = c # replicate k c @ xs"
  by (induction k) auto

lemma changeProcessTitle_steps:
  assumes "nul \<notin> set t" and "k = la - a" and "0 \<le> k"
    and "store_bytes m a (take (nat k) (t @ replicate (nat k) nul)) = Inr m1" and "strlen m1 a = Inr n"
  shows "changeProcessTitle t \<lparr>memory = m, argv = Some a # q # rest, environ = es, lastArgv = la\<rparr> =
    andThen (if k - (int n + 1) \<noteq> 0 then store_sized m1 (a + int n + 1) (k - (int n + 1)) (\<lambda>n. replicate n nul) else Inr m1)
      (\<lambda>m2. Inr \<lparr>memory = m2, argv = Some a # None # rest, environ = es, lastArgv = la\<rparr>)"
  using assms(3-5) by (simp add: changeProcessTitle_def store_sized_def c_str_id [OF assms(1)] assms(2) Let_def algebra_simps)

lemma changeProcessTitle_moved:
  assumes "args \<noteq> []" and "nul \<notin> set t" and "length (proc_cmdline (args @ envs)) = L" and "length t + 2 \<le> L"
  shows "\<exists>q rest. pointers a args = Some a # q # rest \<and> changeProcessTitle t (env_moved a args envs h) =
    Inr ((env_moved a args envs h)\<lparr>memory := [(a, t @ replicate (L - length t) nul), (h, proc_cmdline envs)],
      argv := Some a # None # rest\<rparr>)"
proof -
  let ?text = "proc_cmdline (args @ envs)" and ?m = "[(h, proc_cmdline envs)]"
  obtain q rest where ptr: "pointers a args = Some a # q # rest" using pointers_Cons [OF assms(1)] by blast
  obtain body where tx: "?text = body @ [nul]"
  proof -
    obtain xs x where "args @ envs = xs @ [x]" using assms(1) by (metis append_is_Nil_conv rev_exhaust)
    then have "?text = (proc_cmdline xs @ x) @ [nul]" by simp
    then show ?thesis using that by blast
  qed
  then have body: "length body = L - 1" "0 < L" using assms(3) unfolding tx by auto
  have ne: "t @ replicate (L - 1 - length t) nul \<noteq> []" using assms(4) by auto
  have w1: "store_bytes ((a, ?text) # ?m) a (t @ replicate (L - 1 - length t) nul) =
      Inr ((a, t @ replicate (L - 1 - length t) nul @ [nul]) # ?m)"
    using store_bytes_first [of body "[nul]" "t @ replicate (L - 1 - length t) nul" a "[]" ?m] ne body assms(4)
    unfolding tx by simp
  have L: "L - 1 - length t = Suc (L - 2 - length t)" using assms(4) by simp
  have n: "strlen ((a, t @ replicate (L - 1 - length t) nul @ [nul]) # ?m) a = Inr (length t)"
    unfolding L using strlen_block [of t a a "[]" "replicate (L - 2 - length t) nul @ [nul]" ?m] assms(2) by simp
  let ?z = "t @ replicate (L - length t) nul"
  have z: "?z = (t @ [nul]) @ replicate (L - 2 - length t) nul @ [nul]"
    using assms(4) by (simp add: replicate_append_same flip: replicate_Suc)
  have w2: "store_bytes ((a, ?z) # ?m) (a + int (length t) + 1) (replicate (L - 2 - length t) nul) = Inr ((a, ?z) # ?m)"
  proof (cases "L - 2 - length t")
    case 0
    then show ?thesis by simp
  next
    case (Suc k)
    then show ?thesis
      using store_bytes_first [of "replicate (Suc k) nul" "[nul]" "replicate (Suc k) nul" a "t @ [nul]" ?m]
      unfolding z by (simp add: ac_simps)
  qed
  have zz: "t @ replicate (L - 1 - length t) nul @ [nul] = ?z"
    using assms(4) by (simp add: replicate_append_same flip: replicate_Suc)
  let ?k = "int (L - 1)"
  have "changeProcessTitle t (env_moved a args envs h) =
      andThen (if ?k - (int (length t) + 1) \<noteq> 0
        then store_sized ((a, ?z) # ?m) (a + int (length t) + 1) (?k - (int (length t) + 1)) (\<lambda>n. replicate n nul) else Inr ((a, ?z) # ?m))
      (\<lambda>m2. Inr \<lparr>memory = m2, argv = Some a # None # rest, environ = pointers h envs, lastArgv = a + int L - 1\<rparr>)"
    unfolding env_moved_def ptr assms(3)
  proof (rule changeProcessTitle_steps [OF assms(2)])
    show "?k = a + int L - 1 - a" using body(2) by simp
    show "store_bytes ((a, ?text) # ?m) a (take (nat ?k) (t @ replicate (nat ?k) nul)) = Inr ((a, ?z) # ?m)"
      using w1 assms(4) unfolding zz by (simp only: nat_int) (simp add: take_padded)
    show "strlen ((a, ?z) # ?m) a = Inr (length t)" using n unfolding zz .
  qed simp
  moreover have k: "?k - (int (length t) + 1) = int (L - 2 - length t)" using assms(4) by simp
  have "(if ?k - (int (length t) + 1) \<noteq> 0
      then store_sized ((a, ?z) # ?m) (a + int (length t) + 1) (?k - (int (length t) + 1)) (\<lambda>n. replicate n nul) else Inr ((a, ?z) # ?m)) =
      Inr ((a, ?z) # ?m)"
    unfolding k store_sized_def nat_int w2 by simp
  ultimately have "changeProcessTitle t (env_moved a args envs h) =
      Inr \<lparr>memory = (a, ?z) # ?m, argv = Some a # None # rest, environ = pointers h envs, lastArgv = a + int L - 1\<rparr>"
    by (simp only: andThen_simps)
  then have "changeProcessTitle t (env_moved a args envs h) = Inr ((env_moved a args envs h)\<lparr>memory := (a, ?z) # ?m,
      argv := Some a # None # rest\<rparr>)"
    unfolding env_moved_def assms(3) by simp
  with ptr show ?thesis by blast
qed

subsection \<open>Properties\<close>

text \<open>The strings a vector of pointers names.\<close>

fun strings_at :: "memory \<Rightarrow> int option list \<Rightarrow> string list" where
  "strings_at m [] = []"
| "strings_at m (None # ps) = []"
| "strings_at m (Some p # ps) = (case bytes_at m p of None \<Rightarrow> [] | Some b \<Rightarrow> c_str b # strings_at m ps)"

lemma strings_at_second:
  assumes "\<forall>e \<in> set envs. nul \<notin> set e" and "p = h + int (length front)"
    and "a + int (length b) \<le> h \<or> h + int (length (front @ proc_cmdline envs)) \<le> a"
  shows "strings_at [(a, b), (h, front @ proc_cmdline envs)] (pointers p envs) = envs"
  using assms
proof (induction envs arbitrary: front p)
  case (Cons e envs)
  have "strings_at [(a, b), (h, (front @ e @ [nul]) @ proc_cmdline envs)] (pointers (p + int (length e) + 1) envs) = envs"
    by (rule Cons.IH) (use Cons.prems in auto)
  moreover have "bytes_at [(a, b), (h, front @ proc_cmdline (e # envs))] p = Some (e @ nul # proc_cmdline envs)"
    using Cons.prems(2,3) by auto
  ultimately show ?case using Cons.prems(1) by (simp add: c_str_at)
qed simp

lemma title_of_area:
  assumes "args \<noteq> []" and "\<forall>s \<in> set (args @ envs). nul \<notin> set s" and "apart a args envs h"
    and "length (proc_cmdline envs) \<le> length g" and "nul \<notin> set t" and "length t + 2 \<le> length (proc_cmdline (args @ envs))"
  shows "\<exists>s. relabel (Some (h, g)) t (laid_out a args envs l) = Inr s \<and>
    bytes_at (memory s) a = Some (t @ replicate (length (proc_cmdline (args @ envs)) - length t) nul) \<and>
    strings_at (memory s) (argv s) = [t] \<and> strings_at (memory s) (environ s) = envs"
proof -
  let ?L = "length (proc_cmdline (args @ envs))"
  let ?z = "t @ replicate (?L - length t) nul"
  from changeProcessTitle_moved [OF assms(1,5) refl assms(6), of a h] obtain q rest where
    "pointers a args = Some a # q # rest" and c: "changeProcessTitle t (env_moved a args envs h) =
      Inr ((env_moved a args envs h)\<lparr>memory := [(a, ?z), (h, proc_cmdline envs)], argv := Some a # None # rest\<rparr>)"
    by blast
  let ?s = "(env_moved a args envs h)\<lparr>memory := [(a, ?z), (h, proc_cmdline envs)], argv := Some a # None # rest\<rparr>"
  have "relabel (Some (h, g)) t (laid_out a args envs l) = Inr ?s"
    using c by (simp add: relabel_def initializeProcessEnv_laid_out [OF assms(1-4)])
  moreover have b: "bytes_at (memory ?s) a = Some ?z" using assms(6) by simp
  moreover have "?z = t @ nul # replicate (?L - length t - 1) nul"
    using assms(6) by (simp flip: replicate_Suc add: Suc_diff_Suc)
  then have "c_str ?z = t" using assms(5) by (simp add: c_str_at)
  with b have "strings_at (memory ?s) (argv ?s) = [t]" by (simp del: bytes_at.simps)
  moreover have "strings_at (memory ?s) (environ ?s) = envs"
    using strings_at_second [of envs h h "[]" a ?z] assms(2,3,6) by (simp add: env_moved_def apart_def)
  ultimately show ?thesis by blast
qed

text \<open>
  C22: The worker's title: on an area laid out as the kernel does it, with room for the title, the two calls leave the title and NULs in
  the whole area, one argument, and in \<open>environ\<close> the environment variables as they were.
\<close>

theorem title_replaces_arguments:
  assumes "args \<noteq> []" and "\<forall>s \<in> set (args @ envs). nul \<notin> set s" and "apart a args envs h"
    and "length (proc_cmdline envs) \<le> length g" and "nul \<notin> set t" and "length t + 2 \<le> length (proc_cmdline (args @ envs))"
  shows "\<exists>s. relabel (Some (h, g)) t (laid_out a args envs l) = Inr s \<and>
    bytes_at (memory s) a = Some (t @ replicate (length (proc_cmdline (args @ envs)) - length t) nul) \<and>
    strings_at (memory s) (argv s) = [t] \<and> strings_at (memory s) (environ s) = envs"
  using assms by (rule title_of_area)

theorem title_replaces_arguments_witness:
  "\<exists>s. relabel (Some (5000, replicate 64 (CHR ''x''))) ''svnsrv: worker process''
       (laid_out 1000 [''svnsrv'', ''-D''] [''PATH=/bin:/usr/bin'', ''HOME=/root''] 0) = Inr s \<and>
     strings_at (memory s) (argv s) = [''svnsrv: worker process''] \<and>
     strings_at (memory s) (environ s) = [''PATH=/bin:/usr/bin'', ''HOME=/root'']"
  using title_replaces_arguments [of "[''svnsrv'', ''-D'']" "[''PATH=/bin:/usr/bin'', ''HOME=/root'']" 1000 5000
      "replicate 64 (CHR ''x'')" "''svnsrv: worker process''" 0]
  by (fastforce simp: apart_def)

text \<open>
  Without room for the title the worker overruns memory: \<open>strncpy\<close> leaves no NUL but the area's last byte, the pointer behind the
  title lies behind \<open>lastArgv\<close>, and \<open>memset\<close> is called with the difference \<open>- 1\<close> as its size.
\<close>

theorem title_overruns_small_area:
  assumes "args \<noteq> []" and "\<forall>s \<in> set (args @ envs). nul \<notin> set s" and "apart a args envs h"
    and "length (proc_cmdline envs) \<le> length g" and "nul \<notin> set t" and "length (proc_cmdline (args @ envs)) \<le> length t + 1"
  shows "relabel (Some (h, g)) t (laid_out a args envs l) = Inl OutOfBounds"
proof -
  let ?text = "proc_cmdline (args @ envs)" and ?m = "[(h, proc_cmdline envs)]"
  obtain q rest where ptr: "pointers a args = Some a # q # rest" using pointers_Cons [OF assms(1)] by blast
  obtain body where tx: "?text = body @ [nul]"
  proof -
    obtain xs x where "args @ envs = xs @ [x]" using assms(1) by (metis append_is_Nil_conv rev_exhaust)
    then have "?text = (proc_cmdline xs @ x) @ [nul]" by simp
    then show ?thesis using that by blast
  qed
  let ?w = "take (length body) t"
  have le: "length body \<le> length t" using assms(6) unfolding tx by simp
  then have w: "length ?w = length body" "nul \<notin> set ?w" using assms(5) set_take_subset [of "length body" t] by auto
  have w1: "store_bytes ((a, ?text) # ?m) a ?w = Inr ((a, ?w @ [nul]) # ?m)"
  proof (cases body)
    case Nil
    then show ?thesis unfolding tx by simp
  next
    case (Cons c cs)
    with le have "t \<noteq> []" by auto
    with Cons show ?thesis
      using store_bytes_first [of body "[nul]" ?w a "[]" ?m] w(1) unfolding tx by auto
  qed
  have n: "strlen ((a, ?w @ [nul]) # ?m) a = Inr (length body)"
    using strlen_block [of ?w a a "[]" "[]" ?m] w by simp
  let ?k = "int (length body)"
  have "changeProcessTitle t (env_moved a args envs h) =
      andThen (if ?k - (?k + 1) \<noteq> 0
        then store_sized ((a, ?w @ [nul]) # ?m) (a + ?k + 1) (?k - (?k + 1)) (\<lambda>n. replicate n nul) else Inr ((a, ?w @ [nul]) # ?m))
      (\<lambda>m2. Inr \<lparr>memory = m2, argv = Some a # None # rest, environ = pointers h envs, lastArgv = a + int (length ?text) - 1\<rparr>)"
    unfolding env_moved_def ptr
  proof (rule changeProcessTitle_steps [OF assms(5)])
    show "?k = a + int (length ?text) - 1 - a" unfolding tx by simp
    show "store_bytes ((a, ?text) # ?m) a (take (nat ?k) (t @ replicate (nat ?k) nul)) = Inr ((a, ?w @ [nul]) # ?m)"
      using w1 le by simp
    show "strlen ((a, ?w @ [nul]) # ?m) a = Inr (length body)" by (rule n)
  qed simp
  then have "changeProcessTitle t (env_moved a args envs h) = Inl OutOfBounds" by (simp add: store_sized_def)
  then show ?thesis by (simp add: relabel_def initializeProcessEnv_laid_out [OF assms(1-4)])
qed

theorem title_overruns_small_area_witness:
  "relabel (Some (5000, [])) ''svnsrv: worker process'' (laid_out 1000 [''./svnsrv'', ''-D'', ''-c'', ''x.toml''] [] 0) = Inl OutOfBounds"
  by (rule title_overruns_small_area) (simp_all add: apart_def)

end
