(* ===== verification/Daemon_Interface.thy ===== *)
theory Daemon_Interface
  imports Svn_Prelude
begin

section \<open>The interface \<open>Daemonize.h\<close>\<close>

text \<open>
  \<open>Daemonize\<close> and \<open>DaemonStop\<close> have one implementation for each system. What both promise of one pid file: a start that returns 0 leaves its own process in the file;
  while the process the file names is seen, a start returns 1 and leaves the file alone, and a stop addresses that process. \<open>pid_file_daemon\<close> is that
  contract; \<open>Daemon\<close> and \<open>Win_Daemon\<close> interpret it. Its consequence for any sequence of starts is proved here once.
\<close>

text \<open>
  A sequence of starts, each given by the state it finds, who starts, what \<open>Daemonize\<close> returns and the state it leaves. Between two of them
  the file is left alone, and every process that became the daemon (\<open>ps\<close>) is still seen by the one who starts.
\<close>

fun orderly ::
    "('s \<Rightarrow> 'p option) \<Rightarrow> ('e \<Rightarrow> 's \<Rightarrow> 'p \<Rightarrow> bool) \<Rightarrow> ('e \<Rightarrow> 's \<Rightarrow> int \<Rightarrow> 's \<Rightarrow> bool) \<Rightarrow> ('e \<Rightarrow> 'p) \<Rightarrow> 'p list \<Rightarrow> 's \<Rightarrow>
     ('s \<times> 'e \<times> int \<times> 's) list \<Rightarrow> bool" where
  "orderly named sees starts started ps s [] = True"
| "orderly named sees starts started ps s ((s1, e, c, s2) # tr) =
     (named s1 = named s \<and> (\<forall>p \<in> set ps. sees e s1 p) \<and> starts e s1 c s2 \<and>
      orderly named sees starts started (if c = 0 then started e # ps else ps) s2 tr)"

definition end_state :: "'s \<Rightarrow> ('s \<times> 'e \<times> int \<times> 's) list \<Rightarrow> 's" where
  "end_state s tr = (if tr = [] then s else snd (snd (snd (last tr))))"

definition successes :: "('s \<times> 'e \<times> int \<times> 's) list \<Rightarrow> 'e list" where
  "successes tr = [e. (s1, e, c, s2) \<leftarrow> tr, c = 0]"

lemma end_state_simps [simp]:
  "end_state s [] = s" "end_state s ((s1, e, c, s2) # tr) = end_state s2 tr"
  by (simp_all add: end_state_def)

lemma successes_simps [simp]:
  "successes [] = []" "successes ((s1, e, c, s2) # tr) = (if c = 0 then e # successes tr else successes tr)"
  by (simp_all add: successes_def)

lemma success_started:
  "orderly named sees starts started ps s tr \<Longrightarrow> e \<in> set (successes tr) \<Longrightarrow> \<exists>s1 s2. starts e s1 0 s2"
proof (induction tr arbitrary: ps s)
  case (Cons a tr)
  obtain s1 x c s2 where a: "a = (s1, x, c, s2)" by (cases a)
  show ?case
  proof (cases "c = 0 \<and> e = x")
    case True
    with Cons.prems a show ?thesis by auto
  next
    case False
    with Cons.prems a have "e \<in> set (successes tr)" by (auto split: if_splits)
    moreover have "orderly named sees starts started (if c = 0 then started x # ps else ps) s2 tr" using Cons.prems a by simp
    ultimately show ?thesis using Cons.IH by blast
  qed
qed simp

locale pid_file_daemon =
  fixes named :: "'s \<Rightarrow> 'p option"
    and sees :: "'e \<Rightarrow> 's \<Rightarrow> 'p \<Rightarrow> bool"
    and starts :: "'e \<Rightarrow> 's \<Rightarrow> int \<Rightarrow> 's \<Rightarrow> bool"
    and started :: "'e \<Rightarrow> 'p"
    and stops :: "'e \<Rightarrow> 's \<Rightarrow> 'p \<Rightarrow> bool"
  assumes start_names: "starts e s 0 s' \<Longrightarrow> named s' = Some (started e)"
    and start_refused: "named s = Some p \<Longrightarrow> sees e s p \<Longrightarrow> starts e s c s' \<Longrightarrow> c = 1 \<and> named s' = named s"
    and stop_addresses: "named s = Some p \<Longrightarrow> sees e s p \<Longrightarrow> stops e s p"
begin

lemma refused_from_then:
  "orderly named sees starts started ps s tr \<Longrightarrow> p \<in> set ps \<Longrightarrow> named s = Some p \<Longrightarrow>
     successes tr = [] \<and> named (end_state s tr) = Some p"
proof (induction tr arbitrary: s)
  case (Cons a tr)
  obtain s1 e c s2 where a: "a = (s1, e, c, s2)" by (cases a)
  with Cons.prems have "c = 1 \<and> named s2 = named s1" "named s1 = Some p" using start_refused [of s1 p e c s2] by auto
  with Cons a show ?case by auto
qed simp

text \<open>One start of them makes a daemon at most, and that one is the process the file names at the end.\<close>

lemma one_success:
  "orderly named sees starts started ps s tr \<Longrightarrow>
     successes tr = [] \<or> (\<exists>e. successes tr = [e] \<and> named (end_state s tr) = Some (started e))"
proof (induction tr arbitrary: s ps)
  case (Cons a tr)
  obtain s1 e c s2 where a: "a = (s1, e, c, s2)" by (cases a)
  show ?case
  proof (cases "c = 0")
    case True
    with Cons.prems a have "named s2 = Some (started e)" "orderly named sees starts started (started e # ps) s2 tr"
      using start_names by auto
    from refused_from_then [OF this(2) _ this(1)] True a show ?thesis by simp
  next
    case False
    with Cons a show ?thesis by auto
  qed
qed simp

lemma stop_reaches_the_success:
  assumes "orderly named sees starts started ps s tr" and "e \<in> set (successes tr)"
    and "named s' = named (end_state s tr)" and "sees e' s' (started e)"
  shows "successes tr = [e] \<and> stops e' s' (started e)"
  using one_success [OF assms(1)] assms(2-4) stop_addresses by auto

end

end
