(* ===== verification/Daemon.thy ===== *)
theory Daemon
  imports Klog Process_Title Daemon_Interface
begin

section \<open>The daemon on Linux (\<open>daemonize_linux.inl\<close>)\<close>

text \<open>
  A started server can become a daemon that leaves its process id in a pid file; as a single
  process, or as a master that forks a worker and a new one whenever the worker ends. Another
  run of the program reads the pid file to stop or restart it with \<open>SIGUSR1\<close>.

  A \<open>process\<close> is the state the file's functions keep in one process: its globals (\<open>child_pid\<close>, \<open>mask\<close>), its
  signal handlers, its descriptors and its logger. The part of the system they share, the pid files and the
  living processes, is an \<open>os\<close>. What a system call answers is an argument of the definitions (\<open>fork\<close>
  as the number it returns). Each process is modelled on its own; the master's loop, with the signal that
  may arrive at any moment of it, is the step relation \<open>master_step\<close>.

  The properties: the pid file keeps a second daemon from starting, what a daemon's descriptors
  are, what the signal does at each moment of the master, and the command line a restart uses.
\<close>

subsection \<open>Processes\<close>

datatype signal = SIGINT | SIGUSR1

datatype signal_handler = SIG_DFL | Handle_daemon_kill | Handle_foreground_shutdown

record process =
  self :: int
  thread :: nat
  child_pid :: int
  mask :: "string option"
  handlers :: "signal \<Rightarrow> signal_handler"
  descriptors :: "int \<Rightarrow> string option"
  file_mask :: int
  own_session :: bool
  process_name :: string
  command_area :: title_state
  logger :: Klogger

record os =
  pid_files :: "string \<Rightarrow> string option"
  live :: "int list"
  writable :: "string \<Rightarrow> bool"

text \<open>A call of the process's logger; the streams can be opened as \<open>fopen_ok\<close> says.\<close>

definition log_message :: "(string \<Rightarrow> bool) \<Rightarrow> tm \<Rightarrow> KloggerLevel \<Rightarrow> string \<Rightarrow> process \<Rightarrow> process eff" where
  "log_message fopen_ok t level msg p =
     andThen (log fopen_ok t (self p) (thread p) level msg (logger p)) (\<lambda>k. Inr (p\<lparr>logger := k\<rparr>))"

definition flush_log :: "process \<Rightarrow> process eff" where
  "flush_log p = andThen (fflushE (logger p)) (\<lambda>k. Inr (p\<lparr>logger := k\<rparr>))"

subsection \<open>The pid file\<close>

text \<open>
  \<open>fscanf(fp, "%d", &pid)\<close>: \<open>None\<close> when it does not convert (it returns 0 or \<open>EOF\<close>); a number
  an \<open>int\<close> cannot hold is undefined.
\<close>

definition scan_int :: "string \<Rightarrow> int option eff" where
  "scan_int text =
     (let t = dropWhile is_space text;
          neg = (t \<noteq> [] \<and> hd t = CHR ''-'');
          u = (if t \<noteq> [] \<and> (hd t = CHR ''-'' \<or> hd t = CHR ''+'') then tl t else t);
          ds = takeWhile is_digit u;
          v = (if neg then - digits_value ds else digits_value ds)
      in if ds = [] then Inr None
         else if v < - 2147483648 \<or> 2147483647 < v then Inl IntOverflow
         else Inr (Some v))"

definition check_pid :: "os \<Rightarrow> int \<Rightarrow> string \<Rightarrow> int eff" where
  "check_pid os me pidfile =
     (case pid_files os pidfile of
        None \<Rightarrow> Inr 0
      | Some text \<Rightarrow>
          andThen (scan_int text) (\<lambda>n.
            case n of
              None \<Rightarrow> Inr 0
            | Some pid \<Rightarrow>
                if pid = 0 \<or> pid = me then Inr 0
                else if pid \<notin> set (live os) then Inr 0
                else Inr pid))"

definition write_pid :: "(string \<Rightarrow> bool) \<Rightarrow> tm \<Rightarrow> string \<Rightarrow> os \<Rightarrow> process \<Rightarrow> (bool \<times> os \<times> process) eff" where
  "write_pid fopen_ok t pidfile os p =
     (if \<not> writable os pidfile then
        andThen (log_message fopen_ok t kFatal (''cannot open '' @ pidfile) p) (\<lambda>p1. Inr (False, os, p1))
      else Inr (True, os\<lparr>pid_files := (pid_files os)(pidfile \<mapsto> show_int (self p))\<rparr>, p))"

text \<open>\<open>mask.Cache\<close>; \<open>malloc_ok\<close> is whether \<open>malloc\<close> finds memory.\<close>

definition mask_cache :: "bool \<Rightarrow> string option \<Rightarrow> process \<Rightarrow> bool \<times> process" where
  "mask_cache malloc_ok file p =
     (case file of
        None \<Rightarrow> (False, p)
      | Some f \<Rightarrow> if malloc_ok then (True, p\<lparr>mask := Some f\<rparr>) else (False, p\<lparr>mask := None\<rparr>))"

subsection \<open>Becoming a daemon\<close>

text \<open>The answers of the calls; \<open>fork_value\<close> is 0 in the child, whose process id is \<open>new_pid\<close>.\<close>

record startup =
  fork_value :: int
  new_pid :: int
  setsid_ok :: bool
  null_fd :: int
  dup_stdin_ok :: bool
  dup_stdout_ok :: bool
  close_ok :: bool
  malloc_ok :: bool

datatype 'a control = Returns 'a | Exits int

abbreviation dev_null :: string where
  "dev_null \<equiv> ''/dev/null''"

definition dup2 :: "int \<Rightarrow> int \<Rightarrow> process \<Rightarrow> process" where
  "dup2 fd new p = p\<lparr>descriptors := (descriptors p)(new := descriptors p fd)\<rparr>"

definition Daemonize ::
    "(string \<Rightarrow> bool) \<Rightarrow> tm \<Rightarrow> startup \<Rightarrow> string \<Rightarrow> os \<Rightarrow> process \<Rightarrow> (int control \<times> os \<times> process) eff" where
  "Daemonize fopen_ok t st pidfile os p =
     andThen (check_pid os (self p) (c_str pidfile)) (\<lambda>pid.
     if pid \<noteq> 0 then Inr (Returns 1, os, p)
     else if fork_value st = - 1 then Inr (Returns (- 1), os, p)
     else if fork_value st \<noteq> 0 then Inr (Exits 0, os, p)
     else
       let p1 = p\<lparr>self := new_pid st\<rparr> in
       if \<not> setsid_ok st then Inr (Returns (- 1), os, p1)
       else
         let p2 = p1\<lparr>own_session := True, file_mask := 0\<rparr>; fd = null_fd st in
         if fd = - 1 then Inr (Returns (- 1), os, p2)
         else
           let p3 = p2\<lparr>descriptors := (descriptors p2)(fd \<mapsto> dev_null)\<rparr> in
           if \<not> dup_stdin_ok st then Inr (Returns (- 1), os, p3)
           else
             let p4 = dup2 fd 0 p3 in
             if \<not> dup_stdout_ok st then Inr (Returns (- 1), os, p4)
             else
               let p5 = dup2 fd 1 p4 in
               if 2 < fd \<and> \<not> close_ok st then Inr (Returns (- 1), os, p5)
               else
                 let p6 = (if 2 < fd then p5\<lparr>descriptors := (descriptors p5)(fd := None)\<rparr> else p5) in
                 andThen (write_pid fopen_ok t (c_str pidfile) os p6) (\<lambda>(ok, os1, p7).
                   if \<not> ok then
                     andThen (log_message fopen_ok t kFatal ''svnsrv daemon create pidfile failed !'' p7) (\<lambda>p8.
                     andThen (flush_log p8) (\<lambda>p9. Inr (Returns 2, os1, p9)))
                   else Inr (Returns 0, os1, snd (mask_cache (malloc_ok st) (Some (c_str pidfile)) p7))))"

subsection \<open>Signals\<close>

definition DaemonSignalMethod :: "process \<Rightarrow> int \<times> process" where
  "DaemonSignalMethod p = (0, p\<lparr>handlers := (handlers p)(SIGUSR1 := Handle_daemon_kill)\<rparr>)"

definition ForegroundSignalMethod :: "process \<Rightarrow> int \<times> process" where
  "ForegroundSignalMethod p = (0, p\<lparr>handlers := (handlers p)(SIGINT := Handle_foreground_shutdown)\<rparr>)"

text \<open>
  A handler ends with \<open>exit(0)\<close>, which runs the logger's destructor. The result: the system with the
  pid file unlinked or not, the process, and the signals sent.
\<close>

definition shut_down :: "tm \<Rightarrow> string \<Rightarrow> process \<Rightarrow> process eff" where
  "shut_down t msg p =
     andThen (destroy t (self p) (thread p) msg (logger p)) (\<lambda>k.
     andThen (finalize k) (\<lambda>k1. Inr (p\<lparr>logger := k1\<rparr>)))"

definition unlink_mask :: "process \<Rightarrow> os \<Rightarrow> os" where
  "unlink_mask p os = (case mask p of None \<Rightarrow> os | Some f \<Rightarrow> os\<lparr>pid_files := (pid_files os)(f := None)\<rparr>)"

definition SignalDaemonKill :: "tm \<Rightarrow> os \<Rightarrow> process \<Rightarrow> (os \<times> process \<times> (int \<times> signal) list) eff" where
  "SignalDaemonKill t os p =
     (if child_pid p = 0 then
        andThen (shut_down t ''svnsrv worker shutdown'' p) (\<lambda>p1. Inr (os, p1, []))
      else if child_pid p = - 1 then
        let os1 = (if 0 < child_pid p then unlink_mask p os else os)
        in andThen (shut_down t ''svnsrv single shutdown'' p) (\<lambda>p1. Inr (os1, p1, []))
      else
        let (os1, sent) = (if 0 < child_pid p then (unlink_mask p os, [(child_pid p, SIGUSR1)]) else (os, []))
        in andThen (shut_down t ''svnsrv master shutdown'' p) (\<lambda>p1. Inr (os1, p1, sent)))"

definition ForegroundShutdown :: "tm \<Rightarrow> process \<Rightarrow> process eff" where
  "ForegroundShutdown t p = shut_down t ''svnsrv shutdown'' p"

subsection \<open>Stopping and restarting a daemon\<close>

text \<open>\<open>kill_value\<close> is what \<open>kill(pid, SIGUSR1)\<close> answers; the result has the signal sent.\<close>

definition DaemonStop :: "os \<Rightarrow> int \<Rightarrow> int \<Rightarrow> string \<Rightarrow> (bool \<times> (int \<times> signal) list) eff" where
  "DaemonStop os me kill_value pidFile =
     andThen (check_pid os me (c_str pidFile)) (\<lambda>pid.
       if pid = 0 then Inr (False, [])
       else Inr (kill_value = 0, [(pid, SIGUSR1)]))"

text \<open>
  The loop of \<open>ParsePathAndArgv\<close> over the bytes \<open>read\<close> gave, from index \<open>i\<close> on: the indices whose addresses are
  pushed. After a push the byte the new pointer points at is skipped.
\<close>

fun arg_starts :: "nat \<Rightarrow> string \<Rightarrow> nat list" where
  "arg_starts i [] = []"
| "arg_starts i [c] = []"
| "arg_starts i (c # d # r) = (if c = nul then (i + 1) # arg_starts (i + 2) r else arg_starts (i + 1) (d # r))"

text \<open>The buffer the caller passes has 4096 bytes, all NUL before \<open>read\<close>.\<close>

definition cmdline_buffer :: "string \<Rightarrow> string" where
  "cmdline_buffer got = got @ replicate (4096 - length got) nul"

text \<open>
  \<open>link\<close> is the target \<open>readlink\<close> of \<open>/proc/pid/exe\<close> gives, \<open>None\<close> when it fails; only an empty target is
  refused. \<open>cmdline\<close> is what \<open>/proc/pid/cmdline\<close> holds, \<open>None\<close> when it cannot be opened. The result: whether
  it succeeded, the path, the buffer, and the pointers into it (the null pointer is pushed last).
\<close>

definition ParsePathAndArgv ::
    "(string \<Rightarrow> bool) \<Rightarrow> tm \<Rightarrow> string option \<Rightarrow> string option \<Rightarrow> int \<Rightarrow> process \<Rightarrow>
     (bool \<times> string \<times> string \<times> nat option list \<times> process) eff" where
  "ParsePathAndArgv fopen_ok t link cmdline pid p =
     (if link = Some [] then Inr (False, [], cmdline_buffer [], [], p)
      else
        let path = (case link of None \<Rightarrow> [] | Some l \<Rightarrow> c_str (take 4095 l)) in
        case cmdline of
          None \<Rightarrow>
            andThen (log_message fopen_ok t kFatal (''cannot open /proc/'' @ show_int pid @ ''/cmdline'') p) (\<lambda>p1.
            andThen (flush_log p1) (\<lambda>p2. Inr (False, path, cmdline_buffer [], [], p2)))
        | Some text \<Rightarrow>
            let got = take 4096 text
            in Inr (True, path, cmdline_buffer got, map Some (0 # arg_starts 0 got) @ [None], p))"

text \<open>What \<open>execvp\<close> reads through the pointers, up to the null pointer.\<close>

fun exec_arguments :: "string \<Rightarrow> nat option list \<Rightarrow> string list eff" where
  "exec_arguments buf [] = Inl OutOfBounds"
| "exec_arguments buf (None # ps) = Inr []"
| "exec_arguments buf (Some i # ps) =
     (if nul \<notin> set (drop i buf) then Inl OutOfBounds
      else andThen (exec_arguments buf ps) (\<lambda>as. Inr (c_str (drop i buf) # as)))"

text \<open>
  \<open>DaemonRestart\<close>: \<open>forked\<close> is what \<open>fork\<close> returns (the number to wait for in the parent), \<open>exec_ok\<close> whether
  \<open>execvp\<close> finds the program. \<open>os'\<close> is the system at the second \<open>check_pid\<close>, after the daemon and the new
  program have acted as they may. In the child the process becomes the program \<open>Executes\<close> names.
\<close>

datatype restarted = Reports bool | Executes string "string list" | Ends int

definition DaemonRestart ::
    "(string \<Rightarrow> bool) \<Rightarrow> tm \<Rightarrow> string option \<Rightarrow> string option \<Rightarrow> int \<Rightarrow> bool \<Rightarrow> string \<Rightarrow> os \<Rightarrow> os \<Rightarrow>
     string \<Rightarrow> process \<Rightarrow> (restarted \<times> (int \<times> signal) list \<times> process) eff" where
  "DaemonRestart fopen_ok t link cmdline forked exec_ok errno_text os os' pidFile p =
     andThen (check_pid os (self p) (c_str pidFile)) (\<lambda>pid.
     if pid = 0 then Inr (Reports False, [], p)
     else
       andThen (ParsePathAndArgv fopen_ok t link cmdline pid p) (\<lambda>(ok, path, buffer, Argv, p1).
       if \<not> ok then Inr (Reports False, [], p1)
       else
         let sent = [(pid, SIGUSR1)] in
         if forked = 0 then
           andThen (exec_arguments buffer Argv) (\<lambda>args.
             if exec_ok then Inr (Executes path args, sent, p1)
             else
               andThen (log_message fopen_ok t kFatal
                   (''cannot start svnsrv,result: '' @ show_int (- 1) @ '', errno: '' @ errno_text) p1) (\<lambda>p2.
                 Inr (Ends (- 1), sent, p2)))
         else
           andThen (check_pid os' (self p1) (c_str pidFile)) (\<lambda>nid. Inr (Reports (nid \<noteq> 0), sent, p1))))"

subsection \<open>Master and worker\<close>

text \<open>\<open>prctl(PR_SET_NAME, ...)\<close> keeps 15 bytes.\<close>

definition set_name :: "string \<Rightarrow> process \<Rightarrow> process" where
  "set_name n p = p\<lparr>process_name := take 15 n\<rparr>"

text \<open>
  The \<open>while\<close> loop of the master. Each element of the list is one turn: what \<open>fork\<close> returns and the time at which its log
  line is written when the worker has ended; \<open>worker\<close> is the process id of the process in which \<open>fork\<close> returns 0. \<open>None\<close>: the master still waits when the list is used up. The
  relabelling of the worker's command line (\<open>relabel\<close>, with the block \<open>malloc\<close> gives it) comes after the loop.
\<close>

fun master_loop :: "(string \<Rightarrow> bool) \<Rightarrow> int \<Rightarrow> int \<Rightarrow> (int \<times> tm) list \<Rightarrow> process \<Rightarrow> (bool \<times> process) option eff" where
  "master_loop fopen_ok worker n [] p = Inr None"
| "master_loop fopen_ok worker n ((f, t) # turns) p =
     (let p1 = p\<lparr>child_pid := f\<rparr> in
      if f = 0 then Inr (Some (True, set_name ''svnsrv: worker'' (p1\<lparr>self := worker\<rparr>)))
      else if f < 0 then Inr (Some (False, p1))
      else
        andThen (log_message fopen_ok t kError (''Restart worker process,times: '' @ show_int (n + 1)) p1) (\<lambda>p2.
          master_loop fopen_ok worker (n + 1) turns (p2\<lparr>child_pid := 0\<rparr>)))"

definition DaemonWait ::
    "(string \<Rightarrow> bool) \<Rightarrow> int \<Rightarrow> (int \<times> string) option \<Rightarrow> bool \<Rightarrow> (int \<times> tm) list \<Rightarrow> process \<Rightarrow> (bool \<times> process) option eff" where
  "DaemonWait fopen_ok worker block crashRestart turns p =
     (if \<not> crashRestart then Inr (Some (True, (set_name ''svnsrv: single'' p)\<lparr>child_pid := - 1\<rparr>))
      else
        andThen (master_loop fopen_ok worker 0 turns (set_name ''svnsrv: master'' p)) (\<lambda>r.
          case r of
            Some (True, q) \<Rightarrow>
              andThen (relabel block ''svnsrv: worker process'' (command_area q)) (\<lambda>s. Inr (Some (True, q\<lparr>command_area := s\<rparr>)))
          | _ \<Rightarrow> Inr r))"

text \<open>
  The master with the system around it. Between \<open>fork\<close> and the assignment to \<open>child_pid\<close>, and between a worker's end and
  the next turn, there are moments at which a signal may arrive, so they are places of their own.
  \<open>Running\<close> has the number of turns, the process, the system and the living workers; \<open>Stopped\<close> the place at which
  the signal arrived, the system, the signals its handler sent, and the workers that live then; \<open>Gave_up\<close> is a master whose
  \<open>fork\<close> has failed, so that \<open>DaemonWait\<close> returns false and \<open>main\<close> ends.
\<close>

datatype place = At_fork | Forked int | Waiting | Waited

datatype master =
    Running place int process os "int list"
  | Stopped place os "(int \<times> signal) list" "int list"
  | Gave_up int process os "int list"

inductive master_step :: "(string \<Rightarrow> bool) \<Rightarrow> master \<Rightarrow> master \<Rightarrow> bool" for fopen_ok :: "string \<Rightarrow> bool" where
  forks: "0 < f \<Longrightarrow> master_step fopen_ok (Running At_fork n p os ws) (Running (Forked f) n p os (f # ws))"
| fails: "f < 0 \<Longrightarrow> master_step fopen_ok (Running At_fork n p os ws) (Gave_up n (p\<lparr>child_pid := f\<rparr>) os ws)"
| stores: "master_step fopen_ok (Running (Forked f) n p os ws) (Running Waiting n (p\<lparr>child_pid := f\<rparr>) os ws)"
| ends: "master_step fopen_ok (Running Waiting n p os ws) (Running Waited n p os (removeAll (child_pid p) ws))"
| again: "log_message fopen_ok t kError (''Restart worker process,times: '' @ show_int (n + 1)) p = Inr p1 \<Longrightarrow>
    master_step fopen_ok (Running Waited n p os ws) (Running At_fork (n + 1) (p1\<lparr>child_pid := 0\<rparr>) os ws)"
| stops: "handlers p SIGUSR1 = Handle_daemon_kill \<Longrightarrow> SignalDaemonKill t os p = Inr (os', p', sent) \<Longrightarrow>
    master_step fopen_ok (Running pl n p os ws) (Stopped pl os' sent ws)"

inductive master_reaches :: "(string \<Rightarrow> bool) \<Rightarrow> master \<Rightarrow> master \<Rightarrow> bool" for fopen_ok :: "string \<Rightarrow> bool" where
  here: "master_reaches fopen_ok s s"
| further: "master_reaches fopen_ok s s' \<Longrightarrow> master_step fopen_ok s' s'' \<Longrightarrow> master_reaches fopen_ok s s''"

subsection \<open>Facts about the pid file\<close>

lemma show_nat_no_space: "dropWhile is_space (show_nat n) = show_nat n"
  by (cases "show_nat n") (use show_nat_digits [of n] digit_facts(1) in auto)

lemma hd_show_nat: "hd (show_nat n) \<noteq> CHR ''-''" "hd (show_nat n) \<noteq> CHR ''+''"
proof -
  have "is_digit (hd (show_nat n))" using show_nat_digits [of n] by simp
  then show "hd (show_nat n) \<noteq> CHR ''-''" "hd (show_nat n) \<noteq> CHR ''+''" by (rule digit_facts)+
qed

lemma scan_int_show_int:
  assumes "- 2147483648 \<le> i" and "i \<le> 2147483647"
  shows "scan_int (show_int i) = Inr (Some i)"
proof (cases "i < 0")
  case True
  have "\<not> is_space (CHR ''-'')" by (simp add: is_space_def uchar_def)
  with True assms show ?thesis
    by (simp add: scan_int_def show_int_def takeWhile_all [OF show_nat_digits] digits_value_show_nat)
next
  case False
  with assms show ?thesis
    by (simp add: scan_int_def show_int_def show_nat_no_space hd_show_nat takeWhile_all [OF show_nat_digits]
        digits_value_show_nat)
qed

text \<open>Who a pid file that names a process id stands for.\<close>

lemma check_pid_shown:
  assumes "pid_files os f = Some (show_int i)" and "- 2147483648 \<le> i" and "i \<le> 2147483647"
  shows "check_pid os me f = Inr (if i = me \<or> i \<notin> set (live os) then 0 else i)"
  using assms by (auto simp: check_pid_def scan_int_show_int)

lemma check_pid_none: "pid_files os f = None \<Longrightarrow> check_pid os me f = Inr 0"
  by (simp add: check_pid_def)

text \<open>A pid the file gives is that of another, living process.\<close>

lemma check_pid_alive: "check_pid os me f = Inr pid \<Longrightarrow> pid \<noteq> 0 \<Longrightarrow> pid \<in> set (live os) \<and> pid \<noteq> me"
  by (auto simp: check_pid_def fault_simps split: option.splits if_splits)

subsection \<open>Facts about becoming a daemon\<close>

lemma Daemonize_success:
  assumes "Daemonize ok t st f os p = Inr (Returns 0, os1, p1)"
  shows "check_pid os (self p) (c_str f) = Inr 0" and "fork_value st = 0"
    and "os1 = os\<lparr>pid_files := (pid_files os)(c_str f \<mapsto> show_int (new_pid st))\<rparr>"
    and "self p1 = new_pid st" and "own_session p1" and "file_mask p1 = 0" and "handlers p1 = handlers p"
    and "mask p1 = (if malloc_ok st then Some (c_str f) else None)" and "child_pid p1 = child_pid p"
    and "logger p1 = logger p"
    and "descriptors p1 = (if 2 < null_fd st then (descriptors p)(0 \<mapsto> dev_null, 1 \<mapsto> dev_null, null_fd st := None)
      else (descriptors p)(null_fd st \<mapsto> dev_null, 0 \<mapsto> dev_null, 1 \<mapsto> dev_null))"
  using assms
  by (auto simp: Daemonize_def fault_simps Let_def write_pid_def mask_cache_def dup2_def fun_eq_iff split: if_splits)

subsection \<open>Facts about the command line\<close>

text \<open>The indices at which the arguments start in what \<open>/proc/pid/cmdline\<close> holds.\<close>

fun starts_of :: "nat \<Rightarrow> string list \<Rightarrow> nat list" where
  "starts_of i [] = []"
| "starts_of i (a # as) = i # starts_of (i + length a + 1) as"

lemma arg_starts_skip: "nul \<notin> set a \<Longrightarrow> arg_starts i (a @ nul # r) = arg_starts (i + length a) (nul # r)"
proof (induction a arbitrary: i)
  case (Cons c a)
  then show ?case by (cases a) auto
qed simp

lemma arg_starts_full:
  assumes "nul \<notin> set a" and "\<forall>b \<in> set bs. b \<noteq> [] \<and> nul \<notin> set b"
  shows "arg_starts i (a @ nul # proc_cmdline bs @ rest) =
    starts_of (i + length a + 1) bs @ arg_starts (i + length (a @ nul # proc_cmdline bs) - 1) (nul # rest)"
  using assms
proof (induction bs arbitrary: a i)
  case Nil
  then show ?case by (simp add: arg_starts_skip)
next
  case (Cons b bs)
  obtain c b' where b: "b = c # b'" using Cons.prems by (cases b) auto
  have "arg_starts i (a @ nul # proc_cmdline (b # bs) @ rest) =
      (i + length a + 1) # arg_starts (i + length a + 2) (b' @ nul # proc_cmdline bs @ rest)"
    using Cons.prems(1) b by (simp add: arg_starts_skip)
  with Cons.IH [of b' "i + length a + 2"] Cons.prems b show ?case by (simp add: algebra_simps)
qed

lemma exec_arguments_starts:
  assumes "\<forall>a \<in> set as. nul \<notin> set a"
  shows "exec_arguments (pre @ proc_cmdline as @ post) (map Some (starts_of (length pre) as) @ ps) =
    andThen (exec_arguments (pre @ proc_cmdline as @ post) ps) (\<lambda>r. Inr (as @ r))"
  using assms
proof (induction as arbitrary: pre)
  case Nil
  then show ?case by (cases "exec_arguments (pre @ proc_cmdline [] @ post) ps") simp_all
next
  case (Cons a as)
  have "exec_arguments (pre @ proc_cmdline (a # as) @ post) (map Some (starts_of (length pre + length a + 1) as) @ ps) =
      andThen (exec_arguments (pre @ proc_cmdline (a # as) @ post) ps) (\<lambda>r. Inr (as @ r))"
    using Cons.IH [of "pre @ a @ [nul]"] Cons.prems by simp
  with Cons.prems show ?case
    by (cases "exec_arguments (pre @ proc_cmdline (a # as) @ post) ps") (simp_all add: c_str_at)
qed

lemma exec_arguments_cmdline:
  assumes "args \<noteq> []" and "\<forall>a \<in> set args. nul \<notin> set a" and "\<forall>a \<in> set (tl args). a \<noteq> []"
  shows "exec_arguments (proc_cmdline args @ post) (map Some (0 # arg_starts 0 (proc_cmdline args)) @ [None]) = Inr args"
proof -
  obtain a as where args: "args = a # as" using assms(1) by (cases args) auto
  have "0 # arg_starts 0 (proc_cmdline args) = starts_of 0 args"
    using arg_starts_full [of a as 0 "[]"] assms args by simp
  then show ?thesis using exec_arguments_starts [OF assms(2), of "[]" post "[None]"] by simp
qed

text \<open>
  C23: A restart starts the program again with the arguments it was started with: what \<open>ParsePathAndArgv\<close> takes from
  \<open>/proc\<close> makes \<open>execvp\<close> run the same path with the same arguments, when they fit 4096 bytes and none
  behind the program's name is empty.
\<close>

theorem restart_keeps_arguments:
  assumes "args \<noteq> []" and "\<forall>a \<in> set args. nul \<notin> set a" and "\<forall>a \<in> set (tl args). a \<noteq> []"
    and "length (proc_cmdline args) \<le> 4096" and "exe \<noteq> []" and "nul \<notin> set exe" and "length exe \<le> 4095"
    and "check_pid os (self p) (c_str f) = Inr pid" and "pid \<noteq> 0"
  shows "DaemonRestart ok t (Some exe) (Some (proc_cmdline args)) 0 True e os os' f p =
    Inr (Executes exe args, [(pid, SIGUSR1)], p)"
proof -
  have "exec_arguments (cmdline_buffer (proc_cmdline args)) (map Some (0 # arg_starts 0 (proc_cmdline args)) @ [None]) = Inr args"
    unfolding cmdline_buffer_def using assms(1-3) by (rule exec_arguments_cmdline)
  then show ?thesis
    using assms(4-) by (simp add: DaemonRestart_def ParsePathAndArgv_def c_str_id Let_def)
qed

text \<open>
  An empty argument loses the one behind it: the loop of \<open>ParsePathAndArgv\<close> skips the byte its new pointer
  points at, which for an empty argument is the NUL that ends it.
\<close>

theorem restart_loses_argument:
  assumes "xs \<noteq> []" and "\<forall>a \<in> set (xs @ y # zs). nul \<notin> set a" and "\<forall>a \<in> set (tl xs @ zs). a \<noteq> []"
    and "length (proc_cmdline (xs @ [] # y # zs)) \<le> 4096" and "exe \<noteq> []" and "nul \<notin> set exe" and "length exe \<le> 4095"
    and "check_pid os (self p) (c_str f) = Inr pid" and "pid \<noteq> 0"
  shows "DaemonRestart ok t (Some exe) (Some (proc_cmdline (xs @ [] # y # zs))) 0 True e os os' f p =
    Inr (Executes exe (xs @ [] # zs), [(pid, SIGUSR1)], p)"
proof -
  obtain x xs' where xs: "xs = x # xs'" using assms(1) by (cases xs) auto
  let ?head = "proc_cmdline xs" and ?text = "proc_cmdline (xs @ [] # y # zs)"
  have k: "0 < length ?head" by (simp add: xs)
  have "0 # arg_starts 0 ?text = starts_of 0 xs @ arg_starts (length ?head - 1) (nul # nul # y @ nul # proc_cmdline zs)"
    using arg_starts_full [of x xs' 0 "nul # y @ nul # proc_cmdline zs"] assms(2,3) xs by simp
  moreover have "arg_starts (length ?head - 1) (nul # nul # y @ nul # proc_cmdline zs) =
      length ?head # starts_of (length ?head + 1 + length y + 1) zs"
    using arg_starts_full [of y zs "length ?head + 1" "[]"] assms(2,3) k by simp
  ultimately have starts: "0 # arg_starts 0 ?text =
      starts_of 0 xs @ length ?head # starts_of (length (?head @ nul # y @ [nul])) zs" using k by simp
  let ?buf = "cmdline_buffer ?text" and ?post = "replicate (4096 - length ?text) nul"
  have zs: "exec_arguments ?buf (map Some (starts_of (length (?head @ nul # y @ [nul])) zs) @ [None]) = Inr zs"
    using exec_arguments_starts [of zs "?head @ nul # y @ [nul]" ?post "[None]"] assms(2)
    by (simp add: cmdline_buffer_def)
  have empty: "exec_arguments ?buf (Some (length ?head) # map Some (starts_of (length (?head @ nul # y @ [nul])) zs) @ [None]) =
      Inr ([] # zs)"
    using zs by (simp add: cmdline_buffer_def c_str_def)
  have "exec_arguments ?buf (map Some (0 # arg_starts 0 ?text) @ [None]) = Inr (xs @ [] # zs)"
    unfolding starts using exec_arguments_starts [of xs "[]" "proc_cmdline ([] # y # zs) @ ?post"] assms(2) empty
    by (simp add: cmdline_buffer_def)
  then show ?thesis
    using assms(4-) by (simp add: DaemonRestart_def ParsePathAndArgv_def c_str_id Let_def)
qed

subsection \<open>Example processes\<close>

definition example_process :: "int \<Rightarrow> process" where
  "example_process i = \<lparr>self = i, thread = 8, child_pid = 0, mask = None, handlers = (\<lambda>_. SIG_DFL), descriptors = (\<lambda>_. None),
     file_mask = 18, own_session = False, process_name = ''svnsrv'',
     command_area = laid_out 1000 [''svnsrv'', ''-D''] [''PATH=/bin:/usr/bin'', ''HOME=/root''] 0,
     logger = new_klogger\<lparr>logAccess := Some (File ''a.log''), logError := Some (File ''e.log'')\<rparr>\<rparr>"

definition example_os :: os where
  "example_os = \<lparr>pid_files = [''svnsrv.pid'' \<mapsto> show_int 41], live = [41, 42, 50], writable = (\<lambda>_. True)\<rparr>"

definition example_startup :: "int \<Rightarrow> startup" where
  "example_startup i = \<lparr>fork_value = 0, new_pid = i, setsid_ok = True, null_fd = 3, dup_stdin_ok = True,
     dup_stdout_ok = True, close_ok = True, malloc_ok = True\<rparr>"

lemma c_str_literals [simp]: "c_str ''svnsrv.pid'' = ''svnsrv.pid''" "c_str ''/usr/bin/svnsrv'' = ''/usr/bin/svnsrv''"
  by (simp_all add: c_str_def)

lemma example_daemon: "check_pid example_os me ''svnsrv.pid'' = Inr (if me = 41 then 0 else 41)"
  by (subst check_pid_shown [of _ _ 41]) (auto simp: example_os_def)

theorem restart_keeps_arguments_witness:
  "DaemonRestart (\<lambda>_. True) example_tm (Some ''/usr/bin/svnsrv'') (Some (proc_cmdline [''svnsrv'', ''-D''])) 0 True []
     example_os example_os ''svnsrv.pid'' (example_process 50) =
   Inr (Executes ''/usr/bin/svnsrv'' [''svnsrv'', ''-D''], [(41, SIGUSR1)], example_process 50)"
  by (rule restart_keeps_arguments) (simp_all add: example_daemon example_process_def)

theorem restart_loses_argument_witness:
  "DaemonRestart (\<lambda>_. True) example_tm (Some ''/usr/bin/svnsrv'')
     (Some (proc_cmdline ([''svnsrv'', ''-D''] @ [] # ''-c'' # [''f'']))) 0 True []
     example_os example_os ''svnsrv.pid'' (example_process 50) =
   Inr (Executes ''/usr/bin/svnsrv'' ([''svnsrv'', ''-D''] @ [] # [''f'']), [(41, SIGUSR1)], example_process 50)"
  by (rule restart_loses_argument) (simp_all add: example_daemon example_process_def)

subsection \<open>Properties of the daemon\<close>

text \<open>
  The pid file keeps a second daemon from starting: after \<open>Daemonize\<close> has returned 0 in a process, as long as the file is left
  alone and the process lives, \<open>Daemonize\<close> in any other process returns 1 and does nothing.
\<close>

theorem second_daemon_refused:
  assumes "Daemonize ok t st f os p = Inr (Returns 0, os1, p1)"
    and "0 < new_pid st" and "new_pid st \<le> 2147483647"
    and "pid_files os2 (c_str f) = pid_files os1 (c_str f)" and "new_pid st \<in> set (live os2)" and "self q \<noteq> new_pid st"
  shows "Daemonize ok' t' st' f os2 q = Inr (Returns 1, os2, q)"
proof -
  have "check_pid os2 (self q) (c_str f) = Inr (new_pid st)"
    using Daemonize_success(3) [OF assms(1)] assms(2-6) by (subst check_pid_shown) auto
  with assms(2) show ?thesis by (simp add: Daemonize_def)
qed

lemma Daemonize_example:
  "\<exists>os1 p1. Daemonize ok t (example_startup i) ''new.pid'' example_os (example_process 50) = Inr (Returns 0, os1, p1) \<and>
     os1 = example_os\<lparr>pid_files := (pid_files example_os)(''new.pid'' \<mapsto> show_int i)\<rparr>"
  by (simp add: Daemonize_def example_startup_def check_pid_none example_os_def c_str_def write_pid_def
      example_process_def dup2_def Let_def)

theorem second_daemon_refused_witness:
  "\<exists>os1 p1. Daemonize (\<lambda>_. True) example_tm (example_startup 42) ''new.pid'' example_os (example_process 50) =
       Inr (Returns 0, os1, p1) \<and>
     Daemonize (\<lambda>_. True) example_tm (example_startup 51) ''new.pid'' os1 (example_process 49) =
       Inr (Returns 1, os1, example_process 49)"
proof -
  obtain os1 p1 where d: "Daemonize (\<lambda>_. True) example_tm (example_startup 42) ''new.pid'' example_os (example_process 50) =
      Inr (Returns 0, os1, p1)" "os1 = example_os\<lparr>pid_files := (pid_files example_os)(''new.pid'' \<mapsto> show_int 42)\<rparr>"
    using Daemonize_example by blast
  have "Daemonize (\<lambda>_. True) example_tm (example_startup 51) ''new.pid'' os1 (example_process 49) =
      Inr (Returns 1, os1, example_process 49)"
    by (rule second_daemon_refused [OF d(1)]) (simp_all add: d(2) example_startup_def example_os_def example_process_def)
  with d(1) show ?thesis by blast
qed

text \<open>
  What a daemon is when \<open>Daemonize\<close> has returned 0: a process of its own session, its umask 0, standard input and output on
  \<open>/dev/null\<close>, the descriptor opened for that closed, and every other descriptor as it was (standard
  error with them), with its process id in the pid file and nothing else of the system changed.
\<close>

theorem daemon_state:
  assumes "Daemonize ok t st f os p = Inr (Returns 0, os1, p1)" and "2 < null_fd st" and "descriptors p (null_fd st) = None"
  shows "descriptors p1 = (descriptors p)(0 \<mapsto> dev_null, 1 \<mapsto> dev_null) \<and> own_session p1 \<and> file_mask p1 = 0 \<and>
    self p1 = new_pid st \<and> os1 = os\<lparr>pid_files := (pid_files os)(c_str f \<mapsto> show_int (new_pid st))\<rparr>"
proof -
  have "((descriptors p)(0 \<mapsto> dev_null, 1 \<mapsto> dev_null, null_fd st := None)) = (descriptors p)(0 \<mapsto> dev_null, 1 \<mapsto> dev_null)"
    using assms(2,3) by (auto simp: fun_eq_iff)
  then show ?thesis using Daemonize_success [OF assms(1)] assms(2) by simp
qed

theorem daemon_state_witness:
  "\<exists>os1 p1. Daemonize (\<lambda>_. True) example_tm (example_startup 42) ''new.pid'' example_os (example_process 50) =
       Inr (Returns 0, os1, p1) \<and> descriptors p1 = [0 \<mapsto> dev_null, 1 \<mapsto> dev_null]"
proof -
  obtain os1 p1 where d: "Daemonize (\<lambda>_. True) example_tm (example_startup 42) ''new.pid'' example_os (example_process 50) =
      Inr (Returns 0, os1, p1)"
    using Daemonize_example by blast
  from daemon_state [OF d] have "descriptors p1 = [0 \<mapsto> dev_null, 1 \<mapsto> dev_null]"
    by (simp add: example_startup_def example_process_def)
  with d show ?thesis by blast
qed

text \<open>
  The contract of \<open>Daemonize.h\<close> on Linux. Who starts or stops is a process with the answers its system calls get; it sees a daemon that
  lives and is not itself.
\<close>

type_synonym caller = "(string \<Rightarrow> bool) \<times> tm \<times> startup \<times> process"

definition pid_named :: "string \<Rightarrow> os \<Rightarrow> int option" where
  "pid_named f os = (case pid_files os (c_str f) of None \<Rightarrow> None | Some text \<Rightarrow> (case scan_int text of Inr n \<Rightarrow> n | Inl _ \<Rightarrow> None))"

definition sees_daemon :: "caller \<Rightarrow> os \<Rightarrow> int \<Rightarrow> bool" where
  "sees_daemon c os pid = (case c of (ok, t, st, p) \<Rightarrow> pid \<noteq> 0 \<and> pid \<in> set (live os) \<and> self p \<noteq> pid)"

definition start_returns :: "string \<Rightarrow> caller \<Rightarrow> os \<Rightarrow> int \<Rightarrow> os \<Rightarrow> bool" where
  "start_returns f c os r os1 = (case c of (ok, t, st, p) \<Rightarrow>
     0 < new_pid st \<and> new_pid st \<le> 2147483647 \<and> (\<exists>p1. Daemonize ok t st f os p = Inr (Returns r, os1, p1)))"

definition daemon_of :: "caller \<Rightarrow> int" where
  "daemon_of c = (case c of (ok, t, st, p) \<Rightarrow> new_pid st)"

definition stop_signals :: "string \<Rightarrow> caller \<Rightarrow> os \<Rightarrow> int \<Rightarrow> bool" where
  "stop_signals f c os pid = (case c of (ok, t, st, p) \<Rightarrow>
     \<forall>kill_value. DaemonStop os (self p) kill_value f = Inr (kill_value = 0, [(pid, SIGUSR1)]))"

lemma check_pid_named:
  assumes "pid_named f os = Some pid" and "pid \<noteq> 0" and "pid \<in> set (live os)" and "me \<noteq> pid"
  shows "check_pid os me (c_str f) = Inr pid"
  using assms by (auto simp: pid_named_def check_pid_def split: option.splits sum.splits)

interpretation linux_daemon: pid_file_daemon "pid_named f" sees_daemon "start_returns f" daemon_of "stop_signals f" for f
proof
  fix e s s'
  assume "start_returns f e s 0 s'"
  then obtain ok t st p p1 where e: "e = (ok, t, st, p)" and b: "0 < new_pid st" "new_pid st \<le> 2147483647"
    and d: "Daemonize ok t st f s p = Inr (Returns 0, s', p1)"
    by (auto simp: start_returns_def split: prod.splits)
  show "pid_named f s' = Some (daemon_of e)"
    using Daemonize_success(3) [OF d] b by (simp add: pid_named_def daemon_of_def e scan_int_show_int)
next
  fix s p e c s'
  assume "pid_named f s = Some p" "sees_daemon e s p" "start_returns f e s c s'"
  then show "c = 1 \<and> pid_named f s' = pid_named f s"
    by (auto simp: sees_daemon_def start_returns_def Daemonize_def check_pid_named split: prod.splits)
next
  fix s p e
  assume "pid_named f s = Some p" "sees_daemon e s p"
  then show "stop_signals f e s p"
    by (auto simp: sees_daemon_def stop_signals_def DaemonStop_def check_pid_named split: prod.splits)
qed

text \<open>
  C11: One daemon per pid file: in any sequence of starts on a pid file, as long as the file is left alone between them and the daemon they made lives, one at most makes a
  daemon; and \<open>DaemonStop\<close> run by any other process then sends its signal to that daemon.
\<close>

theorem one_daemon_per_file:
  fixes q :: process
  assumes "orderly (pid_named f) sees_daemon (start_returns f) daemon_of [] os tr" and "e \<in> set (successes tr)"
    and "pid_files os' (c_str f) = pid_files (end_state os tr) (c_str f)" and "daemon_of e \<in> set (live os')" and "self q \<noteq> daemon_of e"
  shows "successes tr = [e] \<and> DaemonStop os' (self q) kill_value f = Inr (kill_value = 0, [(daemon_of e, SIGUSR1)])"
proof -
  have named: "pid_named f os' = pid_named f (end_state os tr)" using assms(3) by (simp add: pid_named_def)
  have one: "successes tr = [e] \<and> pid_named f (end_state os tr) = Some (daemon_of e)"
    using linux_daemon.one_success [OF assms(1)] assms(2) by auto
  have "daemon_of e \<noteq> 0"
    using success_started [OF assms(1,2)] by (auto simp: start_returns_def daemon_of_def split: prod.splits)
  then have sees: "sees_daemon (\<lambda>_. True, t, st, q) os' (daemon_of e)" for t st
    using assms(4,5) by (simp add: sees_daemon_def)
  from linux_daemon.stop_reaches_the_success [OF assms(1,2) named sees] show ?thesis by (simp add: stop_signals_def)
qed

theorem one_daemon_per_file_witness:
  "\<exists>os1 tr. orderly (pid_named ''new.pid'') sees_daemon (start_returns ''new.pid'') daemon_of [] example_os tr \<and> length tr = 2 \<and>
     DaemonStop os1 50 0 ''new.pid'' = Inr (True, [(42, SIGUSR1)])"
proof -
  let ?e = "(\<lambda>_. True, example_tm, example_startup 42, example_process 50) :: caller"
  let ?e' = "(\<lambda>_. True, example_tm, example_startup 51, example_process 49) :: caller"
  obtain os1 p1 where d: "Daemonize (\<lambda>_. True) example_tm (example_startup 42) ''new.pid'' example_os (example_process 50) = Inr (Returns 0, os1, p1)"
      "os1 = example_os\<lparr>pid_files := (pid_files example_os)(''new.pid'' \<mapsto> show_int 42)\<rparr>"
    using Daemonize_example by blast
  have "Daemonize (\<lambda>_. True) example_tm (example_startup 51) ''new.pid'' os1 (example_process 49) = Inr (Returns 1, os1, example_process 49)"
    by (simp add: Daemonize_def check_pid_shown [of _ _ 42] d(2) example_os_def example_process_def c_str_def)
  then have o: "orderly (pid_named ''new.pid'') sees_daemon (start_returns ''new.pid'') daemon_of [] example_os [(example_os, ?e, 0, os1), (os1, ?e', 1, os1)]"
    using d(1) by (simp add: start_returns_def sees_daemon_def daemon_of_def example_startup_def d(2) example_os_def example_process_def)
  have "DaemonStop os1 (self (example_process 50)) 0 ''new.pid'' = Inr (True, [(42, SIGUSR1)])"
    using one_daemon_per_file [OF o, of ?e os1 "example_process 50" 0]
    by (simp add: d(2) daemon_of_def example_startup_def example_os_def example_process_def)
  with o show ?thesis by (intro exI conjI) (assumption, simp_all add: example_process_def)
qed

subsection \<open>Stopping\<close>

text \<open>A process that can write its last line: its logs are files and the date is one of the calendar.\<close>

definition can_log_end :: "tm \<Rightarrow> process \<Rightarrow> bool" where
  "can_log_end t p \<longleftrightarrow> calendar t \<and> (\<exists>e. logError (logger p) = Some (File e)) \<and> (\<exists>a. logAccess (logger p) = Some (File a)) \<and>
     length (log_prefix t (self p) (thread p) kInfo) \<le> 4000"

lemma shut_down_files:
  assumes "can_log_end t p" and "length msg \<le> 94"
  shows "\<exists>k. shut_down t msg p = Inr (p\<lparr>logger := k\<rparr>)"
proof -
  obtain e a where "calendar t" "logError (logger p) = Some (File e)" "logAccess (logger p) = Some (File a)"
    "length (log_prefix t (self p) (thread p) kInfo) + length msg \<le> 4094"
    using assms by (auto simp: can_log_end_def)
  from destroy_files [OF this] show ?thesis by (simp add: shut_down_def finalize_def) blast
qed

lemma kill_worker:
  assumes "can_log_end t p" and "child_pid p = 0"
  shows "\<exists>k. SignalDaemonKill t os p = Inr (os, p\<lparr>logger := k\<rparr>, [])"
  using shut_down_files [OF assms(1), of "''svnsrv worker shutdown''"] assms(2) by (auto simp: SignalDaemonKill_def)

lemma kill_single:
  assumes "can_log_end t p" and "child_pid p = - 1"
  shows "\<exists>k. SignalDaemonKill t os p = Inr (os, p\<lparr>logger := k\<rparr>, [])"
  using shut_down_files [OF assms(1), of "''svnsrv single shutdown''"] assms(2) by (auto simp: SignalDaemonKill_def)

lemma kill_master:
  assumes "can_log_end t p" and "0 < child_pid p"
  shows "\<exists>k. SignalDaemonKill t os p = Inr (unlink_mask p os, p\<lparr>logger := k\<rparr>, [(child_pid p, SIGUSR1)])"
  using shut_down_files [OF assms(1), of "''svnsrv master shutdown''"] assms(2) by (auto simp: SignalDaemonKill_def)

text \<open>What a handler that came to its end has done, by the value of \<open>child_pid\<close>.\<close>

lemma SignalDaemonKill_result:
  assumes "SignalDaemonKill t os p = Inr (os', p', sent)"
  shows "os' = (if 0 < child_pid p then unlink_mask p os else os)" and
    "sent = (if 0 < child_pid p then [(child_pid p, SIGUSR1)] else [])"
  using assms by (auto simp: SignalDaemonKill_def fault_simps split: if_splits)

text \<open>
  C8: Stopping a daemon works: \<open>svnsrv -s stop\<close> sends \<open>SIGUSR1\<close> to the process the pid file names and says so; the handler of a master that
  waits for its worker unlinks the pid file and passes the signal on to that worker, whose handler
  ends it; after that no process finds a daemon in the pid file, so that a new one can start.
\<close>

theorem stop_ends_daemon:
  assumes "pid_files os (c_str f) = Some (show_int (self m))" and "self m \<in> set (live os)" and "self m \<noteq> me"
    and "0 < self m" and "self m \<le> 2147483647" and "mask m = Some (c_str f)" and "0 < child_pid m" and "can_log_end t m"
    and "child_pid w = 0" and "can_log_end t' w"
  shows "DaemonStop os me 0 f = Inr (True, [(self m, SIGUSR1)]) \<and>
    (\<exists>os' m' w'. SignalDaemonKill t os m = Inr (os', m', [(child_pid m, SIGUSR1)]) \<and>
       SignalDaemonKill t' os' w = Inr (os', w', []) \<and> check_pid os' you (c_str f) = Inr 0)"
proof
  have "check_pid os me (c_str f) = Inr (self m)"
    using assms(1-5) by (subst check_pid_shown [of _ _ "self m"]) auto
  with assms(4) show "DaemonStop os me 0 f = Inr (True, [(self m, SIGUSR1)])" by (simp add: DaemonStop_def)
  have "check_pid (unlink_mask m os) you (c_str f) = Inr 0"
    using assms(6) by (simp add: unlink_mask_def check_pid_none)
  then show "\<exists>os' m' w'. SignalDaemonKill t os m = Inr (os', m', [(child_pid m, SIGUSR1)]) \<and>
       SignalDaemonKill t' os' w = Inr (os', w', []) \<and> check_pid os' you (c_str f) = Inr 0"
    using kill_master [OF assms(8,7)] kill_worker [OF assms(10,9)] by metis
qed

lemma example_can_log_end:
  assumes "0 \<le> i" and "i < 100"
  shows "can_log_end example_tm (example_process i)"
proof -
  have "length (show_int i) \<le> 2" "length (show_nat 8) \<le> 1"
    using length_show_nat [of "nat i" 2] length_show_nat [of 8 1] assms by (auto simp: show_int_def)
  then show ?thesis
    by (simp add: can_log_end_def calendar_example_tm example_process_def log_prefix_def clock_calendar [OF calendar_example_tm])
qed

lemma can_log_end_child [simp]: "can_log_end t (p\<lparr>child_pid := c\<rparr>) = can_log_end t p" "can_log_end t (p\<lparr>mask := m\<rparr>) = can_log_end t p"
  by (simp_all add: can_log_end_def)

theorem stop_ends_daemon_witness:
  "let m = (example_process 41)\<lparr>child_pid := 42, mask := Some ''svnsrv.pid''\<rparr> in
   DaemonStop example_os 50 0 ''svnsrv.pid'' = Inr (True, [(41, SIGUSR1)]) \<and>
   (\<exists>os' m' w'. SignalDaemonKill example_tm example_os m = Inr (os', m', [(42, SIGUSR1)]) \<and>
      SignalDaemonKill example_tm os' (example_process 42) = Inr (os', w', []) \<and> check_pid os' 50 ''svnsrv.pid'' = Inr 0)"
  using stop_ends_daemon [of example_os "''svnsrv.pid''" "(example_process 41)\<lparr>child_pid := 42, mask := Some ''svnsrv.pid''\<rparr>" 50
      example_tm "example_process 42" example_tm 50] example_can_log_end [of 41] example_can_log_end [of 42]
  by (simp add: example_os_def) (simp add: example_process_def)

subsection \<open>The master's invariant\<close>

inductive_cases master_step_stopped: "master_step ok (Stopped pl os sent ws) s"

text \<open>
  At every place of the loop: which worker lives, and what \<open>child_pid\<close> says of it. A stopped master has done what
  \<open>SignalDaemonKill\<close> does at that place.
\<close>

fun workers_at :: "place \<Rightarrow> process \<Rightarrow> int list \<Rightarrow> bool" where
  "workers_at At_fork p ws \<longleftrightarrow> child_pid p = 0 \<and> ws = []"
| "workers_at (Forked f) p ws \<longleftrightarrow> child_pid p = 0 \<and> ws = [f] \<and> 0 < f"
| "workers_at Waiting p ws \<longleftrightarrow> 0 < child_pid p \<and> ws = [child_pid p]"
| "workers_at Waited p ws \<longleftrightarrow> 0 < child_pid p \<and> ws = []"

fun stopped_at :: "string option \<Rightarrow> os \<Rightarrow> place \<Rightarrow> os \<Rightarrow> (int \<times> signal) list \<Rightarrow> int list \<Rightarrow> bool" where
  "stopped_at m os0 At_fork os sent ws \<longleftrightarrow> os = os0 \<and> sent = [] \<and> ws = []"
| "stopped_at m os0 (Forked f) os sent ws \<longleftrightarrow> os = os0 \<and> sent = [] \<and> ws = [f]"
| "stopped_at m os0 Waiting os sent ws \<longleftrightarrow>
     os = (case m of None \<Rightarrow> os0 | Some f \<Rightarrow> os0\<lparr>pid_files := (pid_files os0)(f := None)\<rparr>) \<and>
     (\<exists>w. ws = [w] \<and> sent = [(w, SIGUSR1)])"
| "stopped_at m os0 Waited os sent ws \<longleftrightarrow>
     os = (case m of None \<Rightarrow> os0 | Some f \<Rightarrow> os0\<lparr>pid_files := (pid_files os0)(f := None)\<rparr>) \<and>
     (\<exists>w. ws = [] \<and> sent = [(w, SIGUSR1)])"

fun master_inv :: "process \<Rightarrow> os \<Rightarrow> master \<Rightarrow> bool" where
  "master_inv p0 os0 (Running pl n p os ws) \<longleftrightarrow>
     workers_at pl p ws \<and> os = os0 \<and> 0 \<le> n \<and> mask p = mask p0 \<and> handlers p = handlers p0 \<and> self p = self p0"
| "master_inv p0 os0 (Stopped pl os sent ws) \<longleftrightarrow> stopped_at (mask p0) os0 pl os sent ws"
| "master_inv p0 os0 (Gave_up n p os ws) \<longleftrightarrow> ws = [] \<and> os = os0 \<and> child_pid p < 0"

lemma log_message_keeps:
  "log_message ok t l m p = Inr p1 \<Longrightarrow> mask p1 = mask p \<and> handlers p1 = handlers p \<and> self p1 = self p \<and> child_pid p1 = child_pid p"
  by (auto simp: log_message_def fault_simps)

lemma master_step_inv: "master_step ok s s' \<Longrightarrow> master_inv p0 os0 s \<Longrightarrow> master_inv p0 os0 s'"
proof (induction rule: master_step.induct)
  case (again t n p p1 os ws)
  then show ?case by (auto dest: log_message_keeps)
next
  case (stops p t os os' p' sent pl n ws)
  from SignalDaemonKill_result [OF stops(2)] stops(3) show ?case
    by (cases pl) (auto simp: unlink_mask_def)
qed auto

lemma master_reaches_inv:
  assumes "master_reaches ok s s'" and "master_inv p0 os0 s"
  shows "master_inv p0 os0 s'"
  using assms by induction (auto intro: master_step_inv)

text \<open>
  There is never more than one worker: wherever the master is, at most one lives, and while it waits it waits for the one
  that lives.
\<close>

theorem one_worker:
  assumes "master_reaches ok (Running At_fork 0 p os []) s" and "child_pid p = 0"
  shows "(\<forall>pl n p1 os1 ws. s = Running pl n p1 os1 ws \<longrightarrow> length ws \<le> 1 \<and> (pl = Waiting \<longrightarrow> ws = [child_pid p1])) \<and>
    (\<forall>pl os1 sent ws. s = Stopped pl os1 sent ws \<longrightarrow> length ws \<le> 1)"
proof -
  have "master_inv p os s" using master_reaches_inv [OF assms(1), of p os] assms(2) by simp
  then show ?thesis
  proof (cases s)
    case (Running pl n p1 os1 ws)
    with \<open>master_inv p os s\<close> show ?thesis by (cases pl) auto
  next
    case (Stopped pl os1 sent ws)
    with \<open>master_inv p os s\<close> show ?thesis by (cases pl) auto
  qed simp
qed

text \<open>A master whose \<open>fork\<close> fails leaves no worker, but its pid file.\<close>

lemma fork_failure_keeps_pid_file:
  assumes "master_reaches ok (Running At_fork 0 p os []) (Gave_up n p1 os1 ws)" and "child_pid p = 0"
  shows "ws = [] \<and> pid_files os1 = pid_files os"
  using master_reaches_inv [OF assms(1), of p os] assms(2) by simp

text \<open>
  C9: A stop signal leaves no worker behind, except in one moment: a master stopped anywhere but between \<open>fork\<close> and the assignment to
  \<open>child_pid\<close> has sent \<open>SIGUSR1\<close> to every worker that lives.
\<close>

theorem stop_leaves_no_worker:
  assumes "master_reaches ok (Running At_fork 0 p os []) (Stopped pl os1 sent ws)" and "child_pid p = 0"
    and "\<forall>f. pl \<noteq> Forked f" and "w \<in> set ws"
  shows "(w, SIGUSR1) \<in> set sent"
  using master_reaches_inv [OF assms(1), of p os] assms(2-4) by (cases pl) auto

text \<open>
  C25: In that moment it does: the signal finds \<open>child_pid\<close> 0, the handler takes the master for a worker, and the new worker lives on with nobody
  to stop it and the pid file naming a process that is gone.
\<close>

theorem stop_orphans_worker:
  assumes "handlers p SIGUSR1 = Handle_daemon_kill" and "child_pid p = 0" and "can_log_end t p" and "0 < f"
  shows "master_reaches ok (Running At_fork 0 p os []) (Stopped (Forked f) os [] [f])"
proof -
  have "master_step ok (Running At_fork 0 p os []) (Running (Forked f) 0 p os [f])"
    using assms(4) by (rule forks)
  moreover obtain k where "SignalDaemonKill t os p = Inr (os, p\<lparr>logger := k\<rparr>, [])"
    using kill_worker [OF assms(3,2)] by blast
  then have "master_step ok (Running (Forked f) 0 p os [f]) (Stopped (Forked f) os [] [f])"
    using assms(1) by (rule stops [rotated])
  ultimately show ?thesis by (meson here further)
qed

lemma example_handled: "can_log_end t ((example_process i)\<lparr>handlers := h\<rparr>) = can_log_end t (example_process i)"
  by (simp add: can_log_end_def)

theorem stop_orphans_worker_witness:
  "master_reaches (\<lambda>_. True) (Running At_fork 0 (snd (DaemonSignalMethod (example_process 41))) example_os [])
     (Stopped (Forked 42) example_os [] [42])"
  by (rule stop_orphans_worker [where t = example_tm])
    (simp_all add: DaemonSignalMethod_def example_handled example_can_log_end, simp_all add: example_process_def)

lemma stop_waiting:
  assumes "handlers p SIGUSR1 = Handle_daemon_kill" and "can_log_end t p" and "0 < f"
  shows "master_reaches ok (Running At_fork 0 p os []) (Stopped Waiting (unlink_mask p os) [(f, SIGUSR1)] [f])"
proof -
  have "master_step ok (Running At_fork 0 p os []) (Running (Forked f) 0 p os [f])" using assms(3) by (rule forks)
  moreover have "master_step ok (Running (Forked f) 0 p os [f]) (Running Waiting 0 (p\<lparr>child_pid := f\<rparr>) os [f])" by (rule stores)
  moreover have "\<exists>k. SignalDaemonKill t os (p\<lparr>child_pid := f\<rparr>) = Inr (unlink_mask p os, (p\<lparr>child_pid := f\<rparr>)\<lparr>logger := k\<rparr>, [(f, SIGUSR1)])"
    using kill_master [of t "p\<lparr>child_pid := f\<rparr>" os] assms(2,3) by (simp add: unlink_mask_def)
  then obtain p' where "SignalDaemonKill t os (p\<lparr>child_pid := f\<rparr>) = Inr (unlink_mask p os, p', [(f, SIGUSR1)])" by blast
  then have "master_step ok (Running Waiting 0 (p\<lparr>child_pid := f\<rparr>) os [f]) (Stopped Waiting (unlink_mask p os) [(f, SIGUSR1)] [f])"
    using assms(1) by (intro stops) auto
  ultimately show ?thesis by (meson here further)
qed

lemma example_stopped:
  "master_reaches ok (Running At_fork 0 (snd (DaemonSignalMethod (example_process 41))) example_os [])
     (Stopped Waiting example_os [(42, SIGUSR1)] [42])"
proof -
  let ?p = "snd (DaemonSignalMethod (example_process 41))"
  have p: "handlers ?p SIGUSR1 = Handle_daemon_kill" "can_log_end example_tm ?p" "unlink_mask ?p example_os = example_os"
    using example_can_log_end [of 41]
    by (simp_all add: DaemonSignalMethod_def example_handled unlink_mask_def, simp_all add: example_process_def)
  from stop_waiting [OF p(1,2), of 42 ok example_os] show ?thesis unfolding p(3) by simp
qed

theorem stop_leaves_no_worker_witness:
  "\<exists>sent. master_reaches (\<lambda>_. True) (Running At_fork 0 (snd (DaemonSignalMethod (example_process 41))) example_os [])
     (Stopped Waiting example_os sent [42]) \<and> (42, SIGUSR1) \<in> set sent"
proof (intro exI conjI)
  note s = example_stopped [of "\<lambda>_. True"]
  then show "master_reaches (\<lambda>_. True) (Running At_fork 0 (snd (DaemonSignalMethod (example_process 41))) example_os [])
     (Stopped Waiting example_os [(42, SIGUSR1)] [42])" .
  show "(42 :: int, SIGUSR1) \<in> set [(42, SIGUSR1)]"
    by (rule stop_leaves_no_worker [OF s]) (simp_all add: DaemonSignalMethod_def example_process_def)
qed

theorem one_worker_witness:
  "\<exists>sent ws. master_reaches (\<lambda>_. True) (Running At_fork 0 (snd (DaemonSignalMethod (example_process 41))) example_os [])
     (Stopped Waiting example_os sent ws) \<and> length ws \<le> 1"
proof -
  have "child_pid (snd (DaemonSignalMethod (example_process 41))) = 0"
    by (simp add: DaemonSignalMethod_def example_process_def)
  from one_worker [OF example_stopped [of "\<lambda>_. True"] this] show ?thesis
    using example_stopped [of "\<lambda>_. True"] by blast
qed

subsection \<open>Serving again after a crash\<close>

lemma log_message_file:
  assumes "calendar t" and "logError (logger p) = Some (File e)" and "errorCounts (logger p) < MAX_LINE_NUMBER"
    and "length (log_prefix t (self p) (thread p) level) + length msg \<le> 4094"
  shows "log_message ok t level msg p = Inr (p\<lparr>logger := (logger p)\<lparr>errorCounts := errorCounts (logger p) + 1,
    calls := calls (logger p) @ [Fwrite (File e) (log_prefix t (self p) (thread p) level @ msg @ [CHR 0x0A])]\<rparr>\<rparr>)"
  using assms
  by (simp add: log_message_def log_calendar log_line_intact writerError_def fwrite_def closed_def Let_def not_le [symmetric])

lemma flush_log_files:
  assumes "logError (logger p) = Some (File e)" and "logAccess (logger p) = Some (File a)"
  shows "flush_log p = Inr (p\<lparr>logger := (logger p)\<lparr>calls := calls (logger p) @ [Fflush (Some (File a)), Fflush (Some (File e))]\<rparr>\<rparr>)"
  using assms by (simp add: flush_log_def fflushE_def closed_def)

text \<open>The lines of the error log for turns in which a worker was started and ended.\<close>

fun restart_lines :: "process \<Rightarrow> string \<Rightarrow> int \<Rightarrow> (int \<times> tm) list \<Rightarrow> stream_call list" where
  "restart_lines p e n [] = []"
| "restart_lines p e n ((f, t) # turns) =
     Fwrite (File e) (log_prefix t (self p) (thread p) kError @ ''Restart worker process,times: '' @ show_int (n + 1) @ [CHR 0x0A]) #
     restart_lines p e (n + 1) turns"

lemma restart_lines_keeps: "self p = self q \<Longrightarrow> thread p = thread q \<Longrightarrow> restart_lines p e n turns = restart_lines q e n turns"
  by (induction p e n turns rule: restart_lines.induct) auto

lemma master_loop_restarts:
  assumes "\<forall>(f, t) \<in> set turns. 0 < f \<and> calendar t \<and> length (log_prefix t (self p) (thread p) kError) \<le> 4000"
    and "logError (logger p) = Some (File e)" and "0 \<le> n" and "n + int (length turns) \<le> 50000"
    and "unat (errorCounts (logger p)) + length turns \<le> 50000"
  shows "\<exists>k. calls k = calls (logger p) @ restart_lines p e n turns \<and>
    master_loop ok w n (turns @ [(0, t0)]) p = Inr (Some (True, set_name ''svnsrv: worker'' (p\<lparr>self := w, child_pid := 0, logger := k\<rparr>)))"
  using assms
proof (induction turns arbitrary: n p)
  case Nil
  then show ?case by (intro exI [of _ "logger p"]) (simp add: set_name_def)
next
  case (Cons turn turns)
  obtain f t where turn: "turn = (f, t)" by (cases turn)
  let ?msg = "''Restart worker process,times: '' @ show_int (n + 1)" and ?p1 = "p\<lparr>child_pid := f\<rparr>"
  have "length (show_int (n + 1)) \<le> 5"
    using length_show_nat [of "nat (n + 1)" 5] Cons.prems(3,4) by (auto simp: show_int_def)
  moreover have counts: "errorCounts (logger p) < MAX_LINE_NUMBER"
    using Cons.prems(5) by (simp add: word_less_nat_alt MAX_LINE_NUMBER_def)
  ultimately have l: "log_message ok t kError ?msg ?p1 = Inr (?p1\<lparr>logger := (logger p)\<lparr>errorCounts := errorCounts (logger p) + 1,
      calls := calls (logger p) @ [Fwrite (File e) (log_prefix t (self p) (thread p) kError @ ?msg @ [CHR 0x0A])]\<rparr>\<rparr>)"
    using Cons.prems(1,2) turn by (subst log_message_file) auto
  let ?p2 = "?p1\<lparr>logger := (logger p)\<lparr>errorCounts := errorCounts (logger p) + 1,
      calls := calls (logger p) @ [Fwrite (File e) (log_prefix t (self p) (thread p) kError @ ?msg @ [CHR 0x0A])]\<rparr>, child_pid := 0\<rparr>"
  have "unat (errorCounts (logger p) + 1) = unat (errorCounts (logger p)) + 1"
    using counts by (simp add: MAX_LINE_NUMBER_def word_less_nat_alt unat_word_ariths(1))
  with Cons.IH [of ?p2 "n + 1"] Cons.prems obtain k where
    "calls k = calls (logger ?p2) @ restart_lines ?p2 e (n + 1) turns"
    "master_loop ok w (n + 1) (turns @ [(0, t0)]) ?p2 = Inr (Some (True, set_name ''svnsrv: worker'' (?p2\<lparr>self := w, child_pid := 0, logger := k\<rparr>)))"
    by auto
  with l turn Cons.prems(1) restart_lines_keeps [of ?p2 p e "n + 1" turns] show ?case
    by (intro exI [of _ k]) (simp add: Let_def)
qed

text \<open>
  C10: With \<open>CrashRestart\<close> the service comes back: however often (up to the length of a log) a worker was forked and has ended, the
  next process \<open>fork\<close> makes returns from \<open>DaemonWait\<close> as a worker with the worker's title, and the error log has one
  line, with the right number, for each worker that ended.
\<close>

theorem worker_serves_again:
  assumes "\<forall>(f, t) \<in> set turns. 0 < f \<and> calendar t \<and> length (log_prefix t (self p) (thread p) kError) \<le> 4000"
    and "logError (logger p) = Some (File e)" and "unat (errorCounts (logger p)) + length turns \<le> 50000"
    and "command_area p = laid_out a args envs l" and "args \<noteq> []" and "\<forall>s \<in> set (args @ envs). nul \<notin> set s"
    and "apart a args envs h" and "length (proc_cmdline envs) \<le> length g" and "24 \<le> length (proc_cmdline (args @ envs))"
  shows "\<exists>q. DaemonWait ok w (Some (h, g)) True (turns @ [(0, t0)]) p = Inr (Some (True, q)) \<and> child_pid q = 0 \<and> self q = w \<and>
    process_name q = ''svnsrv: worker'' \<and>
    strings_at (memory (command_area q)) (argv (command_area q)) = [''svnsrv: worker process''] \<and>
    strings_at (memory (command_area q)) (environ (command_area q)) = envs \<and>
    calls (logger q) = calls (logger p) @ restart_lines p e 0 turns"
proof -
  let ?p = "set_name ''svnsrv: master'' p"
  have "restart_lines ?p e 0 turns = restart_lines p e 0 turns"
    by (rule restart_lines_keeps) (simp_all add: set_name_def)
  then obtain k where k: "calls k = calls (logger p) @ restart_lines p e 0 turns"
    "master_loop ok w 0 (turns @ [(0, t0)]) ?p = Inr (Some (True, set_name ''svnsrv: worker'' (?p\<lparr>self := w, child_pid := 0, logger := k\<rparr>)))"
    using master_loop_restarts [of turns ?p e 0 ok w t0] assms(1-3) by (auto simp: set_name_def)
  obtain s where s: "relabel (Some (h, g)) ''svnsrv: worker process'' (laid_out a args envs l) = Inr s"
    "strings_at (memory s) (argv s) = [''svnsrv: worker process'']" "strings_at (memory s) (environ s) = envs"
    using title_of_area [OF assms(5-8), of "''svnsrv: worker process''" l] assms(9) by auto
  show ?thesis using k s assms(4) by (simp add: DaemonWait_def) (simp add: set_name_def)
qed

theorem worker_serves_again_witness:
  "\<exists>q. DaemonWait (\<lambda>_. True) 44 (Some (5000, replicate 64 (CHR ''x''))) True
       ([(42, example_tm), (43, example_tm)] @ [(0, example_tm)]) (example_process 41) =
     Inr (Some (True, q)) \<and> length (calls (logger q)) = 2"
proof -
  let ?turns = "[(42 :: int, example_tm), (43, example_tm)]" and ?g = "replicate 64 (CHR ''x'')"
  have "length (show_int 41) \<le> 2" "length (show_nat 8) \<le> 1"
    using length_show_nat [of 41 2] length_show_nat [of 8 1] by (auto simp: show_int_def)
  then have p: "\<forall>(f, t) \<in> set ?turns. 0 < f \<and> calendar t \<and>
      length (log_prefix t (self (example_process 41)) (thread (example_process 41)) kError) \<le> 4000"
    by (simp add: calendar_example_tm example_process_def log_prefix_def clock_calendar [OF calendar_example_tm])
  have e: "logError (logger (example_process 41)) = Some (File ''e.log'')"
    and c: "unat (errorCounts (logger (example_process 41))) + length ?turns \<le> 50000"
    and a: "command_area (example_process 41) = laid_out 1000 [''svnsrv'', ''-D''] [''PATH=/bin:/usr/bin'', ''HOME=/root''] 0"
    by (simp_all add: example_process_def new_klogger_def)
  from worker_serves_again [OF p e c a, of 5000 ?g "\<lambda>_. True" 44 example_tm] show ?thesis
    by (auto simp: apart_def example_process_def new_klogger_def)
qed

text \<open>
  \<open>DaemonRestart\<close> cannot tell the new daemon from the old one: it reports success whenever the pid file names a living process when it looks
  again, so also when nothing has changed, the new program has not started and the old daemon has not ended.
\<close>

theorem restart_cannot_tell:
  assumes "check_pid os (self p) (c_str f) = Inr pid" and "pid \<noteq> 0" and "link \<noteq> Some []" and "forked \<noteq> 0"
  shows "DaemonRestart ok t link (Some text) forked exec_ok e os os f p = Inr (Reports True, [(pid, SIGUSR1)], p)"
  using assms by (simp add: DaemonRestart_def ParsePathAndArgv_def Let_def)

theorem restart_cannot_tell_witness:
  "DaemonRestart (\<lambda>_. True) example_tm None (Some ''x'') (- 1) False [] example_os example_os ''svnsrv.pid'' (example_process 50) =
     Inr (Reports True, [(41, SIGUSR1)], example_process 50)"
  by (rule restart_cannot_tell) (simp_all add: example_daemon example_process_def)

end
