(* ===== verification/Win_Daemon.thy ===== *)
theory Win_Daemon
  imports Win_Runtime Daemon
begin

section \<open>The daemon on Windows (\<open>daemonize_win.inl\<close>)\<close>

text \<open>
  Windows has no \<open>fork\<close>: a process with a window starts its own command line again without one and exits; the second process finds that it has no
  window and writes the pid file. Stopping terminates the process the pid file names; restarting reads that process's command
  line, terminates it and starts the command line again.

  What the system answers is a \<open>win_env\<close>, which extends \<open>windows\<close>; the state a run changes is a \<open>win_state\<close>: the pid files, the processes
  \<open>OpenProcess\<close> was asked for (the \<open>n\<close>-th handle is \<open>Process n\<close>), the calls with an effect outside the process, in their order, the logger and the functions
  registered with \<open>atexit\<close>. The two versions of \<open>GetProcessCommandline\<close> are both here: with the Microsoft compiler it asks WMI, with
  another it reads the memory of the process. Messages on the console are left out.

  The properties: the two stages of a start and the refusal of a second daemon, what stopping does whether or not the process
  can be terminated, the command line a restart uses, and the bound of its buffer.
\<close>

subsection \<open>The system\<close>

text \<open>The rows WMI delivers: the process id and the \<open>bstrVal\<close> of the command line, which may be a null pointer.\<close>

record wmi =
  located :: bool
  connected :: bool
  queried :: bool
  enumerated :: bool
  rows :: "(u32 \<times> wide option) list"

text \<open>What reading the process parameters gives: the length in bytes and the memory of the command line.\<close>

record peb =
  entry_found :: bool
  information_ok :: bool
  peb_read_ok :: bool
  parameters_ok :: bool
  text_length :: u16
  text_memory :: "u8 list option"

text \<open>\<open>opens n pid\<close> is whether the \<open>n\<close>-th \<open>OpenProcess\<close> of the run succeeds.\<close>

record win_env = windows +
  current_pid :: u32
  current_thread :: nat
  command_line :: wide
  window_hidden :: bool
  opens :: "nat \<Rightarrow> u32 \<Rightarrow> bool"
  terminates :: "u32 \<Rightarrow> bool"
  creates :: "wide \<Rightarrow> bool"
  reopens :: "nat \<Rightarrow> bool"
  removes :: "string \<Rightarrow> bool"
  can_write :: "string \<Rightarrow> bool"
  stream_opens :: "string \<Rightarrow> bool"
  local_time :: tm
  wmi_answers :: wmi
  peb_answers :: peb

datatype handle = Null | Process nat | New_thread | New_process

datatype win_call = Close handle | Terminate handle | Remove string | Create wide | Reopen nat

record win_state =
  pid_texts :: "string \<Rightarrow> string option"
  opened :: "u32 list"
  calls :: "win_call list"
  win_logger :: Klogger
  at_exit :: nat

definition call :: "win_call \<Rightarrow> win_state \<Rightarrow> win_state" where
  "call c st = st\<lparr>calls := calls st @ [c]\<rparr>"

definition OpenProcess :: "win_env \<Rightarrow> u32 \<Rightarrow> win_state \<Rightarrow> handle \<times> win_state" where
  "OpenProcess env pid st =
     (let n = length (opened st)
      in (if opens env n pid then Process n else Null, st\<lparr>opened := opened st @ [pid]\<rparr>))"

definition unlink :: "win_env \<Rightarrow> string \<Rightarrow> win_state \<Rightarrow> win_state" where
  "unlink env f st =
     (let st1 = call (Remove f) st
      in if removes env f then st1\<lparr>pid_texts := (pid_texts st1)(f := None)\<rparr> else st1)"

definition CreateProcess :: "win_env \<Rightarrow> wide \<Rightarrow> win_state \<Rightarrow> bool \<times> win_state" where
  "CreateProcess env cmd st =
     (let st1 = call (Create cmd) st
      in if creates env cmd then (True, call (Close New_process) (call (Close New_thread) st1)) else (False, st1))"

subsection \<open>The command line of a process\<close>

text \<open>The objects are released in the order of the list.\<close>

datatype com_object = Locator | Services | Enumeration | Row nat

fun wmi_rows :: "nat \<Rightarrow> u32 \<Rightarrow> (u32 \<times> wide option) list \<Rightarrow> (wide option \<times> com_object list) eff" where
  "wmi_rows n pid [] = Inr (None, [])"
| "wmi_rows n pid ((p, cmd) # rs) =
     (if p = pid then andThen (deref cmd) (\<lambda>w. Inr (Some w, [Row n]))
      else andThen (wmi_rows (Suc n) pid rs) (\<lambda>(r, released). Inr (r, Row n # released)))"

definition GetProcessCommandline_wmi :: "wmi \<Rightarrow> u32 \<Rightarrow> (wide option \<times> com_object list) eff" where
  "GetProcessCommandline_wmi w pid =
     (if \<not> located w then Inr (None, [])
      else if \<not> connected w then Inr (None, [Locator])
      else if \<not> queried w \<or> \<not> enumerated w then Inr (None, [Services, Locator])
      else andThen (wmi_rows 0 pid (rows w)) (\<lambda>(r, released). Inr (r, released @ [Enumeration, Services, Locator])))"

fun wide_units :: "u8 list \<Rightarrow> wide" where
  "wide_units (a # b # bs) = (ucast a + 256 * ucast b) # wide_units bs"
| "wide_units _ = []"

definition GetProcessCommandline_peb :: "win_env \<Rightarrow> u32 \<Rightarrow> win_state \<Rightarrow> wide option \<times> win_state" where
  "GetProcessCommandline_peb env pid st =
     (let a = peb_answers env
      in if \<not> entry_found a then (None, st)
         else
           let (h, st1) = OpenProcess env pid st
           in if h = Null then (None, st1)
              else
                (if information_ok a \<and> peb_read_ok a \<and> parameters_ok a then
                   (case text_memory a of
                      None \<Rightarrow> None
                    | Some bytes \<Rightarrow> Some (take (unat (text_length a) div 2) (wide_units bytes)))
                 else None,
                 call (Close h) st1))"

definition GetProcessCommandline :: "win_env \<Rightarrow> u32 \<Rightarrow> win_state \<Rightarrow> (wide option \<times> win_state) eff" where
  "GetProcessCommandline env pid st =
     (if microsoft_compiler env then
        andThen (GetProcessCommandline_wmi (wmi_answers env) pid) (\<lambda>(r, released). Inr (r, st))
      else Inr (GetProcessCommandline_peb env pid st))"

subsection \<open>The pid file\<close>

text \<open>
  \<open>fscanf(fp, "%u", &pid)\<close> into 32 bits: \<open>None\<close> when it does not convert; a sign is accepted, and a number too large for the type is
  undefined.
\<close>

definition scan_u32 :: "string \<Rightarrow> u32 option eff" where
  "scan_u32 text =
     (let t = dropWhile is_space text;
          neg = (t \<noteq> [] \<and> hd t = CHR ''-'');
          u = (if t \<noteq> [] \<and> (hd t = CHR ''-'' \<or> hd t = CHR ''+'') then tl t else t);
          ds = takeWhile is_digit u
      in if ds = [] then Inr None
         else if 4294967295 < digits_value ds then Inl IntOverflow
         else Inr (Some (word_of_int (if neg then - digits_value ds else digits_value ds))))"

definition check_pid_win :: "win_env \<Rightarrow> string \<Rightarrow> win_state \<Rightarrow> (u32 \<times> win_state) eff" where
  "check_pid_win env pidfile st =
     (case pid_texts st pidfile of
        None \<Rightarrow> Inr (0, st)
      | Some text \<Rightarrow>
          andThen (scan_u32 text) (\<lambda>n.
            case n of
              None \<Rightarrow> Inr (0, st)
            | Some pid \<Rightarrow>
                if pid = 0 \<or> pid = current_pid env then Inr (0, st)
                else
                  let (h, st1) = OpenProcess env pid st
                  in if h = Null then Inr (0, st1) else Inr (pid, call (Close h) st1)))"

definition write_pid_win :: "win_env \<Rightarrow> string \<Rightarrow> win_state \<Rightarrow> (bool \<times> win_state) eff" where
  "write_pid_win env pidfile st =
     (if \<not> can_write env pidfile then
        andThen (log (stream_opens env) (local_time env) (uint (current_pid env)) (current_thread env) kFatal
            (''cannot open '' @ pidfile) (win_logger st)) (\<lambda>k.
          Inr (False, st\<lparr>win_logger := k\<rparr>))
      else Inr (True, st\<lparr>pid_texts := (pid_texts st)(pidfile \<mapsto> show_nat (unat (current_pid env)))\<rparr>))"

subsection \<open>Becoming a daemon\<close>

text \<open>
  \<open>wcsncpy\<close> fills the buffer of 32767 units; a command line of that length leaves no NUL in it, and \<open>CreateProcessW\<close> then reads past the
  buffer. The streams are reopened in the order of their descriptors 1, 2, 0.
\<close>

definition Daemonize_win :: "win_env \<Rightarrow> string \<Rightarrow> win_state \<Rightarrow> (int control \<times> win_state) eff" where
  "Daemonize_win env pidfile st =
     andThen (check_pid_win env (c_str pidfile) st) (\<lambda>(pid, st1).
     if pid \<noteq> 0 then Inr (Returns 1, st1)
     else if \<not> window_hidden env then
       if 32767 \<le> length (command_line env) then Inl OutOfBounds
       else
         let (result, st2) = CreateProcess env (command_line env) st1
         in Inr (if result then Exits 0 else Returns (- 2), st2)
     else
       let st2 = call (Reopen 1) st1 in
       if \<not> reopens env 1 then Inr (Returns (- 1), st2)
       else
         let st3 = call (Reopen 2) st2 in
         if \<not> reopens env 2 then Inr (Returns (- 1), st3)
         else
           let st4 = call (Reopen 0) st3 in
           if \<not> reopens env 0 then Inr (Returns (- 1), st4)
           else
             andThen (write_pid_win env (c_str pidfile) st4) (\<lambda>(ok, st5). Inr (Returns (if ok then 0 else - 2), st5)))"

definition DaemonWait_win :: "string list \<Rightarrow> bool \<Rightarrow> bool" where
  "DaemonWait_win Argv crash_restart = True"

definition WhenExit :: "win_env \<Rightarrow> win_state \<Rightarrow> win_state eff" where
  "WhenExit env st =
     andThen (destroy (local_time env) (uint (current_pid env)) (current_thread env) ''svnsrv shutdown'' (win_logger st)) (\<lambda>k.
       Inr (st\<lparr>win_logger := k\<rparr>))"

definition DaemonSignalMethod_win :: "win_state \<Rightarrow> int \<times> win_state" where
  "DaemonSignalMethod_win st = (0, st\<lparr>at_exit := Suc (at_exit st)\<rparr>)"

definition ForegroundSignalMethod_win :: "win_state \<Rightarrow> int \<times> win_state" where
  "ForegroundSignalMethod_win st = (0, st\<lparr>at_exit := Suc (at_exit st)\<rparr>)"

subsection \<open>Stopping\<close>

definition DaemonStop_win :: "win_env \<Rightarrow> string \<Rightarrow> win_state \<Rightarrow> (bool \<times> win_state) eff" where
  "DaemonStop_win env file st =
     andThen (check_pid_win env (c_str file) st) (\<lambda>(pid, st1).
     if pid = 0 then Inr (False, st1)
     else
       let (h, st2) = OpenProcess env pid st1 in
       if h = Null then Inr (False, st2)
       else
         let st3 = call (Terminate h) st2;
             st4 = (if \<not> terminates env pid then call (Close h) st3 else st3);
             st5 = call (Close h) st4
         in Inr (True, unlink env (c_str file) st5))"

subsection \<open>Restarting\<close>

text \<open>
  \<open>wcsncpy\<close> and \<open>wcsncat\<close> with a count of \<open>n\<close> units, on the text of a buffer of \<open>cap\<close> units. \<open>wcsncpy\<close> fills \<open>n\<close> units;
  \<open>wcsncat\<close> appends up to \<open>n\<close> units and a NUL, whatever the text already there.
\<close>

definition wcsncpy :: "nat \<Rightarrow> wide \<Rightarrow> nat \<Rightarrow> wide eff" where
  "wcsncpy cap src n = (if cap < n then Inl OutOfBounds else Inr (take n src))"

definition wcsncat :: "nat \<Rightarrow> wide \<Rightarrow> wide \<Rightarrow> nat \<Rightarrow> wide eff" where
  "wcsncat cap dest src n =
     (if cap < length dest + min n (length src) + 1 then Inl OutOfBounds else Inr (dest @ take n src))"

abbreviation wspace :: "16 word" where
  "wspace \<equiv> 0x20"

abbreviation wquote :: "16 word" where
  "wquote \<equiv> 0x22"

text \<open>\<open>cap\<close> is the size of the buffer the caller has, \<open>len\<close> the number it passes.\<close>

definition FindSelfExecuteFileName :: "nat \<Rightarrow> win_env \<Rightarrow> wide \<Rightarrow> nat \<Rightarrow> (bool \<times> wide) eff" where
  "FindSelfExecuteFileName cap env cmdline len =
     (case module_file env of
        None \<Rightarrow> Inr (False, cmdline)
      | Some path \<Rightarrow>
          if wspace \<in> set path then
            andThen (wcsncpy cap [wquote] len) (\<lambda>c1.
            andThen (wcsncat cap c1 path len) (\<lambda>c2.
            andThen (wcsncat cap c2 [wquote] len) (\<lambda>c3. Inr (True, c3))))
          else andThen (wcsncpy cap path len) (\<lambda>c1. Inr (True, c1)))"

fun path_args :: "bool \<Rightarrow> wide \<Rightarrow> wide" where
  "path_args bSeenQuote [] = []"
| "path_args bSeenQuote (c # cs) =
     (if c = wspace \<and> \<not> bSeenQuote then cs
      else path_args (if c = wquote then \<not> bSeenQuote else bSeenQuote) cs)"

definition InternalPathGetArgsW :: "wide option \<Rightarrow> wide option" where
  "InternalPathGetArgsW lpszPath = map_option (path_args False) lpszPath"

definition wide_c_str :: "wide \<Rightarrow> wide" where
  "wide_c_str w = takeWhile (\<lambda>u. u \<noteq> 0) w"

definition build_cmdline :: "nat \<Rightarrow> win_env \<Rightarrow> wide \<Rightarrow> nat \<Rightarrow> wide \<Rightarrow> (bool \<times> wide) eff" where
  "build_cmdline cap env cmdline bufferLength oldcmd =
     (if oldcmd = [] then Inr (False, cmdline)
      else
        andThen (FindSelfExecuteFileName cap env cmdline bufferLength) (\<lambda>(found, c1).
        if \<not> found then Inr (False, c1)
        else
          case InternalPathGetArgsW (Some (wide_c_str oldcmd)) of
            None \<Rightarrow> Inr (True, c1)
          | Some args \<Rightarrow>
              andThen (wcsncat cap c1 [wspace] bufferLength) (\<lambda>c2.
              andThen (wcsncat cap c2 args bufferLength) (\<lambda>c3. Inr (True, c3)))))"

definition DaemonRestart_win :: "win_env \<Rightarrow> string \<Rightarrow> win_state \<Rightarrow> (bool \<times> win_state) eff" where
  "DaemonRestart_win env file st =
     andThen (check_pid_win env (c_str file) st) (\<lambda>(pid, st1).
     if pid = 0 then Inr (False, st1)
     else
       andThen (GetProcessCommandline env pid st1) (\<lambda>(r, st2).
       case r of
         None \<Rightarrow> Inr (False, st2)
       | Some cmdline \<Rightarrow>
           let (h, st3) = OpenProcess env pid st2 in
           if h = Null then Inr (False, call (Close h) st3)
           else
             let st4 = unlink env (c_str file) (call (Close h) (call (Terminate h) st3))
             in andThen (build_cmdline 32767 env [] 32767 cmdline) (\<lambda>(built, buffer).
                  if \<not> built then Inr (False, st4)
                  else let (result, st5) = CreateProcess env buffer st4 in Inr (False, st5))))"

subsection \<open>Facts\<close>

lemmas call_simps = call_def unlink_def CreateProcess_def OpenProcess_def Let_def

lemma scan_u32_shown: "scan_u32 (show_nat (unat p)) = Inr (Some p)" for p :: u32
proof -
  have "uint p \<le> 4294967295" using unsigned_less [of p, where 'a = int] by simp
  then show ?thesis
    by (simp add: scan_u32_def show_nat_no_space hd_show_nat takeWhile_all [OF show_nat_digits] digits_value_show_nat)
qed

text \<open>What \<open>check_pid\<close> finds when the file names the process \<open>p\<close>.\<close>

lemma check_pid_win_shown:
  assumes "pid_texts st f = Some (show_nat (unat p))" and "p \<noteq> 0" and "p \<noteq> current_pid env"
  shows "check_pid_win env f st =
    (if opens env (length (opened st)) p
     then Inr (p, st\<lparr>opened := opened st @ [p], calls := calls st @ [Close (Process (length (opened st)))]\<rparr>)
     else Inr (0, st\<lparr>opened := opened st @ [p]\<rparr>))"
  using assms by (simp add: check_pid_win_def scan_u32_shown call_simps)

lemma check_pid_win_none: "pid_texts st f = None \<Longrightarrow> check_pid_win env f st = Inr (0, st)"
  by (simp add: check_pid_win_def)

lemma wmi_rows_found: "map_of rs p = Some (Some cmd) \<Longrightarrow> \<exists>released. wmi_rows n p rs = Inr (Some cmd, released)"
proof (induction n p rs rule: wmi_rows.induct)
  case (2 n p q c rs)
  then show ?case by (cases "q = p") auto
qed simp

text \<open>The path of a program as a command line starts with it.\<close>

definition quoted :: "wide \<Rightarrow> wide" where
  "quoted path = (if wspace \<in> set path then [wquote] @ path @ [wquote] else path)"

lemma path_args_skip: "wquote \<notin> set xs \<Longrightarrow> (b \<or> wspace \<notin> set xs) \<Longrightarrow> path_args b (xs @ ys) = path_args b ys"
  by (induction xs) auto

lemma path_args_quoted: "wquote \<notin> set path \<Longrightarrow> path_args False (quoted path @ wspace # args) = args"
  by (simp add: quoted_def path_args_skip)

lemma FindSelf_quoted:
  assumes "module_file env = Some path" and "length path < 260"
  shows "FindSelfExecuteFileName 32767 env c 32767 = Inr (True, quoted path)"
  using assms by (simp add: FindSelfExecuteFileName_def wcsncpy_def wcsncat_def quoted_def)

lemma length_quoted: "length path < 260 \<Longrightarrow> length (quoted path) < 262"
  by (simp add: quoted_def)

text \<open>The command line a restart builds, and the bound of its buffer.\<close>

lemma build_cmdline_eq:
  assumes "module_file env = Some path" and "length path < 260" and "old \<noteq> []" and "0 \<notin> set old" and "length old < 32767"
  shows "build_cmdline 32767 env [] 32767 old =
    (let cmd = quoted path @ [wspace] @ path_args False old
     in if length cmd < 32767 then Inr (True, cmd) else Inl OutOfBounds)"
proof -
  have "length (path_args b w) \<le> length w" for b w by (induction b w rule: path_args.induct) auto
  then have "length (path_args False old) \<le> 32767" using assms(5) by (meson le_trans less_imp_le)
  moreover have "wide_c_str old = old" using assms(4) by (auto simp: wide_c_str_def takeWhile_eq_all_conv)
  ultimately show ?thesis using FindSelf_quoted [OF assms(1,2)] length_quoted [OF assms(2)] assms(3)
    by (simp add: build_cmdline_def InternalPathGetArgsW_def wcsncat_def Let_def min_absorb2)
qed

subsection \<open>Properties\<close>

text \<open>
  C12: A daemon on Windows: with no daemon of the pid file, a process with a window starts its own command line once more and exits with 0; the process so
  started, which has none, leaves its process id in the pid file and returns 0; and \<open>Daemonize\<close> in any other process
  then returns 1, as long as that one can be opened.
\<close>

theorem daemon_starts_win:
  assumes "pid_texts st (c_str f) = None" and "\<not> window_hidden env1" and "length (command_line env1) < 32767"
    and "creates env1 (command_line env1)"
    and "window_hidden env2" and "\<forall>fd \<in> {0, 1, 2}. reopens env2 fd" and "can_write env2 (c_str f)"
    and "current_pid env2 = p" and "p \<noteq> 0"
    and "current_pid env3 \<noteq> p" and "\<forall>n. opens env3 n p"
  shows "\<exists>st1 st2 st3.
    Daemonize_win env1 f st = Inr (Exits 0, st1) \<and>
    calls st1 = calls st @ [Create (command_line env1), Close New_thread, Close New_process] \<and>
    Daemonize_win env2 f st1 = Inr (Returns 0, st2) \<and>
    calls st2 = calls st1 @ [Reopen 1, Reopen 2, Reopen 0] \<and>
    pid_texts st2 = (pid_texts st)(c_str f \<mapsto> show_nat (unat p)) \<and>
    Daemonize_win env3 f st2 = Inr (Returns 1, st3) \<and> pid_texts st3 = pid_texts st2"
  using assms by (auto simp: Daemonize_win_def write_pid_win_def check_pid_win_none check_pid_win_shown call_simps)

text \<open>
  C33: Stopping a daemon terminates the process the pid file names, removes the file and reports success. It does so also when the process could not be
  terminated, and then it has closed its handle twice.
\<close>

theorem stop_reports_success:
  assumes "pid_texts st (c_str f) = Some (show_nat (unat p))" and "p \<noteq> 0" and "p \<noteq> current_pid env"
    and "\<forall>n. opens env n p" and "removes env (c_str f)" and "h = length (opened st)"
  shows "\<exists>st'. DaemonStop_win env f st = Inr (True, st') \<and> pid_texts st' (c_str f) = None \<and> opened st' = opened st @ [p, p] \<and>
    calls st' = calls st @ [Close (Process h), Terminate (Process (Suc h))] @
      (if terminates env p then [] else [Close (Process (Suc h))]) @ [Close (Process (Suc h)), Remove (c_str f)]"
  using assms by (auto simp: DaemonStop_win_def check_pid_win_shown call_simps)

text \<open>
  C24: Restarting a daemon terminates it, removes the pid file and starts its command line again: the program's own path, quoted when it has a space, and the
  arguments as they were. \<open>DaemonRestart\<close> then returns \<open>false\<close>, whether or not the new process was created.
\<close>

theorem restart_returns_false:
  assumes "pid_texts st (c_str f) = Some (show_nat (unat p))" and "p \<noteq> 0" and "p \<noteq> current_pid env"
    and "\<forall>n. opens env n p" and "removes env (c_str f)" and "h = length (opened st)"
    and "microsoft_compiler env" and "wmi_answers env = w" and "located w" "connected w" "queried w" "enumerated w"
    and "map_of (rows w) p = Some (Some (quoted path @ wspace # args))"
    and "module_file env = Some path" and "length path < 260" and "wquote \<notin> set path"
    and "0 \<notin> set (path @ args)" and "length (quoted path @ wspace # args) < 32767"
  shows "\<exists>st'. DaemonRestart_win env f st = Inr (False, st') \<and> pid_texts st' (c_str f) = None \<and> opened st' = opened st @ [p, p] \<and>
    calls st' = calls st @ [Close (Process h), Terminate (Process (Suc h)), Close (Process (Suc h)), Remove (c_str f),
        Create (quoted path @ wspace # args)] @
      (if creates env (quoted path @ wspace # args) then [Close New_thread, Close New_process] else [])"
proof -
  let ?cmd = "quoted path @ wspace # args"
  obtain released where r: "wmi_rows 0 p (rows w) = Inr (Some ?cmd, released)"
    using wmi_rows_found [OF assms(13)] by blast
  have g: "GetProcessCommandline env p s = Inr (Some ?cmd, s)" for s
    using assms(7-12) r by (simp add: GetProcessCommandline_def GetProcessCommandline_wmi_def)
  have "0 \<notin> set ?cmd" using assms(17) by (auto simp: quoted_def)
  then have b: "build_cmdline 32767 env [] 32767 ?cmd = Inr (True, ?cmd)"
    using assms(14-18) by (simp add: build_cmdline_eq path_args_quoted Let_def)
  show ?thesis using assms(1-6) by (simp add: DaemonRestart_win_def check_pid_win_shown g b call_simps)
qed

text \<open>
  The restart runs past its buffer of 32767 units when the program's own path is longer than the one the daemon was started with and the arguments are long:
  \<open>wcsncat\<close> is given the size of the whole buffer.
\<close>

theorem restart_overruns_buffer:
  assumes "pid_texts st (c_str f) = Some (show_nat (unat p))" and "p \<noteq> 0" and "p \<noteq> current_pid env"
    and "\<forall>n. opens env n p"
    and "microsoft_compiler env" and "wmi_answers env = w" and "located w" "connected w" "queried w" "enumerated w"
    and "map_of (rows w) p = Some (Some (old @ wspace # args))"
    and "module_file env = Some path" and "length path < 260" and "wquote \<notin> set old" and "wspace \<notin> set old" and "0 \<notin> set (old @ args)"
    and "length (old @ wspace # args) < 32767" and "32767 \<le> length (quoted path @ wspace # args)"
  shows "DaemonRestart_win env f st = Inl OutOfBounds"
proof -
  let ?cmd = "old @ wspace # args"
  obtain released where r: "wmi_rows 0 p (rows w) = Inr (Some ?cmd, released)"
    using wmi_rows_found [OF assms(11)] by blast
  have g: "GetProcessCommandline env p s = Inr (Some ?cmd, s)" for s
    using assms(5-10) r by (simp add: GetProcessCommandline_def GetProcessCommandline_wmi_def)
  have "path_args False ?cmd = args" using assms(14,15) by (simp add: path_args_skip)
  then have b: "build_cmdline 32767 env [] 32767 ?cmd = Inl OutOfBounds"
    using assms(12,13,16-18) by (simp add: build_cmdline_eq Let_def)
  show ?thesis using assms(1-4) by (simp add: DaemonRestart_win_def check_pid_win_shown g b call_simps)
qed

lemma wmi_rows_eq: "wmi_rows n pid rs = Inr (r, l) \<Longrightarrow> r = (case map_of rs pid of None \<Rightarrow> None | Some c \<Rightarrow> c) \<and> (\<exists>m. l = map Row [n..<n + m])"
proof (induction n pid rs arbitrary: r l rule: wmi_rows.induct)
  case (1 n pid)
  then show ?case by (auto intro: exI [of _ 0])
next
  case (2 n pid q c rs)
  show ?case
  proof (cases "q = pid")
    case True
    with 2 have "c = r" "l = [Row n]" by (auto simp: andThen_def deref_def split: option.splits)
    with True show ?thesis by (auto intro!: exI [of _ 1])
  next
    case False
    with 2 obtain l' m where l: "l = Row n # l'" "l' = map Row [Suc n..<Suc n + m]"
      and r: "r = (case map_of rs pid of None \<Rightarrow> None | Some c \<Rightarrow> c)"
      by (fastforce simp: andThen_def split: sum.splits)
    have "l = map Row [n..<n + Suc m]" unfolding l by (simp add: upt_conv_Cons del: upt_Suc)
    with False r show ?thesis by (metis map_of_Cons_code(2))
  qed
qed

text \<open>
  WMI's answer is the command line of the first row that has the process id, \<open>None\<close> when no row has it or a step before fails; every object acquired
  on the way is released once, the rows first.
\<close>

theorem wmi_reads_and_releases:
  assumes "GetProcessCommandline_wmi w pid = Inr (r, released)"
  shows "r = (if located w \<and> connected w \<and> queried w \<and> enumerated w then (case map_of (rows w) pid of None \<Rightarrow> None | Some c \<Rightarrow> c) else None) \<and>
    (\<exists>n. released = map Row [0..<n] @ (if located w \<and> connected w \<and> queried w \<and> enumerated w then [Enumeration] else []) @
      (if located w \<and> connected w then [Services] else []) @ (if located w then [Locator] else []))"
proof (cases "located w \<and> connected w \<and> queried w \<and> enumerated w")
  case True
  with assms obtain l where "wmi_rows 0 pid (rows w) = Inr (r, l)" "released = l @ [Enumeration, Services, Locator]"
    by (auto simp: GetProcessCommandline_wmi_def andThen_def split: sum.splits)
  with True wmi_rows_eq [of 0 pid "rows w" r l] show ?thesis by auto
next
  case False
  with assms show ?thesis
    by (auto simp: GetProcessCommandline_wmi_def split: if_splits intro!: exI [of _ 0])
qed

text \<open>The bytes of a wide text as the memory of a process has them, the low byte first.\<close>

definition wide_bytes :: "wide \<Rightarrow> u8 list" where
  "wide_bytes w = concat (map (\<lambda>u. [ucast u, ucast (u div 256)]) w)"

lemma unit_of_bytes: "ucast (ucast u :: u8) + 256 * ucast (ucast (u div 256) :: u8) = u" for u :: u16
proof -
  have d: "u div 256 = drop_bit 8 u" by (simp add: drop_bit_eq_div)
  have p: "256 * x = push_bit 8 x" for x :: u16 by (simp add: push_bit_eq_mult mult.commute)
  have c: "ucast (ucast x :: u8) = take_bit 8 x" for x :: u16
    by (rule bit_word_eqI) (auto simp: bit_take_bit_iff bit_unsigned_iff dest: bit_imp_le_length)
  have t: "take_bit 8 (drop_bit 8 u) = drop_bit 8 u"
    by (rule bit_word_eqI) (auto simp: bit_take_bit_iff bit_drop_bit_eq dest: bit_imp_le_length)
  show ?thesis unfolding d p c t using bits_ident [of 8 u] by (simp only: add.commute)
qed

lemma wide_units_bytes: "wide_units (wide_bytes w) = w"
  by (induction w) (simp_all add: wide_bytes_def unit_of_bytes)

text \<open>Reading the memory of a process gives its command line, and the handle is closed.\<close>

theorem peb_reads:
  assumes "peb_answers env = \<lparr>entry_found = True, information_ok = True, peb_read_ok = True, parameters_ok = True,
      text_length = n, text_memory = Some (wide_bytes w)\<rparr>"
    and "unat n = 2 * length w" and "opens env (length (opened st)) pid"
  shows "GetProcessCommandline_peb env pid st =
    (Some w, st\<lparr>opened := opened st @ [pid], calls := calls st @ [Close (Process (length (opened st)))]\<rparr>)"
  using assms by (simp add: GetProcessCommandline_peb_def wide_units_bytes call_simps)

subsection \<open>The contract of \<open>Daemonize.h\<close>\<close>

text \<open>A process sees a daemon when it can open it.\<close>

definition pid_named_win :: "string \<Rightarrow> win_state \<Rightarrow> u32 option" where
  "pid_named_win f st = (case pid_texts st (c_str f) of None \<Rightarrow> None | Some text \<Rightarrow> (case scan_u32 text of Inr n \<Rightarrow> n | Inl _ \<Rightarrow> None))"

definition sees_daemon_win :: "win_env \<Rightarrow> win_state \<Rightarrow> u32 \<Rightarrow> bool" where
  "sees_daemon_win env st pid \<longleftrightarrow> pid \<noteq> 0 \<and> pid \<noteq> current_pid env \<and> (\<forall>n. opens env n pid)"

definition start_returns_win :: "string \<Rightarrow> win_env \<Rightarrow> win_state \<Rightarrow> int \<Rightarrow> win_state \<Rightarrow> bool" where
  "start_returns_win f env st r st' \<longleftrightarrow> Daemonize_win env f st = Inr (Returns r, st')"

text \<open>\<open>DaemonStop\<close> reports success and has asked to terminate a handle of the process.\<close>

definition stop_terminates :: "string \<Rightarrow> win_env \<Rightarrow> win_state \<Rightarrow> u32 \<Rightarrow> bool" where
  "stop_terminates f env st pid \<longleftrightarrow>
     (\<exists>st' h. DaemonStop_win env f st = Inr (True, st') \<and> Terminate (Process h) \<in> set (calls st') \<and> h < length (opened st') \<and> opened st' ! h = pid)"

lemma check_pid_win_named:
  assumes "pid_named_win f st = Some pid" and "sees_daemon_win env st pid"
  shows "check_pid_win env (c_str f) st =
    Inr (pid, st\<lparr>opened := opened st @ [pid], calls := calls st @ [Close (Process (length (opened st)))]\<rparr>)"
  using assms by (auto simp: pid_named_win_def sees_daemon_win_def check_pid_win_def call_simps split: option.splits sum.splits)

lemma Daemonize_win_success:
  assumes "Daemonize_win env f st = Inr (Returns 0, st')"
  shows "pid_texts st' (c_str f) = Some (show_nat (unat (current_pid env)))"
  using assms
  by (auto simp: Daemonize_win_def write_pid_win_def andThen_def call_simps split: sum.splits prod.splits if_splits)

interpretation windows_daemon: pid_file_daemon "pid_named_win f" sees_daemon_win "start_returns_win f" current_pid "stop_terminates f" for f
proof
  fix e s s'
  assume "start_returns_win f e s 0 s'"
  then show "pid_named_win f s' = Some (current_pid e)"
    by (simp add: start_returns_win_def pid_named_win_def Daemonize_win_success scan_u32_shown)
next
  fix s p e c s'
  assume a: "pid_named_win f s = Some p" "sees_daemon_win e s p" "start_returns_win f e s c s'"
  then have "p \<noteq> 0" by (simp add: sees_daemon_win_def)
  with a check_pid_win_named [OF a(1,2)] show "c = 1 \<and> pid_named_win f s' = pid_named_win f s"
    by (auto simp: start_returns_win_def Daemonize_win_def pid_named_win_def)
next
  fix s p e
  assume a: "pid_named_win f s = Some p" "sees_daemon_win e s p"
  then have "p \<noteq> 0" "\<And>n. opens e n p" by (simp_all add: sees_daemon_win_def)
  with check_pid_win_named [OF a] show "stop_terminates f e s p"
    by (auto simp: stop_terminates_def DaemonStop_win_def call_simps nth_append)
qed

text \<open>
  C34: One daemon per pid file on Windows too: in any sequence of starts, as long as the file is left alone between them and the daemon they made can be opened, one at most
  makes a daemon; and \<open>DaemonStop\<close> in any other process then asks the system to terminate that daemon.
\<close>

theorem one_daemon_per_file_win:
  assumes "orderly (pid_named_win f) sees_daemon_win (start_returns_win f) current_pid [] st tr" and "e \<in> set (successes tr)"
    and "pid_texts st' (c_str f) = pid_texts (end_state st tr) (c_str f)" and "sees_daemon_win e' st' (current_pid e)"
  shows "successes tr = [e] \<and> (\<exists>st'' h. DaemonStop_win e' f st' = Inr (True, st'') \<and> Terminate (Process h) \<in> set (calls st'') \<and>
    h < length (opened st'') \<and> opened st'' ! h = current_pid e)"
proof -
  have "pid_named_win f st' = pid_named_win f (end_state st tr)" using assms(3) by (simp add: pid_named_win_def)
  from windows_daemon.stop_reaches_the_success [OF assms(1,2) this assms(4)] show ?thesis by (simp add: stop_terminates_def)
qed

subsection \<open>An example\<close>

definition program_path :: wide where
  "program_path = widen (''C:'' @ [CHR 0x5C] @ ''my svn'' @ [CHR 0x5C] @ ''svnsrv.exe'')"

definition example_win :: "u32 \<Rightarrow> bool \<Rightarrow> wide option \<Rightarrow> win_env" where
  "example_win pid hidden cmd = windows.extend (example_windows\<lparr>module_file := Some program_path\<rparr>)
     \<lparr>current_pid = pid, current_thread = 8, command_line = widen ''svnsrv -D'', window_hidden = hidden, opens = (\<lambda>n p. True),
      terminates = (\<lambda>p. False), creates = (\<lambda>w. True), reopens = (\<lambda>fd. True), removes = (\<lambda>f. True), can_write = (\<lambda>f. True),
      stream_opens = (\<lambda>f. True), local_time = example_tm,
      wmi_answers = \<lparr>located = True, connected = True, queried = True, enumerated = True, rows = [(4, None), (1000, cmd)]\<rparr>,
      peb_answers = \<lparr>entry_found = False, information_ok = False, peb_read_ok = False, parameters_ok = False, text_length = 0, text_memory = None\<rparr>\<rparr>"

definition example_win_state :: "u32 option \<Rightarrow> win_state" where
  "example_win_state daemon = \<lparr>pid_texts = (\<lambda>f. map_option (\<lambda>p. show_nat (unat p)) daemon), opened = [], calls = [], win_logger = new_klogger, at_exit = 0\<rparr>"

lemma example_win_fields [simp]:
  "current_pid (example_win pid hidden cmd) = pid" "window_hidden (example_win pid hidden cmd) = hidden"
  "command_line (example_win pid hidden cmd) = widen ''svnsrv -D''" "module_file (example_win pid hidden cmd) = Some program_path"
  "microsoft_compiler (example_win pid hidden cmd)" "opens (example_win pid hidden cmd) n p" "\<not> terminates (example_win pid hidden cmd) p"
  "creates (example_win pid hidden cmd) w" "reopens (example_win pid hidden cmd) fd" "removes (example_win pid hidden cmd) f"
  "can_write (example_win pid hidden cmd) f"
  "wmi_answers (example_win pid hidden cmd) = \<lparr>located = True, connected = True, queried = True, enumerated = True, rows = [(4, None), (1000, cmd)]\<rparr>"
  by (simp_all add: example_win_def example_windows_def windows.defs)

lemma example_win_state_fields [simp]:
  "pid_texts (example_win_state daemon) f = map_option (\<lambda>p. show_nat (unat p)) daemon"
  "opened (example_win_state daemon) = []" "calls (example_win_state daemon) = []"
  by (simp_all add: example_win_state_def)

lemma length_widen [simp]: "length (widen s) = length s"
  by (simp add: widen_def)

lemma program_path_facts [simp]: "length program_path = 20" "wquote \<notin> set program_path" "0 \<notin> set program_path"
  by (simp_all add: program_path_def widen_def)

theorem daemon_starts_win_witness:
  "\<exists>st1 st2 st3.
    Daemonize_win (example_win 999 False None) ''svnsrv.pid'' (example_win_state None) = Inr (Exits 0, st1) \<and>
    Daemonize_win (example_win 1000 True None) ''svnsrv.pid'' st1 = Inr (Returns 0, st2) \<and>
    Daemonize_win (example_win 1001 False None) ''svnsrv.pid'' st2 = Inr (Returns 1, st3)"
  using daemon_starts_win [of "example_win_state None" "''svnsrv.pid''" "example_win 999 False None" "example_win 1000 True None" 1000
      "example_win 1001 False None"]
  by fastforce

theorem stop_reports_success_witness:
  "\<exists>st'. DaemonStop_win (example_win 2000 False None) ''svnsrv.pid'' (example_win_state (Some 1000)) = Inr (True, st') \<and>
    calls st' = [Close (Process 0), Terminate (Process 1), Close (Process 1), Close (Process 1), Remove ''svnsrv.pid'']"
  using stop_reports_success [of "example_win_state (Some 1000)" "''svnsrv.pid''" 1000 "example_win 2000 False None" 0] by fastforce

theorem restart_returns_false_witness:
  "\<exists>st'. DaemonRestart_win (example_win 2000 False (Some (quoted program_path @ wspace # widen ''-D''))) ''svnsrv.pid''
      (example_win_state (Some 1000)) = Inr (False, st') \<and>
    calls st' = [Close (Process 0), Terminate (Process 1), Close (Process 1), Remove ''svnsrv.pid'',
      Create (quoted program_path @ wspace # widen ''-D''), Close New_thread, Close New_process]"
proof -
  have "0 \<notin> set (program_path @ widen ''-D'')" by (simp add: widen_def)
  from restart_returns_false [of "example_win_state (Some 1000)" "''svnsrv.pid''" 1000
      "example_win 2000 False (Some (quoted program_path @ wspace # widen ''-D''))" 0 _ program_path "widen ''-D''", OF _ _ _ _ _ _ _ refl _ _ _ _ _ _ _ _ this]
  show ?thesis using length_quoted [of program_path] by simp blast
qed

theorem restart_overruns_buffer_witness:
  "DaemonRestart_win (example_win 2000 False (Some (widen ''svnsrv'' @ wspace # replicate 32750 0x61))) ''svnsrv.pid''
      (example_win_state (Some 1000)) = Inl OutOfBounds"
proof (rule restart_overruns_buffer [where p = 1000, OF _ _ _ _ _ refl])
  show "wquote \<notin> set (widen ''svnsrv'')" "wspace \<notin> set (widen ''svnsrv'')" "0 \<notin> set (widen ''svnsrv'' @ replicate 32750 0x61)"
    by (simp_all add: widen_def)
  show "32767 \<le> length (quoted program_path @ wspace # replicate 32750 0x61)" by (simp add: quoted_def)
qed simp_all

theorem wmi_reads_and_releases_witness:
  "\<exists>released. GetProcessCommandline_wmi (wmi_answers (example_win 2000 False (Some [0x61]))) 1000 = Inr (Some [0x61], released) \<and>
     (\<exists>n. released = map Row [0..<n] @ [Enumeration, Services, Locator])"
proof -
  obtain released where r: "GetProcessCommandline_wmi (wmi_answers (example_win 2000 False (Some [0x61]))) 1000 = Inr (Some [0x61], released)"
    by (simp add: GetProcessCommandline_wmi_def)
  from wmi_reads_and_releases [OF r] show ?thesis unfolding r by simp
qed

theorem peb_reads_witness:
  "GetProcessCommandline_peb (example_win 2000 False None\<lparr>peb_answers := \<lparr>entry_found = True, information_ok = True, peb_read_ok = True,
       parameters_ok = True, text_length = 18, text_memory = Some (wide_bytes (widen ''svnsrv -D''))\<rparr>\<rparr>) 1000 (example_win_state None) =
    (Some (widen ''svnsrv -D''), (example_win_state None)\<lparr>opened := [1000], calls := [Close (Process 0)]\<rparr>)"
  by (subst peb_reads [of _ 18 "widen ''svnsrv -D''"]) simp_all

theorem one_daemon_per_file_win_witness:
  "\<exists>st1 st2. Daemonize_win (example_win 1000 True None) ''svnsrv.pid'' (example_win_state None) = Inr (Returns 0, st1) \<and>
     DaemonStop_win (example_win 2000 False None) ''svnsrv.pid'' st1 = Inr (True, st2)"
proof -
  let ?e = "example_win 1000 True None"
  obtain st1 where d: "Daemonize_win ?e ''svnsrv.pid'' (example_win_state None) = Inr (Returns 0, st1)"
    by (simp add: Daemonize_win_def check_pid_win_none write_pid_win_def call_simps)
  then have o: "orderly (pid_named_win ''svnsrv.pid'') sees_daemon_win (start_returns_win ''svnsrv.pid'') current_pid [] (example_win_state None)
      [(example_win_state None, ?e, 0, st1)]"
    by (simp add: start_returns_win_def)
  have "sees_daemon_win (example_win 2000 False None) st1 1000" by (simp add: sees_daemon_win_def)
  with one_daemon_per_file_win [OF o, of ?e st1 "example_win 2000 False None"] d show ?thesis by auto
qed

end
