(* ===== verification/Permute.thy ===== *)
theory Permute
  imports Svn_Prelude
begin

section \<open>Exchanging blocks of arguments (\<open>gcd\<close>, \<open>permute_args\<close> of \<open>argv_getopt.inl\<close>)\<close>

text \<open>
  \<open>permute_args\<close> exchanges two neighbouring blocks of the argument vector in place, by walking
  the cycles of the permutation: there are as many as the greatest common divisor of the
  lengths of the blocks. The indices are never negative where it is called, so they are
  natural numbers here; an argument vector is the list of its elements.

  The property: the exchange by cycles is the rotation of the two blocks.
\<close>

text \<open>The loop of \<open>gcd\<close> after its first remainder, and the function; \<open>%\<close> by zero is undefined.\<close>

function gcd_loop :: "nat \<Rightarrow> nat \<Rightarrow> nat \<Rightarrow> nat" where
  "gcd_loop a b c = (if c \<noteq> 0 then gcd_loop b c (b mod c) else b)"
  by pat_completeness auto
termination
  by (relation "measure (\<lambda>(a, b, c). c)") simp_all

declare gcd_loop.simps [simp del]

definition gcd_int :: "nat \<Rightarrow> nat \<Rightarrow> nat eff" where
  "gcd_int a b = (if b = 0 then Inl DivideByZero else Inr (gcd_loop a b (a mod b)))"

text \<open>
  The inner loop (\<open>j\<close> iterations left) and the outer loop over the cycles (\<open>i\<close> is the next one,
  \<open>left\<close> how many there are still).
\<close>

fun cycle_loop :: "nat \<Rightarrow> nat \<Rightarrow> nat \<Rightarrow> nat \<Rightarrow> nat \<Rightarrow> nat \<Rightarrow> 'a list \<Rightarrow> 'a list eff" where
  "cycle_loop 0 pend nnonopts nopts cstart pos nargv = Inr nargv"
| "cycle_loop (Suc j) pend nnonopts nopts cstart pos nargv =
     (let pos' = (if pend \<le> pos then pos - nnonopts else pos + nopts) in
      if pos' < length nargv \<and> cstart < length nargv then
        let swap = nargv ! pos'; a1 = nargv[pos' := nargv ! cstart]; a2 = a1[cstart := swap]
        in cycle_loop j pend nnonopts nopts cstart pos' a2
      else Inl OutOfBounds)"

fun cycles_loop :: "nat \<Rightarrow> nat \<Rightarrow> nat \<Rightarrow> nat \<Rightarrow> nat \<Rightarrow> nat \<Rightarrow> 'a list \<Rightarrow> 'a list eff" where
  "cycles_loop 0 i cyclelen pend nnonopts nopts nargv = Inr nargv"
| "cycles_loop (Suc left) i cyclelen pend nnonopts nopts nargv =
     andThen (cycle_loop cyclelen pend nnonopts nopts (pend + i) (pend + i) nargv)
       (cycles_loop left (i + 1) cyclelen pend nnonopts nopts)"

definition permute_args :: "nat \<Rightarrow> nat \<Rightarrow> nat \<Rightarrow> 'a list \<Rightarrow> 'a list eff" where
  "permute_args panonopt_start panonopt_end opt_end nargv =
     (let nnonopts = panonopt_end - panonopt_start; nopts = opt_end - panonopt_end in
      andThen (gcd_int nnonopts nopts) (\<lambda>ncycle.
        if ncycle = 0 then Inl DivideByZero
        else cycles_loop ncycle 0 ((opt_end - panonopt_start) div ncycle) panonopt_end nnonopts nopts nargv))"

subsection \<open>The greatest common divisor\<close>

lemma gcd_loop_gcd: "0 < b \<Longrightarrow> gcd_loop a b (a mod b) = gcd a b"
proof (induction b arbitrary: a rule: less_induct)
  case (less b)
  show ?case
  proof (cases "a mod b = 0")
    case True
    then show ?thesis using less.prems by (simp add: gcd_loop.simps gcd_nat.absorb2 mod_eq_0_iff_dvd)
  next
    case False
    then have "gcd_loop b (a mod b) (b mod (a mod b)) = gcd b (a mod b)"
      using less.IH [of "a mod b" b] less.prems by simp
    with False show ?thesis
      by (subst gcd_loop.simps) (simp add: gcd.commute gcd_red_nat [of a b])
  qed
qed

lemma gcd_int_gcd: "0 < b \<Longrightarrow> gcd_int a b = Inr (gcd a b)"
  by (simp add: gcd_int_def gcd_loop_gcd)

subsection \<open>One cycle\<close>

text \<open>
  The vector is \<open>pre @ xs @ post\<close> with \<open>xs\<close> the two blocks, of length \<open>n = m + k\<close>; inside it the
  position after \<open>t\<close> iterations is \<open>(c + t * k) mod n\<close>.
\<close>

lemma next_position:
  fixes m k :: nat
  assumes "p < m + k"
  shows "(if m \<le> p then p - m else p + k) = (p + k) mod (m + k)"
proof (cases "m \<le> p")
  case True
  then have "p + k = (p - m) + (m + k)" by simp
  then have "(p + k) mod (m + k) = (p - m) mod (m + k)" by (metis mod_add_self2)
  with True assms show ?thesis by simp
qed (use assms in simp)

lemma back_position:
  fixes m k :: nat
  assumes "p < m + k"
  shows "((p + k) mod (m + k) + m) mod (m + k) = p"
proof -
  have "((p + k) mod (m + k) + m) mod (m + k) = (p + (m + k)) mod (m + k)"
    using mod_add_left_eq [of "p + k" "m + k" m] by (simp add: ac_simps)
  with assms show ?thesis by simp
qed

lemma positions_distinct:
  fixes m k :: nat
  assumes "0 < m + k" and "s < t" and "t < (m + k) div gcd m k"
  shows "(c + s * k) mod (m + k) \<noteq> (c + t * k) mod (m + k)"
proof
  let ?n = "m + k" and ?g = "gcd m k"
  assume "(c + s * k) mod ?n = (c + t * k) mod ?n"
  then have "?n dvd (c + t * k) - (c + s * k)"
    using assms(2) by (metis mod_eq_dvd_iff_nat add_le_cancel_left mult_le_mono1 nat_less_le)
  moreover have "(c + t * k) - (c + s * k) = (t - s) * k" by (simp add: diff_mult_distrib)
  ultimately have d: "?n dvd (t - s) * k" by simp
  have g: "gcd ?n k = ?g" by (rule gcd_add1)
  have "0 < ?g" using assms(1) by auto
  have "?n div ?g dvd (t - s) * (k div ?g)"
    using d by (metis dvd_div_iff_mult dvd_mult_div_cancel gcd_dvd2 g gcd_dvd1 div_mult_swap dvd_mult2
        \<open>0 < gcd m k\<close> less_not_refl mult.commute div_dvd_div)
  moreover have "coprime (?n div ?g) (k div ?g)"
    using div_gcd_coprime [of ?n k] assms(1) g by auto
  ultimately have "?n div ?g dvd t - s" by (simp add: coprime_dvd_mult_left_iff)
  then show False using assms(2,3) by (meson dvd_imp_le less_le_trans not_le zero_less_diff less_imp_diff_less)
qed

text \<open>The position after \<open>t\<close> iterations, and the blocks after them.\<close>

definition at :: "nat \<Rightarrow> nat \<Rightarrow> nat \<Rightarrow> nat \<Rightarrow> nat" where
  "at m k c t = (c + t * k) mod (m + k)"

fun turned :: "nat \<Rightarrow> nat \<Rightarrow> nat \<Rightarrow> 'a list \<Rightarrow> nat \<Rightarrow> 'a list" where
  "turned m k c xs 0 = xs"
| "turned m k c xs (Suc t) =
     (let ys = turned m k c xs t; p = at m k c (Suc t) in ys[p := ys ! c, c := ys ! p])"

lemma at_less: "0 < m + k \<Longrightarrow> at m k c t < m + k"
  by (simp add: at_def)

lemma at_Suc: "at m k c (Suc t) = (at m k c t + k) mod (m + k)"
  using mod_add_left_eq [of "c + t * k" "m + k" k] by (simp add: at_def ac_simps)

lemma length_turned [simp]: "length (turned m k c xs t) = length xs"
  by (induction t) (simp_all add: Let_def)

lemma cycle_loop_turned:
  assumes "length xs = m + k" "c < m + k" "length pre = ps"
  shows "cycle_loop j (ps + m) m k (ps + c) (ps + at m k c t) (pre @ turned m k c xs t @ post) =
    Inr (pre @ turned m k c xs (t + j) @ post)"
proof (induction j arbitrary: t)
  case (Suc j)
  let ?p = "at m k c t" and ?q = "at m k c (Suc t)" and ?ys = "turned m k c xs t"
  have n: "0 < m + k" using assms(2) by linarith
  then have lt: "?p < m + k" "?q < m + k" by (simp_all only: at_less)
  have pos: "m \<le> ?p \<Longrightarrow> ps + ?p - m = ps + ?q" "\<not> m \<le> ?p \<Longrightarrow> ps + ?p + k = ps + ?q"
    using next_position [OF lt(1)] by (simp_all add: at_Suc)
  have nth: "(pre @ ?ys @ post) ! (ps + x) = ?ys ! x" if "x < m + k" for x
    using that assms by (simp add: nth_append)
  have upd: "(pre @ zs @ post)[ps + x := a] = pre @ zs[x := a] @ post" if "x < m + k" "length zs = m + k" for x a zs
    using that assms by (simp add: list_update_append)
  have "cycle_loop (Suc j) (ps + m) m k (ps + c) (ps + ?p) (pre @ ?ys @ post) =
      cycle_loop j (ps + m) m k (ps + c) (ps + ?q) (pre @ turned m k c xs (Suc t) @ post)"
    using assms lt pos by (cases "m \<le> ?p") (simp_all add: add.assoc Let_def nth upd)
  then show ?case using Suc.IH [of "Suc t"] by simp
qed simp

text \<open>Before the cycle closes, all positions it has visited hold their final element.\<close>

lemma turned_before:
  assumes "length xs = m + k" "c < m + k" "t < (m + k) div gcd m k"
  shows "turned m k c xs t ! c = xs ! at m k c t \<and>
    (\<forall>y < m + k. y \<noteq> c \<longrightarrow> turned m k c xs t ! y =
      (if y \<in> at m k c ` {1..t} then xs ! ((y + m) mod (m + k)) else xs ! y))"
  using assms(3)
proof (induction t)
  case 0
  then show ?case using assms(2) by (simp add: at_def)
next
  case (Suc t)
  let ?ys = "turned m k c xs t" and ?q = "at m k c (Suc t)"
  have n: "0 < m + k" using assms(2) by linarith
  have at0: "at m k c 0 = c" using assms(2) by (simp add: at_def)
  have new: "?q \<noteq> at m k c s" if "s \<le> t" for s
    using positions_distinct [OF n, of s "Suc t" c] that Suc.prems by (auto simp: at_def)
  then have q: "?q \<noteq> c" "?q \<notin> at m k c ` {1..t}" "?q < m + k"
    using at0 at_less [OF n] by force+
  have IH: "?ys ! c = xs ! at m k c t"
    "\<And>y. y < m + k \<Longrightarrow> y \<noteq> c \<Longrightarrow> ?ys ! y = (if y \<in> at m k c ` {1..t} then xs ! ((y + m) mod (m + k)) else xs ! y)"
    using Suc by auto
  have before: "(?q + m) mod (m + k) = at m k c t"
    using back_position [OF at_less [OF n], of c t] by (simp add: at_Suc)
  have step: "turned m k c xs (Suc t) = ?ys[?q := ?ys ! c, c := ?ys ! ?q]" by (simp add: Let_def)
  have "turned m k c xs (Suc t) ! c = xs ! ?q"
    using IH(2) [OF q(3,1)] q(2) assms(1,2) unfolding step by simp
  moreover have "turned m k c xs (Suc t) ! y =
      (if y \<in> at m k c ` {1..Suc t} then xs ! ((y + m) mod (m + k)) else xs ! y)" if y: "y < m + k" "y \<noteq> c" for y
  proof (cases "y = ?q")
    case True
    then show ?thesis
      using IH(1) q assms(1) before unfolding step by auto
  next
    case False
    then have "y \<in> at m k c ` {1..Suc t} \<longleftrightarrow> y \<in> at m k c ` {1..t}"
      by (auto simp: atLeastAtMostSuc_conv)
    with False y IH(2) [OF y] show ?thesis unfolding step by simp
  qed
  ultimately show ?case by blast
qed

lemma at_closes:
  assumes "c < m + k"
  shows "at m k c ((m + k) div gcd m k) = c"
proof -
  have "(m + k) div gcd m k * k = (m + k) * (k div gcd m k)"
    by (metis div_mult_swap dvd_div_mult dvd_add gcd_dvd1 gcd_dvd2 mult.commute)
  then show ?thesis using assms by (simp add: at_def)
qed

lemma cycle_length_pos: "0 < m + k \<Longrightarrow> 0 < (m + k) div gcd (m :: nat) k"
  unfolding div_greater_zero_iff by (auto intro!: dvd_imp_le dvd_add)

lemma turned_full:
  assumes "length xs = m + k" "c < m + k" "y < m + k"
  shows "turned m k c xs ((m + k) div gcd m k) ! y =
    (if y \<in> at m k c ` {1..(m + k) div gcd m k} then xs ! ((y + m) mod (m + k)) else xs ! y)"
proof -
  have n: "0 < m + k" using assms(2) by linarith
  obtain t where t: "(m + k) div gcd m k = Suc t" using cycle_length_pos [OF n] by (metis gr0_implies_Suc)
  have c: "at m k c (Suc t) = c" using at_closes [OF assms(2)] t by simp
  have same: "turned m k c xs (Suc t) = turned m k c xs t" by (simp add: Let_def c)
  have before: "turned m k c xs t ! c = xs ! at m k c t"
    "y \<noteq> c \<Longrightarrow> turned m k c xs t ! y = (if y \<in> at m k c ` {1..t} then xs ! ((y + m) mod (m + k)) else xs ! y)"
    using turned_before [OF assms(1,2), of t] t assms(3) by simp_all
  have visited: "y \<in> at m k c ` {1..Suc t} \<longleftrightarrow> y = c \<or> y \<in> at m k c ` {1..t}"
    by (auto simp: atLeastAtMostSuc_conv c)
  have "(c + m) mod (m + k) = at m k c t"
    using back_position [OF at_less [OF n], of c t] at_Suc [of m k c t] c by simp
  then show ?thesis
    unfolding t same using before visited by (cases "y = c") simp_all
qed

text \<open>The positions of a cycle are those of one remainder modulo the number of cycles.\<close>

lemma positions_of_cycle:
  assumes "0 < m" "0 < k" "i < gcd m k"
  shows "at m k (m + i) ` {1..(m + k) div gcd m k} = {y. y < m + k \<and> y mod gcd m k = i}" (is "?A = ?B")
proof (rule card_subset_eq)
  let ?g = "gcd m k" and ?L = "(m + k) div gcd m k"
  have n: "0 < m + k" and g: "0 < ?g" using assms by auto
  have Lg: "?L * ?g = m + k" by (intro dvd_div_mult_self dvd_add gcd_dvd1 gcd_dvd2)
  show "finite ?B" by simp
  show "?A \<subseteq> ?B"
  proof clarify
    fix t
    have "at m k (m + i) t mod ?g = (m + i + t * k) mod ?g"
      unfolding at_def by (rule mod_mod_cancel) simp
    also have "\<dots> = i mod ?g"
    proof -
      have "m + i + t * k = i + ?g * (m div ?g + t * (k div ?g))"
        by (simp add: distrib_left mult.left_commute [of "gcd m k"])
      then show ?thesis by (simp only: mod_mult_self2)
    qed
    finally show "at m k (m + i) t < m + k \<and> at m k (m + i) t mod ?g = i"
      using assms(3) at_less [OF n] by simp
  qed
  have "inj_on (at m k (m + i)) {..<?L}"
  proof (rule inj_onI)
    fix s t assume "s \<in> {..<?L}" "t \<in> {..<?L}" "at m k (m + i) s = at m k (m + i) t"
    then show "s = t"
      using positions_distinct [OF n, of s t "m + i"] positions_distinct [OF n, of t s "m + i"]
      by (cases s t rule: linorder_cases) (auto simp: at_def)
  qed
  then have "card (at m k (m + i) ` {..<?L}) = ?L" by (simp add: card_image)
  moreover have "at m k (m + i) ` {..<?L} \<subseteq> ?A"
  proof (rule image_subsetI)
    fix t assume t: "t \<in> {..<?L}"
    show "at m k (m + i) t \<in> ?A"
    proof (cases t)
      case 0
      have "at m k (m + i) ?L = at m k (m + i) 0"
      proof -
        have "i < k" using assms(2,3) dvd_imp_le [OF gcd_dvd2 [of m k]] by linarith
        then show ?thesis using at_closes [of "m + i" m k] by (simp add: at_def)
      qed
      then have "at m k (m + i) t = at m k (m + i) ?L" using 0 by simp
      then show ?thesis using cycle_length_pos [OF n] by (intro image_eqI [of _ _ ?L]) auto
    next
      case (Suc u)
      then show ?thesis using t by (intro imageI) auto
    qed
  qed
  moreover have fin: "finite ?A" by simp
  ultimately have "?L \<le> card ?A" by (metis card_mono)
  moreover have "card ?A \<le> ?L" using card_image_le [of "{1..?L}" "at m k (m + i)"] by simp
  ultimately have A: "card ?A = ?L" by simp
  have "?B = (\<lambda>q. q * ?g + i) ` {..<?L}"
  proof (intro equalityI subsetI)
    fix y assume y: "y \<in> ?B"
    then have "y = y div ?g * ?g + i" by (metis (mono_tags) div_mult_mod_eq mem_Collect_eq)
    moreover have "y div ?g < ?L" using y Lg by (metis (mono_tags) less_mult_imp_div_less mem_Collect_eq)
    ultimately show "y \<in> (\<lambda>q. q * ?g + i) ` {..<?L}" by blast
  next
    fix y assume "y \<in> (\<lambda>q. q * ?g + i) ` {..<?L}"
    then obtain q where q: "q < ?L" "y = q * ?g + i" by auto
    have "y < Suc q * ?g" using q(2) assms(3) by simp
    also have "\<dots> \<le> ?L * ?g" using q(1) by (intro mult_le_mono1) simp
    finally show "y \<in> ?B" using q(2) assms(3) Lg by simp
  qed
  moreover have "inj_on (\<lambda>q. q * ?g + i) {..<?L}" using g by (auto intro!: inj_onI)
  ultimately have "card ?B = ?L" by (simp add: card_image)
  with A show "card ?A = card ?B" by simp
qed

subsection \<open>All cycles\<close>

lemma cycles_loop_rotate:
  assumes "0 < m" "0 < k" "length pre = ps" "length xs = m + k"
    and "length ys = m + k" "i + left = gcd m k"
    and "\<forall>y < m + k. ys ! y = (if y mod gcd m k < i then xs ! ((y + m) mod (m + k)) else xs ! y)"
  shows "cycles_loop left i ((m + k) div gcd m k) (ps + m) m k (pre @ ys @ post) = Inr (pre @ rotate m xs @ post)"
  using assms(5-7)
proof (induction left arbitrary: i ys)
  case 0
  have "ys = rotate m xs"
  proof (rule nth_equalityI)
    show "length ys = length (rotate m xs)" using 0 assms(4) by simp
    fix y assume "y < length ys"
    then have y: "y < m + k" using 0 by simp
    have "y mod gcd m k < i" using 0 assms(1) by simp
    then show "ys ! y = rotate m xs ! y" using 0 y assms(4) by (simp add: nth_rotate add.commute)
  qed
  then show ?case by simp
next
  case (Suc left)
  let ?g = "gcd m k" and ?L = "(m + k) div gcd m k"
  have i: "i < ?g" using Suc.prems(2) by simp
  have "i < k" using i assms(2) dvd_imp_le [OF gcd_dvd2 [of m k]] by linarith
  then have c: "m + i < m + k" by simp
  let ?zs = "turned m k (m + i) ys ?L"
  have "at m k (m + i) 0 = m + i" using c by (simp add: at_def)
  then have cyc: "cycle_loop ?L (ps + m) m k (ps + m + i) (ps + m + i) (pre @ ys @ post) = Inr (pre @ ?zs @ post)"
    using cycle_loop_turned [OF Suc.prems(1) c assms(3), of ?L 0 post] by (simp add: add.assoc)
  have zs: "?zs ! y = (if y mod ?g < i + 1 then xs ! ((y + m) mod (m + k)) else xs ! y)" if y: "y < m + k" for y
  proof -
    have "y \<in> at m k (m + i) ` {1..?L} \<longleftrightarrow> y mod ?g = i"
      using positions_of_cycle [OF assms(1,2) i] y by simp
    then have z: "?zs ! y = (if y mod ?g = i then ys ! ((y + m) mod (m + k)) else ys ! y)"
      using turned_full [OF Suc.prems(1) c y] by simp
    have "(y + m) mod (m + k) < m + k" using c by (intro mod_less_divisor) linarith
    moreover have "(y + m) mod (m + k) mod ?g = y mod ?g"
    proof -
      have "(y + m) mod (m + k) mod ?g = (y + m) mod ?g" by (rule mod_mod_cancel) simp
      also have "\<dots> = y mod ?g" by (metis dvd_mult_div_cancel gcd_dvd1 mod_mult_self2)
      finally show ?thesis .
    qed
    ultimately show ?thesis using Suc.prems(3) y z by simp
  qed
  have "cycles_loop left (i + 1) ?L (ps + m) m k (pre @ ?zs @ post) = Inr (pre @ rotate m xs @ post)"
    using zs Suc.prems(1,2) by (intro Suc.IH) simp_all
  with cyc show ?case by simp
qed

lemma permute_args_blocks:
  assumes "nonopts \<noteq> []" "opts \<noteq> []"
  shows "permute_args (length pre) (length pre + length nonopts) (length pre + length nonopts + length opts)
      (pre @ nonopts @ opts @ post) = Inr (pre @ opts @ nonopts @ post)"
proof -
  let ?m = "length nonopts" and ?k = "length opts"
  have "rotate ?m (nonopts @ opts) = opts @ nonopts" by (rule rotate_append)
  moreover have "cycles_loop (gcd ?m ?k) 0 ((?m + ?k) div gcd ?m ?k) (length pre + ?m) ?m ?k (pre @ (nonopts @ opts) @ post) =
      Inr (pre @ rotate ?m (nonopts @ opts) @ post)"
    using assms by (intro cycles_loop_rotate) simp_all
  moreover have "gcd_int ?m ?k = Inr (gcd ?m ?k)" using assms by (intro gcd_int_gcd) simp
  ultimately show ?thesis using assms by (simp add: permute_args_def)
qed

lemma permute_args_eq:
  assumes "s < e" and "e < f" and "f \<le> length xs"
  shows "permute_args s e f xs = Inr (take s xs @ drop e (take f xs) @ drop s (take e xs) @ drop f xs)"
proof -
  have "xs = take s xs @ drop s (take e xs) @ drop e (take f xs) @ drop f xs"
    using assms by (metis append_assoc append_take_drop_id less_imp_le_nat min.absorb1 take_take)
  moreover have "length (take s xs) = s" "length (drop s (take e xs)) = e - s" "length (drop e (take f xs)) = f - e"
    using assms by simp_all
  ultimately show ?thesis
    using permute_args_blocks [of "drop s (take e xs)" "drop e (take f xs)" "take s xs" "drop f xs"] assms by fastforce
qed

text \<open>
  C7: \<open>permute_args\<close> exchanges the non-options with the options behind them, keeps the order inside
  both blocks and everything outside them, and neither divides by zero nor leaves the array.
\<close>

theorem permute_args_exchanges:
  assumes "s < e" and "e < f" and "f \<le> length xs"
  shows "permute_args s e f xs = Inr (take s xs @ drop e (take f xs) @ drop s (take e xs) @ drop f xs)"
  using assms by (rule permute_args_eq)

theorem permute_args_exchanges_witness:
  "permute_args 1 5 7 [''p'', ''a'', ''b'', ''c'', ''d'', ''-x'', ''-y'', ''e''] =
    Inr [''p'', ''-x'', ''-y'', ''a'', ''b'', ''c'', ''d'', ''e'']"
  using permute_args_exchanges [of 1 5 7 "[''p'', ''a'', ''b'', ''c'', ''d'', ''-x'', ''-y'', ''e'']"] by simp

end
