(* ===== verification/Getopt.thy ===== *)
theory Getopt
  imports Permute
begin

section \<open>Command line options (\<open>argv_getopt.inl\<close>, \<open>Argv.hpp\<close>)\<close>

text \<open>
  The BSD \<open>getopt\<close> family the program brings for compilers that have none; \<open>Argv.hpp\<close> compiles it under \<open>_MSC_VER\<close> only. The static and
  global variables of the file are the record \<open>getopt_state\<close>, with the argument vector beside
  them; a call is a function from it to a return value and it. A pointer into an argument is
  the rest of the string from it, and \<open>place_is_arg\<close> says whether \<open>place\<close> is the pointer
  \<open>nargv[optind]\<close> itself, which the code compares it with. An index of -1 is \<open>None\<close>. An
  argument vector is the list of its pointers, a null pointer \<open>None\<close>; reading behind
  it faults. The warnings are \<open>pass()\<close> in the source and have no effect.

  The properties: which long option a name selects, what an option without its argument does
  on the vector \<open>SavedArgv\<close> makes, and that a call on option letters returns them in turn.
\<close>

subsection \<open>Data\<close>

datatype has_arg = no_argument | required_argument | optional_argument

text \<open>\<open>flag\<close> is null or the address of an \<open>int\<close>; \<open>stores\<close> below collects what is written through it.\<close>

record option_entry =
  opt_name :: string
  opt_has_arg :: has_arg
  opt_flag :: "nat option"
  opt_val :: int

record getopt_state =
  nargv :: "string option list"
  optind :: nat
  optopt :: int
  optreset :: bool
  optarg :: "string option"
  place :: string
  place_is_arg :: bool
  nonopt_start :: "nat option"
  nonopt_end :: "nat option"
  stores :: "(nat \<times> int) list"

definition arg_at :: "getopt_state \<Rightarrow> nat \<Rightarrow> string option eff" where
  "arg_at s i = (if i < length (nargv s) then Inr (nargv s ! i) else Inl OutOfBounds)"

text \<open>The character a pointer into a string points at, and the one after it.\<close>

definition at_char :: "string \<Rightarrow> char" where
  "at_char p = (case p of [] \<Rightarrow> nul | c # _ \<Rightarrow> c)"

lemma at_char_simps [simp]: "at_char [] = nul" "at_char (c # r) = c"
  by (simp_all add: at_char_def)

definition has_letter :: "string \<Rightarrow> char \<Rightarrow> bool" where
  "has_letter options c \<longleftrightarrow> c = nul \<or> c \<in> set options"

definition BADCH :: int where
  "BADCH = uchar (CHR ''?'')"

definition BADARG :: "string \<Rightarrow> int" where
  "BADARG options = (if at_char options = CHR '':'' then uchar (CHR '':'') else uchar (CHR ''?''))"

definition INORDER :: int where
  "INORDER = 1"

subsection \<open>\<open>parse_long_options\<close>\<close>

text \<open>
  The loop over the table: \<open>match\<close> is the index of the entry selected so far, the result
  \<open>None\<close> when the abbreviation is ambiguous.
\<close>

fun match_loop :: "string \<Rightarrow> bool \<Rightarrow> option_entry list \<Rightarrow> nat \<Rightarrow> nat option \<Rightarrow> nat option option" where
  "match_loop current short_too [] i m = Some m"
| "match_loop current short_too (o' # os) i m =
     (if take (length current) (opt_name o') \<noteq> current then match_loop current short_too os (i + 1) m
      else if length (opt_name o') = length current then Some (Some i)
      else if short_too \<and> length current = 1 then match_loop current short_too os (i + 1) m
      else if m = None then match_loop current short_too os (i + 1) (Some i)
      else None)"

definition val_or_zero :: "option_entry \<Rightarrow> int" where
  "val_or_zero o' = (if opt_flag o' = None then opt_val o' else 0)"

text \<open>
  The result is the value returned, the index stored through \<open>idx\<close> (if any) and the state;
  \<open>current\<close> and \<open>has_equal\<close> split \<open>place\<close> at its first equals sign.
\<close>

definition parse_long_options ::
    "string \<Rightarrow> option_entry list \<Rightarrow> bool \<Rightarrow> getopt_state \<Rightarrow> (int \<times> nat option \<times> getopt_state) eff" where
  "parse_long_options options long_options short_too s =
     (let current_argv = place s; s1 = s\<lparr>optind := optind s + 1\<rparr>;
          current = takeWhile (\<lambda>c. c \<noteq> CHR ''='') current_argv;
          has_equal = (if CHR ''='' \<in> set current_argv then Some (drop (Suc (length current)) current_argv) else None)
      in case match_loop current short_too long_options 0 None of
           None \<Rightarrow> Inr (BADCH, None, s1\<lparr>optopt := 0\<rparr>)
         | Some None \<Rightarrow>
             if short_too then Inr (- 1, None, s1\<lparr>optind := optind s1 - 1\<rparr>)
             else Inr (BADCH, None, s1\<lparr>optopt := 0\<rparr>)
         | Some (Some m) \<Rightarrow>
             let o' = long_options ! m in
             if opt_has_arg o' = no_argument \<and> has_equal \<noteq> None then
               Inr (BADARG options, None, s1\<lparr>optopt := val_or_zero o'\<rparr>)
             else
               andThen
                 (if opt_has_arg o' = no_argument then Inr s1
                  else if has_equal \<noteq> None then Inr (s1\<lparr>optarg := has_equal\<rparr>)
                  else if opt_has_arg o' = required_argument then
                    andThen (arg_at s1 (optind s1)) (\<lambda>a. Inr (s1\<lparr>optarg := a, optind := optind s1 + 1\<rparr>))
                  else Inr s1)
                 (\<lambda>s2.
                   if opt_has_arg o' = required_argument \<and> optarg s2 = None then
                     Inr (BADARG options, None, s2\<lparr>optopt := val_or_zero o', optind := optind s2 - 1\<rparr>)
                   else
                     (case opt_flag o' of
                        Some a \<Rightarrow> Inr (0, Some m, s2\<lparr>stores := stores s2 @ [(a, opt_val o')]\<rparr>)
                      | None \<Rightarrow> Inr (opt_val o', Some m, s2))))"

subsection \<open>\<open>getopt_internal\<close>\<close>

text \<open>The scan for the next option, from the label \<open>start\<close>: return from the call, or go on with it.\<close>

datatype scan_result = Done int getopt_state | Proceed getopt_state

definition permute_nonopts :: "getopt_state \<Rightarrow> nat \<Rightarrow> nat \<Rightarrow> getopt_state eff" where
  "permute_nonopts s st en =
     andThen (permute_args st en (optind s) (nargv s)) (\<lambda>a. Inr (s\<lparr>nargv := a\<rparr>))"

text \<open>At the end of the vector, or at \<open>--\<close>: permute if options followed non-options.\<close>

definition finish_scan :: "bool \<Rightarrow> getopt_state \<Rightarrow> getopt_state eff" where
  "finish_scan at_end s =
     andThen
       (case nonopt_end s of
          Some en \<Rightarrow>
            (case nonopt_start s of
               Some st \<Rightarrow> andThen (permute_nonopts s st en) (\<lambda>s1. Inr (s1\<lparr>optind := optind s1 - (en - st)\<rparr>))
             | None \<Rightarrow> Inl OutOfBounds)
        | None \<Rightarrow>
            (case nonopt_start s of
               Some st \<Rightarrow> Inr (if at_end then s\<lparr>optind := st\<rparr> else s)
             | None \<Rightarrow> Inr s))
       (\<lambda>s1. Inr (s1\<lparr>nonopt_start := None, nonopt_end := None\<rparr>))"

definition skip_nonoption :: "getopt_state \<Rightarrow> getopt_state eff" where
  "skip_nonoption s =
     andThen
       (case nonopt_start s of
          None \<Rightarrow> Inr (s\<lparr>nonopt_start := Some (optind s)\<rparr>)
        | Some st \<Rightarrow>
            (case nonopt_end s of
               Some en \<Rightarrow>
                 andThen (permute_nonopts s st en) (\<lambda>s1.
                   Inr (s1\<lparr>nonopt_start := Some (optind s1 - (en - st)), nonopt_end := None\<rparr>))
             | None \<Rightarrow> Inr s))
       (\<lambda>s1. Inr (s1\<lparr>optind := optind s1 + 1\<rparr>))"

lemma skip_nonoption_optind: "skip_nonoption s = Inr s' \<Longrightarrow> optind s' = optind s + 1"
  by (auto simp: skip_nonoption_def permute_nonopts_def andThen_eq_Inr split: option.splits)

function scan_args :: "nat \<Rightarrow> string \<Rightarrow> bool \<Rightarrow> bool \<Rightarrow> getopt_state \<Rightarrow> scan_result eff" where
  "scan_args nargc options permute allargs s =
     (if optreset s \<or> place s = [] then
        let s0 = s\<lparr>optreset := False\<rparr> in
        if nargc \<le> optind s0 then
          andThen (finish_scan True (s0\<lparr>place := [], place_is_arg := False\<rparr>)) (\<lambda>s1. Inr (Done (- 1) s1))
        else
          andThen (arg_at s0 (optind s0)) (\<lambda>a.
            case a of
              None \<Rightarrow> Inl NullDeref
            | Some p \<Rightarrow>
                if at_char p \<noteq> CHR ''-'' \<or> (tl p = [] \<and> CHR ''-'' \<notin> set options) then
                  let s1 = s0\<lparr>place := [], place_is_arg := False\<rparr> in
                  if allargs then Inr (Done INORDER (s1\<lparr>optarg := Some p, optind := optind s1 + 1\<rparr>))
                  else if \<not> permute then Inr (Done (- 1) s1)
                  else andThen (skip_nonoption s1) (scan_args nargc options permute allargs)
                else
                  let s1 = s0\<lparr>place := p, place_is_arg := True,
                        nonopt_end := (if nonopt_start s0 \<noteq> None \<and> nonopt_end s0 = None then Some (optind s0) else nonopt_end s0)\<rparr>
                  in if tl p \<noteq> [] then
                       let s2 = s1\<lparr>place := tl p, place_is_arg := False\<rparr> in
                       if tl p = ''-'' then
                         andThen (finish_scan False (s2\<lparr>optind := optind s2 + 1, place := []\<rparr>)) (\<lambda>s3. Inr (Done (- 1) s3))
                       else Inr (Proceed s2)
                     else Inr (Proceed s1))
      else Inr (Proceed s))"
  by pat_completeness auto
termination
  by (relation "measure (\<lambda>(nargc, options, permute, allargs, s). nargc - optind s)") (auto dest!: skip_nonoption_optind)

declare scan_args.simps [simp del]

text \<open>The part of the function that handles a short option letter.\<close>

definition short_option ::
    "nat \<Rightarrow> string \<Rightarrow> option_entry list option \<Rightarrow> getopt_state \<Rightarrow> (int \<times> nat option \<times> getopt_state) eff" where
  "short_option nargc options long_options s =
     (case place s of
        [] \<Rightarrow> Inl OutOfBounds
      | c # rest \<Rightarrow>
          let s1 = s\<lparr>place := rest, place_is_arg := False\<rparr> in
          if c = CHR '':'' \<or> (c = CHR ''-'' \<and> rest \<noteq> []) \<or> \<not> has_letter options c then
            if c = CHR ''-'' \<and> rest = [] then Inr (- 1, None, s1)
            else Inr (BADCH, None, s1\<lparr>optind := (if rest = [] then optind s1 + 1 else optind s1), optopt := schar c\<rparr>)
          else
            let oli = dropWhile (\<lambda>x. x \<noteq> c) options in
            if long_options \<noteq> None \<and> c = CHR ''W'' \<and> at_char (tl oli) = CHR '';'' then
              if rest = [] \<and> nargc \<le> optind s1 + 1 then
                Inr (BADARG options, None, s1\<lparr>optind := optind s1 + 1, place := [], optopt := schar c\<rparr>)
              else
                andThen
                  (if rest \<noteq> [] then Inr s1
                   else andThen (arg_at s1 (optind s1 + 1)) (\<lambda>a.
                     case a of None \<Rightarrow> Inl NullDeref
                     | Some p \<Rightarrow> Inr (s1\<lparr>optind := optind s1 + 1, place := p, place_is_arg := True\<rparr>)))
                  (\<lambda>s2. andThen (parse_long_options options (the long_options) False s2) (\<lambda>(v, idx, s3).
                     Inr (v, idx, s3\<lparr>place := [], place_is_arg := False\<rparr>)))
            else if at_char (tl oli) \<noteq> CHR '':'' then
              Inr (schar c, None, s1\<lparr>optind := (if rest = [] then optind s1 + 1 else optind s1)\<rparr>)
            else if rest \<noteq> [] then
              Inr (schar c, None, s1\<lparr>optarg := Some rest, place := [], optind := optind s1 + 1\<rparr>)
            else if at_char (tl (tl oli)) \<noteq> CHR '':'' then
              if nargc \<le> optind s1 + 1 then
                Inr (BADARG options, None, s1\<lparr>optarg := None, optind := optind s1 + 1, place := [], optopt := schar c\<rparr>)
              else
                andThen (arg_at s1 (optind s1 + 1)) (\<lambda>a.
                  Inr (schar c, None, s1\<lparr>optarg := a, place := [], optind := optind s1 + 2\<rparr>))
            else Inr (schar c, None, s1\<lparr>optarg := None, place := [], optind := optind s1 + 1\<rparr>))"

text \<open>
  The function. \<open>posixly_correct\<close> is whether the environment has \<open>POSIXLY_CORRECT\<close>, which the
  source asks once; the flags are arguments of their own.
\<close>

definition getopt_internal ::
    "bool \<Rightarrow> nat \<Rightarrow> string option \<Rightarrow> option_entry list option \<Rightarrow> bool \<Rightarrow> bool \<Rightarrow> getopt_state \<Rightarrow>
     (int \<times> nat option \<times> getopt_state) eff" where
  "getopt_internal posixly_correct nargc options long_options flag_permute flag_longonly s =
     (case options of
        None \<Rightarrow> Inr (- 1, None, s)
      | Some opts0 \<Rightarrow>
          let s0 = (if optind s = 0 then s\<lparr>optind := 1, optreset := True\<rparr> else s);
              allargs = (at_char opts0 = CHR ''-'');
              permute = (if allargs then flag_permute
                         else if posixly_correct \<or> at_char opts0 = CHR ''+'' then False else flag_permute);
              opts = (if at_char opts0 = CHR ''+'' \<or> at_char opts0 = CHR ''-'' then tl opts0 else opts0);
              s1 = s0\<lparr>optarg := None\<rparr>;
              s2 = (if optreset s1 then s1\<lparr>nonopt_start := None, nonopt_end := None\<rparr> else s1)
          in andThen (scan_args nargc opts permute allargs s2) (\<lambda>r.
               case r of
                 Done v s3 \<Rightarrow> Inr (v, None, s3)
               | Proceed s3 \<Rightarrow>
                   if long_options \<noteq> None \<and> \<not> place_is_arg s3 \<and> (at_char (place s3) = CHR ''-'' \<or> flag_longonly) then
                     let short_too = (at_char (place s3) \<noteq> CHR ''-'' \<and> at_char (place s3) \<noteq> CHR '':'' \<and>
                            has_letter opts (at_char (place s3)));
                         s4 = (if at_char (place s3) = CHR ''-'' then s3\<lparr>place := tl (place s3)\<rparr> else s3)
                     in andThen (parse_long_options opts (the long_options) short_too s4) (\<lambda>(v, idx, s5).
                          if v \<noteq> - 1 then Inr (v, idx, s5\<lparr>place := []\<rparr>)
                          else short_option nargc opts long_options s5)
                   else short_option nargc opts long_options s3))"

definition getopt :: "bool \<Rightarrow> nat \<Rightarrow> string option \<Rightarrow> getopt_state \<Rightarrow> (int \<times> nat option \<times> getopt_state) eff" where
  "getopt posixly nargc options = getopt_internal posixly nargc options None False False"

definition getopt_long ::
    "bool \<Rightarrow> nat \<Rightarrow> string option \<Rightarrow> option_entry list option \<Rightarrow> getopt_state \<Rightarrow> (int \<times> nat option \<times> getopt_state) eff" where
  "getopt_long posixly nargc options long_options = getopt_internal posixly nargc options long_options True False"

definition getopt_long_only ::
    "bool \<Rightarrow> nat \<Rightarrow> string option \<Rightarrow> option_entry list option \<Rightarrow> getopt_state \<Rightarrow> (int \<times> nat option \<times> getopt_state) eff" where
  "getopt_long_only posixly nargc options long_options = getopt_internal posixly nargc options long_options True True"

subsection \<open>\<open>SavedArgv\<close>\<close>

text \<open>The copies of \<open>argc\<close> arguments; the vector has no null pointer at its end.\<close>

definition SavedArgv :: "nat \<Rightarrow> string list \<Rightarrow> string option list" where
  "SavedArgv argc argv = map Some (take argc argv)"

definition initial_state :: "string option list \<Rightarrow> getopt_state" where
  "initial_state argv = \<lparr>nargv = argv, optind = 1, optopt = uchar (CHR ''?''), optreset = False, optarg = None, place = [],
     place_is_arg = False, nonopt_start = None, nonopt_end = None, stores = []\<rparr>"

subsection \<open>Which long option a name selects\<close>

definition abbreviates :: "string \<Rightarrow> option_entry \<Rightarrow> bool" where
  "abbreviates current o' \<longleftrightarrow> take (length current) (opt_name o') = current"

definition candidates :: "string \<Rightarrow> option_entry list \<Rightarrow> nat list" where
  "candidates current os = filter (\<lambda>i. abbreviates current (os ! i)) [0..<length os]"

text \<open>The candidates of a table as the loop meets them, from the index \<open>i\<close> on.\<close>

fun candidates_from :: "string \<Rightarrow> option_entry list \<Rightarrow> nat \<Rightarrow> nat list" where
  "candidates_from current [] i = []"
| "candidates_from current (o' # os) i =
     (if abbreviates current o' then i # candidates_from current os (i + 1) else candidates_from current os (i + 1))"

lemma candidates_from_filter:
  "candidates_from current os i = map ((+) i) (filter (\<lambda>j. abbreviates current (os ! j)) [0..<length os])"
proof (induction os arbitrary: i)
  case (Cons o' os)
  have "[0..<length (o' # os)] = 0 # map Suc [0..<length os]" by (simp add: upt_conv_Cons map_Suc_upt del: upt_Suc)
  then show ?case
    using Cons.IH [of "Suc i"] by (auto simp: filter_map comp_def simp del: upt_Suc)
qed simp

lemma match_loop_candidates:
  assumes "\<forall>o' \<in> set os. opt_name o' \<noteq> current"
  shows "match_loop current False os i m =
    (case (m, candidates_from current os i) of
       (m, []) \<Rightarrow> Some m
     | (None, [j]) \<Rightarrow> Some (Some j)
     | _ \<Rightarrow> None)"
  using assms
proof (induction os arbitrary: i m)
  case (Cons o' os)
  have "length (opt_name o') \<noteq> length current" if "abbreviates current o'"
    using that Cons.prems by (auto simp: abbreviates_def)
  then show ?case
    using Cons by (cases m) (auto simp: abbreviates_def split: list.splits)
qed (simp split: option.splits)

lemma match_loop_exact:
  assumes "opt_name (os ! j) = current" "j < length os" "\<forall>o' \<in> set (take j os). \<not> abbreviates current o'"
  shows "match_loop current short_too os i m = Some (Some (i + j))"
  using assms
proof (induction os arbitrary: i j)
  case (Cons o' os)
  then show ?case by (cases j) (auto simp: abbreviates_def)
qed simp

text \<open>
  C38: The long option a name that is no option's full name selects: none when no option begins with
  it, the one that does when there is one, and the call is refused as ambiguous when there
  are more.
\<close>

theorem abbreviation_selects:
  assumes "\<forall>o' \<in> set os. opt_name o' \<noteq> current"
  shows "match_loop current False os 0 None =
    (case candidates current os of [] \<Rightarrow> Some None | [i] \<Rightarrow> Some (Some i) | _ \<Rightarrow> None)"
  using match_loop_candidates [OF assms, of 0 None] candidates_from_filter [of current os 0]
  by (simp add: candidates_def split: list.splits)

text \<open>Three options of the server's kind, for the examples.\<close>

definition example_options :: "option_entry list" where
  "example_options =
     [\<lparr>opt_name = ''daemon'', opt_has_arg = no_argument, opt_flag = None, opt_val = 68\<rparr>,
      \<lparr>opt_name = ''config'', opt_has_arg = required_argument, opt_flag = None, opt_val = 99\<rparr>,
      \<lparr>opt_name = ''debug'', opt_has_arg = no_argument, opt_flag = None, opt_val = 100\<rparr>]"

theorem abbreviation_selects_witness:
  "match_loop ''d'' False example_options 0 None = None \<and>
   match_loop ''da'' False example_options 0 None = Some (Some 0) \<and>
   match_loop ''x'' False example_options 0 None = Some None"
  using abbreviation_selects [of example_options "''d''"] abbreviation_selects [of example_options "''da''"]
    abbreviation_selects [of example_options "''x''"]
  by (simp add: example_options_def candidates_def abbreviates_def upt_rec)

subsection \<open>An option without its argument\<close>

lemma scan_long:
  assumes "place s = []" "optind s < nargc" "optind s < length (nargv s)" "nargv s ! optind s = Some (''--'' @ c # name)"
  shows "\<exists>t. scan_args nargc options permute allargs s = Inr (Proceed t) \<and> place t = CHR ''-'' # c # name \<and>
    \<not> place_is_arg t \<and> optind t = optind s \<and> nargv t = nargv s"
  using assms by (subst scan_args.simps) (simp add: arg_at_def Let_def)

lemma parse_long_missing:
  assumes "match_loop (place s) False longopts 0 None = Some (Some m)"
    and "opt_has_arg (longopts ! m) = required_argument" "CHR ''='' \<notin> set (place s)" "optind s + 1 = length (nargv s)"
  shows "parse_long_options options longopts False s = Inl OutOfBounds"
proof -
  have tw: "takeWhile (\<lambda>x. x \<noteq> CHR ''='') (place s) = place s"
    using assms(3) by (intro takeWhile_all) auto
  show ?thesis
    using assms by (simp add: tw parse_long_options_def Let_def arg_at_def)
qed

lemma getopt_long_missing:
  assumes "place s = []" "0 < optind s" "optind s + 1 = length (nargv s)" "\<not> optreset s"
    and "nargv s ! optind s = Some (''--'' @ c # name)" "nargc = length (nargv s)"
    and "match_loop (c # name) False longopts 0 None = Some (Some m)"
    and "opt_has_arg (longopts ! m) = required_argument" and "CHR ''='' \<notin> set (c # name)"
    and "at_char options \<noteq> CHR ''-''" and "at_char options \<noteq> CHR ''+''"
  shows "getopt_long posixly nargc (Some options) (Some longopts) s = Inl OutOfBounds"
proof -
  let ?s = "s\<lparr>optarg := None\<rparr>"
  obtain t where t: "scan_args nargc options (\<not> posixly) False ?s = Inr (Proceed t)" "place t = CHR ''-'' # c # name"
    "\<not> place_is_arg t" "optind t = optind s" "nargv t = nargv s"
    using scan_long [of ?s nargc c name options "\<not> posixly" False] assms(1,3,5,6) by auto
  have "parse_long_options options longopts False (t\<lparr>place := c # name\<rparr>) = Inl OutOfBounds"
    using assms(3,7-9) t(4,5) by (intro parse_long_missing) simp_all
  then show ?thesis
    using assms(2,4,10,11) t
    by (cases posixly) (simp_all add: getopt_long_def getopt_internal_def Let_def)
qed

text \<open>
  C39: In the builds that compile \<open>argv_getopt.inl\<close> (under \<open>_MSC_VER\<close>): a long option that needs an argument and comes last on the command line: \<open>parse_long_options\<close>
  reads \<open>nargv[optind++]\<close> and expects the null pointer that ends an argument vector, but the
  vector \<open>SavedArgv\<close> makes has none, so it reads past the end of it.
\<close>

theorem missing_argument_out_of_bounds:
  assumes "match_loop (c # name) False longopts 0 None = Some (Some m)"
    and "opt_has_arg (longopts ! m) = required_argument" and "CHR ''='' \<notin> set (c # name)"
    and "0 < length args" and "options \<noteq> []" and "at_char options \<noteq> CHR ''-''" and "at_char options \<noteq> CHR ''+''"
  shows "getopt_long posixly (length args + 1) (Some options) (Some longopts)
      ((initial_state (SavedArgv (length args + 1) (args @ [''--'' @ c # name])))\<lparr>optind := length args\<rparr>) = Inl OutOfBounds"
  using assms
  by (intro getopt_long_missing [of _ c name]) (simp_all add: initial_state_def SavedArgv_def nth_append)

theorem missing_argument_out_of_bounds_witness:
  "getopt_long False 3 (Some ''Dc:d'') (Some example_options)
     ((initial_state (SavedArgv 3 [''svnsrv'', ''-D'', ''--config'']))\<lparr>optind := 2\<rparr>) = Inl OutOfBounds"
proof -
  have m: "match_loop (CHR ''c'' # ''onfig'') False example_options 0 None = Some (Some 1)"
    by (simp add: example_options_def)
  have "getopt_long False (length [''svnsrv'', ''-D''] + 1) (Some ''Dc:d'') (Some example_options)
      ((initial_state (SavedArgv (length [''svnsrv'', ''-D''] + 1) ([''svnsrv'', ''-D''] @ [''--'' @ CHR ''c'' # ''onfig''])))
        \<lparr>optind := length [''svnsrv'', ''-D'']\<rparr>) = Inl OutOfBounds"
    by (rule missing_argument_out_of_bounds [OF m]) (simp_all add: example_options_def)
  then show ?thesis by (simp add: numeral_3_eq_3 numeral_2_eq_2)
qed

subsection \<open>The state between calls\<close>

text \<open>
  What holds before and after every call: the indices are ordered and inside the vector, and an
  option is being read only inside it. \<open>unread\<close> measures what is left to read.
\<close>

definition opts_inv :: "nat \<Rightarrow> getopt_state \<Rightarrow> bool" where
  "opts_inv nargc s \<longleftrightarrow>
     length (nargv s) = nargc \<and> \<not> optreset s \<and> 0 < optind s \<and> optind s \<le> nargc \<and> (place s \<noteq> [] \<longrightarrow> optind s < nargc) \<and>
     (nonopt_start s = None \<longrightarrow> nonopt_end s = None) \<and>
     (\<forall>st. nonopt_start s = Some st \<longrightarrow> st < optind s) \<and>
     (\<forall>st en. nonopt_start s = Some st \<longrightarrow> nonopt_end s = Some en \<longrightarrow>
        st < en \<and> en \<le> optind s \<and> (place s = [] \<longrightarrow> en < optind s))"

definition args_size :: "string option list \<Rightarrow> nat" where
  "args_size xs = sum_list (map (\<lambda>a. case a of None \<Rightarrow> 1 | Some p \<Rightarrow> Suc (length p)) xs)"

definition unread :: "getopt_state \<Rightarrow> nat" where
  "unread s = (if place s = [] then args_size (drop (optind s) (nargv s))
               else length (place s) + args_size (drop (Suc (optind s)) (nargv s)))"

lemma args_size_drop: "i < length xs \<Longrightarrow> xs ! i = Some p \<Longrightarrow> args_size (drop i xs) = Suc (length p) + args_size (drop (Suc i) xs)"
  by (simp add: args_size_def Cons_nth_drop_Suc [symmetric])

lemma args_size_mono: "i \<le> j \<Longrightarrow> args_size (drop j xs) \<le> args_size (drop i xs)"
proof -
  assume "i \<le> j"
  then have "drop i xs = take (j - i) (drop i xs) @ drop j xs"
    by (metis append_take_drop_id drop_drop le_add_diff_inverse2)
  then have "args_size (drop i xs) = args_size (take (j - i) (drop i xs)) + args_size (drop j xs)"
    by (metis args_size_def map_append sum_list_append)
  then show ?thesis by simp
qed

lemma skip_nonoption_inv:
  assumes "opts_inv nargc s" "place s = []" "optind s < nargc"
  obtains s' where "skip_nonoption s = Inr s'" "opts_inv nargc s'" "place s' = []" "optind s' = Suc (optind s)"
    "drop (optind s) (nargv s') = drop (optind s) (nargv s)" "set (nargv s') \<subseteq> set (nargv s)"
proof (cases "nonopt_start s")
  case None
  then show ?thesis using assms that by (simp add: skip_nonoption_def opts_inv_def)
next
  case (Some st)
  show ?thesis
  proof (cases "nonopt_end s")
    case None
    then show ?thesis using assms that Some by (simp add: skip_nonoption_def opts_inv_def)
  next
    case en: (Some en)
    let ?xs = "nargv s" and ?f = "optind s"
    let ?a = "take st ?xs @ drop en (take ?f ?xs) @ drop st (take en ?xs) @ drop ?f ?xs"
    have o: "st < en" "en < ?f" "?f \<le> length ?xs" "length ?xs = nargc"
      using assms Some en by (auto simp: opts_inv_def)
    have "permute_args st en ?f ?xs = Inr ?a" by (rule permute_args_eq [OF o(1-3)])
    moreover have "length ?a = nargc" "drop ?f ?a = drop ?f ?xs" using o by simp_all
    moreover have "set ?a \<subseteq> set ?xs" by (auto dest: in_set_takeD in_set_dropD)
    ultimately show ?thesis
      using assms that Some en o(1,2) by (simp add: skip_nonoption_def permute_nonopts_def opts_inv_def)
  qed
qed

lemma finish_scan_total:
  assumes "opts_inv nargc s" "place s = []"
  shows "\<exists>t. finish_scan b s = Inr t"
proof -
  consider "nonopt_end s = None" | st en where "nonopt_start s = Some st" "nonopt_end s = Some en"
    using assms(1) by (cases "nonopt_start s"; cases "nonopt_end s") (auto simp: opts_inv_def)
  then show ?thesis
  proof cases
    case 1
    then show ?thesis by (auto simp: finish_scan_def split: option.splits)
  next
    case 2
    then have "\<exists>a. permute_args st en (optind s) (nargv s) = Inr a"
      using permute_args_eq [of st en "optind s" "nargv s"] assms by (auto simp: opts_inv_def)
    then obtain a where "permute_args st en (optind s) (nargv s) = Inr a" ..
    then show ?thesis using 2 by (simp add: finish_scan_def permute_nonopts_def)
  qed
qed

text \<open>A scan returns -1, or finds an option with no more left to read than before.\<close>

lemma scan_args_inv:
  assumes "opts_inv nargc s" "\<forall>a \<in> set (nargv s). a \<noteq> None"
  shows "(\<exists>t. scan_args nargc options permute False s = Inr (Done (- 1) t)) \<or>
    (\<exists>t. scan_args nargc options permute False s = Inr (Proceed t) \<and> opts_inv nargc t \<and> place t \<noteq> [] \<and>
       unread t \<le> unread s \<and> (\<forall>a \<in> set (nargv t). a \<noteq> None))"
  using assms
proof (induction "nargc - optind s" arbitrary: s rule: less_induct)
  case less
  have len: "length (nargv s) = nargc" and reset: "\<not> optreset s" using less.prems(1) by (simp_all add: opts_inv_def)
  show ?case
  proof (cases "place s = [] \<and> optind s < nargc")
    case False
    show ?thesis
    proof (cases "place s = []")
      case True
      with False have "\<not> optind s < nargc" by simp
      moreover obtain t where "finish_scan True (s\<lparr>optreset := False, place := [], place_is_arg := False\<rparr>) = Inr t"
        using finish_scan_total [of nargc "s\<lparr>optreset := False, place := [], place_is_arg := False\<rparr>" True] less.prems(1) True
        by (auto simp: opts_inv_def)
      ultimately show ?thesis using True by (subst scan_args.simps) simp
    next
      case place: False
      then show ?thesis using less.prems reset by (subst scan_args.simps, subst scan_args.simps) simp
    qed
  next
    case True
    then obtain p where p: "nargv s ! optind s = Some p" using less.prems(2) len by (metis not_None_eq nth_mem)
    let ?s0 = "s\<lparr>optreset := False\<rparr>"
    have arg: "arg_at ?s0 (optind ?s0) = Inr (Some p)" using True len p by (simp add: arg_at_def)
    show ?thesis
    proof (cases "at_char p \<noteq> CHR ''-'' \<or> (tl p = [] \<and> CHR ''-'' \<notin> set options)")
      case skip: True
      let ?s1 = "?s0\<lparr>place := [], place_is_arg := False\<rparr>"
      have inv1: "opts_inv nargc ?s1" using less.prems(1) True by (simp add: opts_inv_def)
      obtain s' where s': "skip_nonoption ?s1 = Inr s'" "opts_inv nargc s'" "place s' = []" "optind s' = Suc (optind s)"
        "drop (optind s) (nargv s') = drop (optind s) (nargv s)" "set (nargv s') \<subseteq> set (nargv s)"
        using skip_nonoption_inv [OF inv1] True by auto
      have "drop (Suc (optind s)) (nargv s') = drop (Suc (optind s)) (nargv s)"
        using s'(5) by (metis drop_Suc tl_drop)
      then have le: "unread s' \<le> unread s"
        using s'(3,4) True args_size_mono [of "optind s" "Suc (optind s)" "nargv s"] by (simp add: unread_def)
      show ?thesis
      proof (cases permute)
        case False
        then show ?thesis using True skip arg by (subst scan_args.simps, subst scan_args.simps) (simp add: Let_def)
      next
        case perm: True
        have scan: "scan_args nargc options permute False s = scan_args nargc options permute False s'"
          using True skip arg perm s'(1) by (subst scan_args.simps) (simp add: Let_def)
        have dec: "nargc - optind s' < nargc - optind s" using s'(4) conjunct2 [OF True] by linarith
        have "\<forall>a \<in> set (nargv s'). a \<noteq> None" using less.prems(2) s'(6) by blast
        from less.hyps [OF dec s'(2) this] show ?thesis unfolding scan using le by (meson order_trans)
      qed
    next
      case opt: False
      obtain q where q: "p = CHR ''-'' # q" using opt by (cases p) auto
      let ?s1 = "?s0\<lparr>place := p, place_is_arg := True,
        nonopt_end := (if nonopt_start s \<noteq> None \<and> nonopt_end s = None then Some (optind s) else nonopt_end s)\<rparr>"
      have size: "args_size (drop (optind s) (nargv s)) = Suc (Suc (length q)) + args_size (drop (Suc (optind s)) (nargv s))"
        using args_size_drop [of "optind s" "nargv s" p] True len p q by simp
      have inv1: "opts_inv nargc ?s1" using less.prems(1) True by (auto simp: opts_inv_def q)
      show ?thesis
      proof (cases "q = []")
        case dash: True
        have "scan_args nargc options permute False s = Inr (Proceed ?s1)"
          using True opt arg q dash by (subst scan_args.simps) (simp add: Let_def)
        moreover have "unread ?s1 \<le> unread s" using True size q by (simp add: unread_def)
        ultimately show ?thesis using inv1 q less.prems(2) by auto
      next
        case word: False
        let ?s2 = "?s1\<lparr>place := q, place_is_arg := False\<rparr>"
        show ?thesis
        proof (cases "q = ''-''")
          case False
          have "scan_args nargc options permute False s = Inr (Proceed ?s2)"
            using True opt arg q word False by (subst scan_args.simps) (simp add: Let_def)
          moreover have "unread ?s2 \<le> unread s" using True size word by (simp add: unread_def)
          moreover have "opts_inv nargc ?s2" using less.prems(1) True by (auto simp: opts_inv_def word)
          ultimately show ?thesis using word less.prems(2) by auto
        next
          case last: True
          let ?s3 = "?s2\<lparr>optind := optind s + 1, place := []\<rparr>"
          have "opts_inv nargc ?s3" using less.prems(1) True by (auto simp: opts_inv_def)
          then obtain t where "finish_scan False ?s3 = Inr t" using finish_scan_total [of nargc ?s3] by auto
          then show ?thesis
            using True opt arg q last
            by (subst scan_args.simps, subst scan_args.simps)
              (cases "nonopt_start s"; cases "nonopt_end s"; simp add: Let_def)
        qed
      qed
    qed
  qed
qed

text \<open>A call goes on inside an argument, or to a later one.\<close>

definition advances :: "nat \<Rightarrow> getopt_state \<Rightarrow> getopt_state \<Rightarrow> bool" where
  "advances nargc s t \<longleftrightarrow>
     nargv t = nargv s \<and> optreset t = optreset s \<and> nonopt_start t = nonopt_start s \<and> nonopt_end t = nonopt_end s \<and>
     ((place t = [] \<and> optind s < optind t \<and> optind t \<le> nargc) \<or>
      (place t = tl (place s) \<and> tl (place s) \<noteq> [] \<and> optind t = optind s))"

lemma advances_inv:
  assumes "opts_inv nargc s" "place s \<noteq> []" "advances nargc s t"
  shows "opts_inv nargc t \<and> unread t < unread s"
proof (cases "place t = []")
  case True
  then have t: "optind s < optind t" "optind t \<le> nargc" using assms(3) by (auto simp: advances_def)
  have "unread t \<le> args_size (drop (Suc (optind s)) (nargv s))"
    using True t assms(3) args_size_mono [of "Suc (optind s)" "optind t" "nargv s"] by (simp add: unread_def advances_def)
  moreover have "args_size (drop (Suc (optind s)) (nargv s)) < unread s" using assms(2) by (simp add: unread_def)
  ultimately have "unread t < unread s" by (rule le_less_trans)
  then show ?thesis using True t assms by (auto simp: opts_inv_def advances_def dest: le_less_trans)
next
  case False
  then have t: "place t = tl (place s)" "optind t = optind s" using assms(3) by (auto simp: advances_def)
  then have "unread t < unread s" using False assms(2,3) by (cases "place s") (auto simp: unread_def advances_def)
  then show ?thesis using False t assms by (simp add: opts_inv_def advances_def)
qed

lemma short_option_advances:
  assumes "place s = c # rest" "optind s < nargc" "length (nargv s) = nargc" "CHR ''W'' \<notin> set options"
  shows "\<exists>v idx t. short_option nargc options lo s = Inr (v, idx, t) \<and> (v = - 1 \<or> advances nargc s t)"
proof -
  have w: "\<not> (has_letter options c \<and> c = CHR ''W'')" using assms(4) by (auto simp: has_letter_def)
  have arg: "arg_at t (Suc (optind s)) = Inr (nargv s ! Suc (optind s))" if "Suc (optind s) < nargc" "nargv t = nargv s" for t
    using that assms(3) by (simp add: arg_at_def)
  show ?thesis
  proof (cases "c = CHR '':'' \<or> (c = CHR ''-'' \<and> rest \<noteq> []) \<or> \<not> has_letter options c")
    case True
    then show ?thesis using assms(1,2) by (simp add: short_option_def Let_def advances_def)
  next
    case False
    then have "\<not> c = CHR ''W''" using w by auto
    with False show ?thesis
      using assms(1,2) arg by (cases rest) (simp_all add: short_option_def Let_def advances_def not_le)
  qed
qed

lemma match_loop_index:
  "match_loop current short_too os i m = Some (Some j) \<Longrightarrow> m = Some j \<or> (i \<le> j \<and> j < i + length os)"
proof (induction os arbitrary: i m)
  case (Cons o' os)
  from Cons.prems show ?case
    using Cons.IH [of "i + 1" m] Cons.IH [of "i + 1" "Some i"] by (auto split: if_splits)
qed simp

lemma parse_long_advances:
  assumes "optind s < nargc" "length (nargv s) = nargc" "\<forall>o' \<in> set lo. opt_val o' \<noteq> - 1"
  shows "parse_long_options options lo False s = Inl OutOfBounds \<or>
    (\<exists>v idx t. parse_long_options options lo False s = Inr (v, idx, t) \<and> v \<noteq> - 1 \<and> advances nargc s (t\<lparr>place := []\<rparr>))"
proof -
  let ?current = "takeWhile (\<lambda>c. c \<noteq> CHR ''='') (place s)"
  have codes: "BADCH \<noteq> - 1" "BADARG options \<noteq> - 1"
    by (auto simp: BADCH_def BADARG_def uchar_def)
  consider "match_loop ?current False lo 0 None = None" | "match_loop ?current False lo 0 None = Some None"
    | m where "match_loop ?current False lo 0 None = Some (Some m)"
    by (cases "match_loop ?current False lo 0 None") auto
  then show ?thesis
  proof cases
    case 1
    then show ?thesis using assms(1) codes by (simp add: parse_long_options_def Let_def advances_def)
  next
    case 2
    then show ?thesis using assms(1) codes by (simp add: parse_long_options_def Let_def advances_def)
  next
    case 3
    then have "m < length lo" using match_loop_index [OF 3] by simp
    then have v: "opt_val (lo ! m) \<noteq> - 1" using assms(3) by simp
    show ?thesis
    proof (cases "opt_has_arg (lo ! m)")
      case no_argument
      then show ?thesis
        using 3 assms(1) codes v by (simp add: parse_long_options_def Let_def advances_def split: option.splits)
    next
      case required_argument
      show ?thesis
      proof (cases "CHR ''='' \<in> set (place s)")
        case True
        then show ?thesis
          using 3 assms(1) codes v required_argument
          by (simp add: parse_long_options_def Let_def advances_def split: option.splits)
      next
        case False
        then show ?thesis
          using 3 assms(1,2) codes v required_argument
          by (auto simp: parse_long_options_def Let_def advances_def arg_at_def split: option.splits)
      qed
    next
      case optional_argument
      then show ?thesis
        using 3 assms(1) codes v by (simp add: parse_long_options_def Let_def advances_def split: option.splits)
    qed
  qed
qed

text \<open>One call: it reads past the vector for a missing argument, returns -1, or has less left to read.\<close>

lemma getopt_long_progress:
  assumes inv: "opts_inv nargc s" and some: "\<forall>a \<in> set (nargv s). a \<noteq> None"
    and opts: "CHR ''W'' \<notin> set options" "at_char options \<noteq> CHR ''-''" "at_char options \<noteq> CHR ''+''"
    and lo: "\<forall>o' \<in> set lo. opt_val o' \<noteq> - 1"
  shows "getopt_long posixly nargc (Some options) (Some lo) s = Inl OutOfBounds \<or>
    (\<exists>v idx t. getopt_long posixly nargc (Some options) (Some lo) s = Inr (v, idx, t) \<and>
       (v = - 1 \<or> opts_inv nargc t \<and> unread t < unread s \<and> (\<forall>a \<in> set (nargv t). a \<noteq> None)))"
proof -
  let ?s = "s\<lparr>optarg := None\<rparr>" and ?g = "getopt_long posixly nargc (Some options) (Some lo) s"
  have inv': "opts_inv nargc ?s" and size: "unread ?s = unread s" using inv by (simp_all add: opts_inv_def unread_def)
  have g: "?g = andThen (scan_args nargc options (\<not> posixly) False ?s) (\<lambda>r.
      case r of Done v t \<Rightarrow> Inr (v, None, t)
      | Proceed t \<Rightarrow>
          if \<not> place_is_arg t \<and> at_char (place t) = CHR ''-'' then
            andThen (parse_long_options options lo False (t\<lparr>place := tl (place t)\<rparr>)) (\<lambda>(v, idx, u).
              if v \<noteq> - 1 then Inr (v, idx, u\<lparr>place := []\<rparr>) else short_option nargc options (Some lo) u)
          else short_option nargc options (Some lo) t)"
    using inv opts(2,3)
    by (cases posixly) (auto simp: getopt_long_def getopt_internal_def opts_inv_def Let_def intro!: arg_cong2 [where f = andThen]
        split: scan_result.splits)
  consider t where "scan_args nargc options (\<not> posixly) False ?s = Inr (Done (- 1) t)"
    | t where "scan_args nargc options (\<not> posixly) False ?s = Inr (Proceed t)" "opts_inv nargc t" "place t \<noteq> []"
      "unread t \<le> unread s" "\<forall>a \<in> set (nargv t). a \<noteq> None"
    using scan_args_inv [OF inv', of options "\<not> posixly"] some size by auto
  then show ?thesis
  proof cases
    case 1
    then show ?thesis by (simp add: g)
  next
    case 2
    have i: "optind t < nargc" "length (nargv t) = nargc" using 2(2,3) by (simp_all add: opts_inv_def)
    have fin: "opts_inv nargc u \<and> unread u < unread s \<and> (\<forall>a \<in> set (nargv u). a \<noteq> None)" if "advances nargc t u" for u
      using advances_inv [OF 2(2,3) that] 2(4,5) that by (auto simp: advances_def)
    show ?thesis
    proof (cases "\<not> place_is_arg t \<and> at_char (place t) = CHR ''-''")
      case True
      let ?t = "t\<lparr>place := tl (place t)\<rparr>"
      consider "parse_long_options options lo False ?t = Inl OutOfBounds"
        | v idx u where "parse_long_options options lo False ?t = Inr (v, idx, u)" "v \<noteq> - 1" "advances nargc ?t (u\<lparr>place := []\<rparr>)"
        using parse_long_advances [of ?t nargc lo options] i lo by auto
      then show ?thesis
      proof cases
        case 1
        then show ?thesis using True by (simp add: g 2(1))
      next
        case (2 v idx u)
        then have "advances nargc t (u\<lparr>place := []\<rparr>)" by (auto simp: advances_def)
        from fin [OF this] show ?thesis using True 2 \<open>scan_args _ _ _ _ _ = _\<close> by (simp add: g)
      qed
    next
      case False
      obtain c rest where "place t = c # rest" using 2(3) by (cases "place t") auto
      from short_option_advances [OF this i opts(1), of "Some lo"] fin show ?thesis
        using False by (auto simp: g 2(1))
    qed
  qed
qed

end
