(* ===== verification/Program.thy ===== *)
theory Program
  imports Getopt Config Router Klog
begin

section \<open>The start of the program (\<open>main.cc\<close>)\<close>

text \<open>
  \<open>main\<close> reads its options with \<open>getopt_long\<close>, loads the configuration and the router table, opens
  the logs, and then sends a signal to a daemon, becomes one, or serves in the foreground.
  Modelled is all of it up to that choice, which is the result \<open>Choice\<close>; what the process
  then does is a constructor of \<open>start_mode\<close>. The option loop gets fuel. Its \<open>getopt_long\<close> is that of \<open>argv_getopt.inl\<close>, which is compiled under
  \<open>_MSC_VER\<close>; elsewhere the C library's is called, whose documented behaviour for these options is the same. \<open>main_start\<close> begins with the flags and depends on neither.

  The properties: the fuel that is enough, so that the loop ends on every command line, and
  what starting comes to.
\<close>

subsection \<open>Options\<close>

definition short_opt :: string where
  "short_opt = ''?Dc:dhvqs:''"

definition longopts :: "option_entry list" where
  "longopts =
     [\<lparr>opt_name = ''daemon'', opt_has_arg = no_argument, opt_flag = None, opt_val = uchar (CHR ''D'')\<rparr>,
      \<lparr>opt_name = ''config'', opt_has_arg = required_argument, opt_flag = None, opt_val = uchar (CHR ''c'')\<rparr>,
      \<lparr>opt_name = ''debug'', opt_has_arg = no_argument, opt_flag = None, opt_val = uchar (CHR ''d'')\<rparr>,
      \<lparr>opt_name = ''help'', opt_has_arg = no_argument, opt_flag = None, opt_val = uchar (CHR ''h'')\<rparr>,
      \<lparr>opt_name = ''version'', opt_has_arg = no_argument, opt_flag = None, opt_val = uchar (CHR ''v'')\<rparr>,
      \<lparr>opt_name = ''quiet'', opt_has_arg = no_argument, opt_flag = None, opt_val = uchar (CHR ''q'')\<rparr>,
      \<lparr>opt_name = ''signal'', opt_has_arg = required_argument, opt_flag = None, opt_val = uchar (CHR ''s'')\<rparr>]"

record main_flags =
  cfile :: "string option"
  signame :: "string option"
  daemon :: bool
  debug :: bool
  version :: bool
  quiet :: bool

definition no_flags :: main_flags where
  "no_flags = \<lparr>cfile = None, signame = None, daemon = False, debug = False, version = False, quiet = False\<rparr>"

text \<open>The \<open>switch\<close>; \<open>None\<close> is \<open>return PrintUsage()\<close>.\<close>

definition take_option :: "int \<Rightarrow> string option \<Rightarrow> main_flags \<Rightarrow> main_flags option" where
  "take_option ch arg m =
     (if ch = uchar (CHR ''?'') \<or> ch = uchar (CHR ''h'') then None
      else if ch = uchar (CHR ''D'') then Some (m\<lparr>daemon := True\<rparr>)
      else if ch = uchar (CHR ''c'') then Some (m\<lparr>cfile := arg\<rparr>)
      else if ch = uchar (CHR ''d'') then Some (m\<lparr>debug := True\<rparr>)
      else if ch = uchar (CHR ''v'') then Some (m\<lparr>version := True\<rparr>)
      else if ch = uchar (CHR ''q'') then Some (m\<lparr>quiet := True\<rparr>)
      else if ch = uchar (CHR ''s'') then Some (m\<lparr>signame := arg\<rparr>)
      else Some m)"

text \<open>The \<open>while\<close> loop; the outer \<open>None\<close> is out of fuel, the inner one the usage return.\<close>

fun option_loop :: "nat \<Rightarrow> bool \<Rightarrow> nat \<Rightarrow> getopt_state \<Rightarrow> main_flags \<Rightarrow> main_flags option eff option" where
  "option_loop 0 posixly argc s m = None"
| "option_loop (Suc fuel) posixly argc s m =
     (case getopt_long posixly argc (Some short_opt) (Some longopts) s of
        Inl e \<Rightarrow> Some (Inl e)
      | Inr (ch, idx, t) \<Rightarrow>
          if ch = - 1 then Some (Inr (Some m))
          else (case take_option ch (optarg t) m of
                  None \<Rightarrow> Some (Inr None)
                | Some m' \<Rightarrow> option_loop fuel posixly argc t m'))"

subsection \<open>\<open>main\<close>\<close>

datatype start_mode =
    SendSignal string LauncherArgs
  | BecomeDaemon LauncherArgs NetworkServerArgs
  | Foreground NetworkServerArgs

datatype main_result = Usage | Version bool | Failed_start int | Choice start_mode RouterSeletor Klogger

definition main_start ::
    "host_system \<Rightarrow> (string \<Rightarrow> bool) \<Rightarrow> (string \<Rightarrow> 'd table eff) \<Rightarrow> NetworkServerArgs \<Rightarrow> LauncherArgs \<Rightarrow> RouterSeletor \<Rightarrow> Klogger \<Rightarrow>
     main_flags option \<Rightarrow> main_result eff" where
  "main_start sys fopen_ok parse_file na0 la0 router0 k0 flags =
     (case flags of
        None \<Rightarrow> Inr Usage
      | Some m \<Rightarrow>
          if version m then Inr (Version (quiet m))
          else
            andThen (ParseServiceProfile sys parse_file (cfile m) na0 la0) (\<lambda>(ok, na, la).
              if \<not> ok then Inr (Failed_start (- 1))
              else
                andThen (InitializeRouterSeletor parse_file (routerFile la) router0) (\<lambda>(ok2, router1).
                  if \<not> ok2 then Inr (Failed_start (- 2))
                  else
                    let k1 = snd (init fopen_ok (Some (c_str (log_access_file la))) (Some (c_str (log_error_file la))) k0)
                    in Inr (Choice
                         (case signame m of
                            Some sig \<Rightarrow> SendSignal sig la
                          | None \<Rightarrow> if daemon m then BecomeDaemon la na else Foreground na) router1 k1))))"

subsection \<open>The option loop ends\<close>

lemma short_opt_facts:
  "CHR ''W'' \<notin> set short_opt" "at_char short_opt \<noteq> CHR ''-''" "at_char short_opt \<noteq> CHR ''+''"
  "\<forall>o' \<in> set longopts. opt_val o' \<noteq> - 1"
  using uchar_bounds by (auto simp: short_opt_def longopts_def) (smt (verit) uchar_bounds(1))+

lemma option_loop_fuel:
  assumes "opts_inv argc s" "\<forall>a \<in> set (nargv s). a \<noteq> None" "unread s < fuel"
  shows "\<exists>r. option_loop fuel posixly argc s m = Some r \<and> (returns r \<or> r = Inl OutOfBounds)"
  using assms
proof (induction fuel arbitrary: s m)
  case (Suc fuel)
  from getopt_long_progress [OF Suc.prems(1,2) short_opt_facts, of posixly]
  consider "getopt_long posixly argc (Some short_opt) (Some longopts) s = Inl OutOfBounds"
    | v idx t where "getopt_long posixly argc (Some short_opt) (Some longopts) s = Inr (v, idx, t)"
        "v = - 1 \<or> opts_inv argc t \<and> unread t < unread s \<and> (\<forall>a \<in> set (nargv t). a \<noteq> None)"
    by blast
  then show ?case
  proof cases
    case 1
    then show ?thesis by simp
  next
    case 2
    have "unread t < fuel" if "unread t < unread s" using that Suc.prems(3) by simp
    then show ?thesis
      using 2 Suc.IH [of t] by (cases "take_option v (optarg t) m") auto
  qed
qed simp

lemma initial_inv: "args \<noteq> [] \<Longrightarrow> opts_inv (length args) (initial_state (SavedArgv (length args) args))"
  by (cases args) (simp_all add: opts_inv_def initial_state_def SavedArgv_def)

text \<open>
  C21: In the builds that compile \<open>argv_getopt.inl\<close> (with \<open>_MSC_VER\<close>; on Linux \<open>main\<close> calls the \<open>getopt_long\<close> of the C library), the option loop of \<open>main\<close> ends on every command line: one iteration more than there are bytes
  and arguments left to read is enough. It ends with flags, with the usage, or with the read past
  the vector of a missing argument.
\<close>

theorem option_loop_ends:
  assumes "args \<noteq> []" and "unread (initial_state (SavedArgv (length args) args)) < fuel"
  shows "\<exists>r. option_loop fuel posixly (length args) (initial_state (SavedArgv (length args) args)) m = Some r \<and>
    (returns r \<or> r = Inl OutOfBounds)"
  using assms by (intro option_loop_fuel initial_inv) (auto simp: initial_state_def SavedArgv_def)

theorem option_loop_ends_witness:
  "\<exists>r. option_loop 21 False 4 (initial_state (SavedArgv 4 [''svnsrv'', ''-D'', ''input'', ''--sig=stop''])) no_flags = Some r \<and>
     (returns r \<or> r = Inl OutOfBounds)"
proof -
  let ?args = "[''svnsrv'', ''-D'', ''input'', ''--sig=stop'']"
  have n: "length ?args = 4" by simp
  have "unread (initial_state (SavedArgv (length ?args) ?args)) < 21"
    by (simp add: unread_def initial_state_def SavedArgv_def args_size_def)
  from option_loop_ends [OF _ this, of False no_flags] show ?thesis unfolding n by simp
qed

lemmas option_defs = getopt_long_def getopt_internal_def short_option_def parse_long_options_def arg_at_def
  has_letter_def initial_state_def SavedArgv_def take_option_def short_opt_def longopts_def no_flags_def uchar_def schar_def
  finish_scan_def skip_nonoption_def permute_nonopts_def

text \<open>
  The command lines of the manual, for any program name and file: \<open>svnsrv -D -c file\<close>, the same with
  long options, with abbreviated ones behind a non-option argument, and letters in one word all
  set the daemon flag and the file.
\<close>

theorem daemon_with_config:
  "option_loop 4 False 4 (initial_state (SavedArgv 4 [prog, ''-D'', ''-c'', file])) no_flags =
     Some (Inr (Some (no_flags\<lparr>daemon := True, cfile := Some file\<rparr>))) \<and>
   option_loop 4 False 4 (initial_state (SavedArgv 4 [prog, ''--daemon'', ''--config'', file])) no_flags =
     Some (Inr (Some (no_flags\<lparr>daemon := True, cfile := Some file\<rparr>))) \<and>
   option_loop 4 False 4 (initial_state (SavedArgv 4 [prog, ''input'', ''--da'', ''--conf='' @ file])) no_flags =
     Some (Inr (Some (no_flags\<lparr>daemon := True, cfile := Some file\<rparr>))) \<and>
   option_loop 4 False 3 (initial_state (SavedArgv 3 [prog, ''-Dc'', file])) no_flags =
     Some (Inr (Some (no_flags\<lparr>daemon := True, cfile := Some file\<rparr>)))"
proof (intro conjI)
  have p: "permute_args 1 2 4 [Some prog, Some ''input'', Some ''--da'', Some (''--conf='' @ file)] =
      Inr [Some prog, Some ''--da'', Some (''--conf='' @ file), Some ''input'']"
    by (subst permute_args_eq) (simp_all add: eval_nat_numeral)
  show "option_loop 4 False 4 (initial_state (SavedArgv 4 [prog, ''input'', ''--da'', ''--conf='' @ file])) no_flags =
     Some (Inr (Some (no_flags\<lparr>daemon := True, cfile := Some file\<rparr>)))"
    using p by (simp add: option_defs scan_args.simps Let_def eval_nat_numeral)
qed (simp_all add: option_defs scan_args.simps Let_def eval_nat_numeral)

end
