(* ===== verification/Handshake.thy ===== *)
theory Handshake
  imports C_Runtime
begin

section \<open>The client's handshake (\<open>SubversionHds.hpp\<close>, \<open>ParseSubversionHds\<close>)\<close>

text \<open>
  A client answers the greeting with
  \<open>( version:number ( cap:word ... ) url:string ? ra-client:string ( ? client:string ) )\<close>,
  and \<open>ParseSubversionHds\<close> reads it with a five-state machine over the received bytes.
  \<open>hds_char\<close> is the body of its \<open>for\<close> loop, \<open>hds_loop\<close> the loop and
  \<open>ParseSubversionHds\<close> the function. A pointer into the buffer is the list of the bytes
  from it up to \<open>end\<close>; the only comparison of addresses that depends on where the
  buffer lies, \<open>p + l + 1 >= end\<close> with a count \<open>l\<close> the peer chose, is done on 64-bit
  addresses, with the address of \<open>end\<close> an argument of the model.

  The lemmas follow the machine state by state; the properties say that the machine
  reads no byte outside the buffer, never returns to an earlier state, reads back
  every well-formed handshake, refuses a truncated one, and that a negative count is
  the one input that makes it throw.
\<close>

subsection \<open>Data\<close>

record SubversionHds =
  protocol :: u32
  mCapabilities :: "string list"
  subversionURL :: string
  userAgent :: string
  lastError :: string

definition empty_hds :: SubversionHds where
  "empty_hds = \<lparr>protocol = 0, mCapabilities = [], subversionURL = [], userAgent = [], lastError = []\<rparr>"

datatype SubversionHdsState =
    kParseReset
  | kProtocolParsed
  | kCapabilitiesParsed
  | kSubversionUrlParsed
  | kSubversionRUAParsed

text \<open>The enumerators are numbered in this order, which is the order they are reached in.\<close>

fun hds_state_code :: "SubversionHdsState \<Rightarrow> nat" where
  "hds_state_code kParseReset = 0"
| "hds_state_code kProtocolParsed = 1"
| "hds_state_code kCapabilitiesParsed = 2"
| "hds_state_code kSubversionUrlParsed = 3"
| "hds_state_code kSubversionRUAParsed = 4"

lemma hds_state_code_inject: "hds_state_code a = hds_state_code b \<Longrightarrow> a = b"
  by (cases a; cases b) auto

lemma hds_state_code_le: "hds_state_code a \<le> 4"
  by (cases a) auto

instantiation SubversionHdsState :: linorder
begin

definition less_eq_SubversionHdsState :: "SubversionHdsState \<Rightarrow> SubversionHdsState \<Rightarrow> bool" where
  "a \<le> b \<longleftrightarrow> hds_state_code a \<le> hds_state_code b"

definition less_SubversionHdsState :: "SubversionHdsState \<Rightarrow> SubversionHdsState \<Rightarrow> bool" where
  "a < b \<longleftrightarrow> hds_state_code a < hds_state_code b"

instance
  by standard (auto simp: less_eq_SubversionHdsState_def less_SubversionHdsState_def
      intro: hds_state_code_inject)

end

text \<open>The local variables of \<open>ParseSubversionHds\<close>, beside the pointer \<open>p\<close>.\<close>

record parse_state =
  status :: SubversionHdsState
  depth :: u32
  tmp :: string
  hds :: SubversionHds

text \<open>
  What one iteration does: go on from the pointer \<open>q\<close> the body left (the loop then
  increments it), return from the function, or stop with a fault.
\<close>

datatype parse_flow = Next parse_state string | Return int SubversionHds | Raise fault

subsection \<open>The loop body\<close>

text \<open>\<open>p + n >= end\<close>, with \<open>end\<close> at address \<open>e\<close> and \<open>p\<close> the pointer to \<open>rest\<close>.\<close>

definition past_end :: "int \<Rightarrow> string \<Rightarrow> int \<Rightarrow> bool" where
  "past_end e rest n \<longleftrightarrow> e \<le> (e - int (length rest) + n) mod 2 ^ 64"

text \<open>
  The \<open>':'\<close> branch of the two states that read a counted string, at \<open>p\<close> (which points
  at the colon): the count is in \<open>tmp\<close>. \<open>None\<close> is the error return, otherwise the
  string and the pointer after it.
\<close>

definition counted_string :: "int \<Rightarrow> string \<Rightarrow> string \<Rightarrow> (string \<times> string) option eff" where
  "counted_string e t p =
     (let l = strtol t
      in if past_end e p (l + 1) then Inr None
         else andThen (string_assign (tl p) l) (\<lambda>s. Inr (Some (s, drop (nat l) (tl p)))))"

text \<open>\<open>case kCapabilitiesParsed\<close> (also reached by fall-through).\<close>

definition hds_url :: "int \<Rightarrow> parse_state \<Rightarrow> char \<Rightarrow> string \<Rightarrow> parse_flow" where
  "hds_url e s c r =
     (if c \<noteq> CHR '':'' then Next (s\<lparr>tmp := tmp s @ [c]\<rparr>) (c # r)
      else
        (case counted_string e (tmp s) (c # r) of
           Inl f \<Rightarrow> Raise f
         | Inr None \<Rightarrow> Return 2 ((hds s)\<lparr>lastError :=
             ''Malformed Network data, URL string length mark too long !''\<rparr>)
         | Inr (Some (str, q)) \<Rightarrow>
             Next (s\<lparr>hds := (hds s)\<lparr>subversionURL := str\<rparr>, tmp := [],
                     status := kSubversionUrlParsed\<rparr>) q))"

text \<open>\<open>case kSubversionUrlParsed\<close>, after its test of \<open>depth\<close>.\<close>

definition hds_agent :: "int \<Rightarrow> parse_state \<Rightarrow> char \<Rightarrow> string \<Rightarrow> parse_flow" where
  "hds_agent e s c r =
     (if c \<noteq> CHR '':'' then Next (s\<lparr>tmp := tmp s @ [c]\<rparr>) (c # r)
      else
        (case counted_string e (tmp s) (c # r) of
           Inl f \<Rightarrow> Raise f
         | Inr None \<Rightarrow> Return 2 ((hds s)\<lparr>lastError :=
             ''Malformed Network data, ra-client string length mark too long !''\<rparr>)
         | Inr (Some (str, q)) \<Rightarrow>
             Next (s\<lparr>hds := (hds s)\<lparr>userAgent := str\<rparr>, tmp := [],
                     status := kSubversionRUAParsed\<rparr>) q))"

definition hds_char :: "int \<Rightarrow> parse_state \<Rightarrow> char \<Rightarrow> string \<Rightarrow> parse_flow" where
  "hds_char e s c r =
     (if c = CHR ''('' then Next (s\<lparr>depth := depth s + 1\<rparr>) (c # r)
      else if c = CHR '')'' then Next (s\<lparr>depth := depth s - 1\<rparr>) (c # r)
      else if c = CHR '' '' \<or> c = CHR 0x0A then
        (if status s = kProtocolParsed \<and> tmp s \<noteq> [] then
           Next (s\<lparr>hds := (hds s)\<lparr>mCapabilities := mCapabilities (hds s) @ [tmp s]\<rparr>, tmp := []\<rparr>) (c # r)
         else Next s (c # r))
      else if c = nul then Return 2 ((hds s)\<lparr>lastError := ''Malformed Network data !''\<rparr>)
      else
        (case status s of
           kParseReset \<Rightarrow>
             (if depth s = 1 then
                Next (s\<lparr>hds := (hds s)\<lparr>protocol := word_of_int (schar c - 48)\<rparr>,
                        status := kProtocolParsed\<rparr>) (c # r)
              else Next s (c # r))
         | kProtocolParsed \<Rightarrow>
             (if depth s = 2 then Next (s\<lparr>tmp := tmp s @ [c]\<rparr>) (c # r)
              else hds_url e (s\<lparr>tmp := [], status := kCapabilitiesParsed\<rparr>) c r)
         | kCapabilitiesParsed \<Rightarrow> hds_url e s c r
         | kSubversionUrlParsed \<Rightarrow>
             hds_agent e (if depth s \<noteq> 1 then s\<lparr>status := kSubversionRUAParsed\<rparr> else s) c r
         | kSubversionRUAParsed \<Rightarrow> Next s (c # r)))"

subsection \<open>The loop and the function\<close>

lemma counted_string_rest:
  "counted_string e t (c # r) = Inr (Some (str, q)) \<Longrightarrow> length q \<le> length r"
  by (auto simp: counted_string_def Let_def fault_simps split: if_splits)

lemma hds_url_advances: "hds_url e s c r = Next s' q \<Longrightarrow> length q \<le> Suc (length r)"
  by (auto simp: hds_url_def le_SucI dest: counted_string_rest
      split: if_splits sum.splits option.splits prod.splits)

lemma hds_agent_advances: "hds_agent e s c r = Next s' q \<Longrightarrow> length q \<le> Suc (length r)"
  by (auto simp: hds_agent_def le_SucI dest: counted_string_rest
      split: if_splits sum.splits option.splits prod.splits)

lemma hds_char_advances: "hds_char e s c r = Next s' q \<Longrightarrow> length q \<le> Suc (length r)"
  by (auto simp: hds_char_def dest: hds_url_advances hds_agent_advances
      split: if_splits SubversionHdsState.splits)

function hds_loop :: "int \<Rightarrow> parse_state \<Rightarrow> string \<Rightarrow> parse_flow" where
  "hds_loop e s [] = Next s []"
| "hds_loop e s (c # r) =
     (case hds_char e s c r of
        Next s' q \<Rightarrow> hds_loop e s' (tl q)
      | Return k h \<Rightarrow> Return k h
      | Raise f \<Rightarrow> Raise f)"
  by pat_completeness auto
termination
  by (relation "measure (\<lambda>(e, s, p). length p)") (auto dest!: hds_char_advances)

definition ParseSubversionHds :: "int \<Rightarrow> string option \<Rightarrow> SubversionHds \<Rightarrow> (int \<times> SubversionHds) eff" where
  "ParseSubversionHds e buffer h =
     (case buffer of
        None \<Rightarrow> Inr (1, h\<lparr>lastError := ''Malformed Network data,buffer is empty !''\<rparr>)
      | Some bytes \<Rightarrow>
          if bytes = [] then Inr (1, h\<lparr>lastError := ''Malformed Network data,buffer is empty !''\<rparr>)
          else
            (case hds_loop e \<lparr>status = kParseReset, depth = 0, tmp = [], hds = h\<rparr> bytes of
               Raise f \<Rightarrow> Inl f
             | Return k h' \<Rightarrow> Inr (k, h')
             | Next s _ \<Rightarrow>
                 if subversionURL (hds s) = [] then
                   Inr (2, (hds s)\<lparr>lastError :=
                     ''Parse Subversion Handsake failed, cannot resolve url !''\<rparr>)
                 else Inr (0, hds s)))"

subsection \<open>The machine as a step relation\<close>

text \<open>
  One iteration that goes on, from the pointer before it to the pointer after the
  loop's increment. \<open>hds_loop\<close> follows these steps until it stops.
\<close>

inductive hds_step :: "int \<Rightarrow> parse_state \<times> string \<Rightarrow> parse_state \<times> string \<Rightarrow> bool" where
  iterate: "hds_char e s c r = Next s' q \<Longrightarrow> hds_step e (s, c # r) (s', tl q)"

inductive_cases hds_stepE: "hds_step e (s, p) (s', p')"

inductive_simps hds_step_Nil: "hds_step e (s, []) t"

lemma hds_loop_steps: "hds_loop e s p = Next s' q \<Longrightarrow> (hds_step e)\<^sup>*\<^sup>* (s, p) (s', q) \<and> q = []"
proof (induction e s p rule: hds_loop.induct)
  case (2 e s c r)
  from "2.prems" obtain t q' where t: "hds_char e s c r = Next t q'" "hds_loop e t (tl q') = Next s' q"
    by (auto split: parse_flow.splits)
  from "2.IH" [OF t] t(1) show ?case
    by (auto intro: converse_rtranclp_into_rtranclp iterate)
qed simp

text \<open>The pointer only moves towards \<open>end\<close>, and the state only forward.\<close>

lemma counted_string_suffix:
  "counted_string e t (c # r) = Inr (Some (str, q)) \<Longrightarrow>
     \<exists>n. strtol t = int n \<and> n \<le> length r \<and> str = take n r \<and> q = drop n r"
  by (auto simp: counted_string_def string_assign_def Let_def fault_simps split: if_splits
      intro!: exI [of _ "nat (strtol t)"])

lemma hds_url_next:
  assumes "hds_url e s c r = Next s' q"
  shows "status s' = status s \<or> status s' = kSubversionUrlParsed"
    and "\<exists>k. q = drop k (c # r)"
  using assms
  by (auto simp: hds_url_def dest!: counted_string_suffix
      split: if_splits sum.splits option.splits prod.splits
      intro: exI [of _ 0] exI [of _ "Suc n" for n])

lemma hds_agent_next:
  assumes "hds_agent e s c r = Next s' q"
  shows "status s' = status s \<or> status s' = kSubversionRUAParsed"
    and "\<exists>k. q = drop k (c # r)"
  using assms
  by (auto simp: hds_agent_def dest!: counted_string_suffix
      split: if_splits sum.splits option.splits prod.splits
      intro: exI [of _ 0] exI [of _ "Suc n" for n])

lemma hds_char_next:
  assumes "hds_char e s c r = Next s' q"
  shows "status s \<le> status s'" and "\<exists>k. q = drop k (c # r)"
proof -
  note url = hds_url_next and agent = hds_agent_next
  show "status s \<le> status s'"
    using assms
    by (cases "status s")
      (auto simp: hds_char_def less_eq_SubversionHdsState_def hds_state_code_le
        split: if_splits dest!: url(1) agent(1))
  show "\<exists>k. q = drop k (c # r)"
    using assms
    by (auto simp: hds_char_def split: if_splits SubversionHdsState.splits
        dest: url(2) agent(2) intro: exI [of _ 0])
qed

lemma hds_steps_forward:
  assumes "(hds_step e)\<^sup>*\<^sup>* (s, p) (s', p')"
  shows "status s \<le> status s' \<and> (\<exists>k. p' = drop k p)"
  using assms
proof (induction "(s', p')" arbitrary: s' p' rule: rtranclp_induct)
  case base
  then show ?case by (auto intro: exI [of _ 0])
next
  case (step t)
  obtain u q where t: "t = (u, q)" by (cases t)
  with step.hyps(2) obtain c r q' where
    q: "q = c # r" "hds_char e u c r = Next s' q'" "p' = tl q'"
    by (auto elim: hds_stepE)
  obtain k j where "q = drop k p" "q' = drop j q"
    using step.hyps(3) [OF t] hds_char_next(2) [OF q(2)] unfolding q(1) by blast
  then have "p' = drop (Suc (j + k)) p" using q(3) by (simp add: drop_Suc drop_tl add.commute)
  moreover have "status s \<le> status s'"
    using step.hyps(3) [OF t] hds_char_next(1) [OF q(2)] by (auto intro: order_trans)
  ultimately show ?case by blast
qed

subsection \<open>Counts and the end of the buffer\<close>

text \<open>
  For a buffer below address \<open>2 ^ 63\<close> (any user-space buffer) and a count that is not
  negative, the comparison of addresses is the comparison of positions.
\<close>

definition buffer_at :: "int \<Rightarrow> string \<Rightarrow> bool" where
  "buffer_at e p \<longleftrightarrow> int (length p) \<le> e \<and> e < 2 ^ 63"

lemma buffer_at_drop: "buffer_at e p \<Longrightarrow> buffer_at e (drop k p)"
  by (auto simp: buffer_at_def)

lemma past_end_iff:
  assumes "buffer_at e p" "0 \<le> n" "n \<le> 2 ^ 63"
  shows "past_end e p n \<longleftrightarrow> int (length p) \<le> n"
  using assms by (auto simp: past_end_def buffer_at_def)

lemma counted_string_nat:
  assumes "buffer_at e (c # r)" "strtol t = int n"
  shows "counted_string e t (c # r) =
    (if length r \<le> n then Inr None else Inr (Some (take n r, drop n r)))"
proof -
  have "past_end e (c # r) (int n + 1) \<longleftrightarrow> length r \<le> n"
    using past_end_iff [OF assms(1), of "int n + 1"] strtol_bounds(2) [of t] assms(2)
    by (simp add: LONG_MAX_def)
  then show ?thesis
    using assms(2) by (auto simp: counted_string_def string_assign_simps)
qed

lemma counted_string_fault:
  assumes "buffer_at e (c # r)" "counted_string e t (c # r) = Inl f"
  shows "f = LengthError \<and> strtol t < 0"
proof (cases "strtol t < 0")
  case True
  with assms(2) show ?thesis
    by (auto simp: counted_string_def string_assign_def Let_def split: if_splits)
next
  case False
  then obtain n where "strtol t = int n" by (metis not_less nonneg_int_cases)
  from counted_string_nat [OF assms(1) this] assms(2) show ?thesis
    by (auto split: if_splits)
qed

text \<open>
  A negative count: while \<open>p + l + 1\<close> does not pass below address 0 it compares less
  than \<open>end\<close>, and the conversion to \<open>size_t\<close> makes \<open>assign\<close> throw.
\<close>

lemma counted_string_negative:
  assumes "buffer_at e (c # r)" "strtol t = - int n" "0 < n" "int (Suc (length r) + n) \<le> e"
  shows "counted_string e t (c # r) = Inl LengthError"
proof -
  have "\<not> past_end e (c # r) (strtol t + 1)"
    using assms by (simp add: past_end_def buffer_at_def)
  then show ?thesis
    using assms(2,3) by (simp add: counted_string_def string_assign_simps Let_def)
qed

lemma hds_char_fault:
  assumes "buffer_at e (c # r)" "hds_char e s c r = Raise f"
  shows "f = LengthError"
  using assms counted_string_fault [OF assms(1)]
  by (auto simp: hds_char_def hds_url_def hds_agent_def
      split: if_splits SubversionHdsState.splits sum.splits option.splits)

lemma hds_loop_fault: "buffer_at e p \<Longrightarrow> hds_loop e s p = Raise f \<Longrightarrow> f = LengthError"
proof (induction e s p rule: hds_loop.induct)
  case (2 e s c r)
  show ?case
  proof (cases "hds_char e s c r")
    case (Next s' q)
    obtain k where "q = drop k (c # r)" using hds_char_next(2) [OF Next] by blast
    then have "tl q = drop (Suc k) (c # r)" by (simp add: tl_drop)
    then have "buffer_at e (tl q)" using "2.prems"(1) by (metis buffer_at_drop)
    with "2.IH" [OF Next] "2.prems"(2) Next show ?thesis by simp
  qed (use "2.prems" hds_char_fault in auto)
qed simp

subsection \<open>How much a parse can store\<close>

definition hds_size :: "SubversionHds \<Rightarrow> nat" where
  "hds_size h = sum_list (map length (mCapabilities h)) + length (subversionURL h) + length (userAgent h)"

lemma hds_size_lastError [simp]: "hds_size (h\<lparr>lastError := m\<rparr>) = hds_size h"
  by (simp add: hds_size_def)

lemma hds_url_size:
  "hds_url e s c r = Next s' q \<Longrightarrow>
     length (tmp s') + hds_size (hds s') + length (tl q) \<le> length (tmp s) + hds_size (hds s) + Suc (length r)"
  by (auto simp: hds_url_def hds_size_def dest!: counted_string_suffix
      split: if_splits sum.splits option.splits prod.splits)

lemma hds_agent_size:
  "hds_agent e s c r = Next s' q \<Longrightarrow>
     length (tmp s') + hds_size (hds s') + length (tl q) \<le> length (tmp s) + hds_size (hds s) + Suc (length r)"
  by (auto simp: hds_agent_def hds_size_def dest!: counted_string_suffix
      split: if_splits sum.splits option.splits prod.splits)

lemma hds_char_size:
  assumes "hds_char e s c r = Next s' q"
  shows "length (tmp s') + hds_size (hds s') + length (tl q) \<le> length (tmp s) + hds_size (hds s) + Suc (length r)"
  using assms
  by (auto simp: hds_char_def dest!: hds_url_size hds_agent_size
      split: if_splits SubversionHdsState.splits) (auto simp: hds_size_def)

lemma hds_char_return:
  assumes "hds_char e s c r = Return k h'"
  shows "k = 2 \<and> (\<exists>m. m \<noteq> [] \<and> h' = (hds s)\<lparr>lastError := m\<rparr>)"
  using assms
  by (auto simp: hds_char_def hds_url_def hds_agent_def
      split: if_splits SubversionHdsState.splits sum.splits option.splits prod.splits)

lemma hds_loop_size:
  "(hds_loop e s p = Next s' q \<longrightarrow> hds_size (hds s') \<le> length (tmp s) + hds_size (hds s) + length p) \<and>
   (hds_loop e s p = Return k h' \<longrightarrow> hds_size h' \<le> length (tmp s) + hds_size (hds s) + length p)"
proof (induction e s p rule: hds_loop.induct)
  case (2 e s c r)
  show ?case
  proof (cases "hds_char e s c r")
    case (Next t u)
    show ?thesis using "2.IH" [OF Next] hds_char_size [OF Next] Next by auto
  next
    case (Return i h)
    then show ?thesis using hds_char_return [OF Return] by (auto simp: hds_size_def)
  qed auto
qed simp

text \<open>The machine never writes \<open>lastError\<close> before it fails.\<close>

lemma hds_char_lastError:
  assumes "hds_char e s c r = Next s' q"
  shows "lastError (hds s') = lastError (hds s)"
  using assms
  by (auto simp: hds_char_def hds_url_def hds_agent_def
      split: if_splits SubversionHdsState.splits sum.splits option.splits prod.splits)

lemma hds_loop_lastError: "hds_loop e s p = Next s' q \<Longrightarrow> lastError (hds s') = lastError (hds s)"
  by (induction e s p rule: hds_loop.induct)
    (auto dest: hds_char_lastError split: parse_flow.splits)

lemma hds_loop_return: "hds_loop e s p = Return k h' \<Longrightarrow> k = 2 \<and> lastError h' \<noteq> []"
  by (induction e s p rule: hds_loop.induct)
    (auto dest!: hds_char_return split: parse_flow.splits)

text \<open>The five texts a refused handshake can leave in \<open>lastError\<close>.\<close>

definition parse_messages :: "string list" where
  "parse_messages =
     [''Malformed Network data,buffer is empty !'',
      ''Malformed Network data !'',
      ''Malformed Network data, URL string length mark too long !'',
      ''Malformed Network data, ra-client string length mark too long !'',
      ''Parse Subversion Handsake failed, cannot resolve url !'']"

lemma hds_char_message:
  "hds_char e s c r = Return k h' \<Longrightarrow> lastError h' \<in> set parse_messages"
  by (auto simp: hds_char_def hds_url_def hds_agent_def parse_messages_def
      split: if_splits SubversionHdsState.splits sum.splits option.splits prod.splits)

lemma hds_loop_message: "hds_loop e s p = Return k h' \<Longrightarrow> lastError h' \<in> set parse_messages"
  by (induction e s p rule: hds_loop.induct)
    (auto dest: hds_char_message split: parse_flow.splits)

lemma parse_message:
  assumes "ParseSubversionHds e b h = Inr (k, h')"
  shows "if k = 0 then lastError h' = lastError h else lastError h' \<in> set parse_messages"
  using assms hds_loop_message hds_loop_lastError
    hds_loop_return [of e "\<lparr>status = kParseReset, depth = 0, tmp = [], hds = h\<rparr>"]
  by (fastforce simp: ParseSubversionHds_def parse_messages_def split: option.splits if_splits parse_flow.splits)

lemma parse_messages_printable: "m \<in> set parse_messages \<Longrightarrow> nul \<notin> set m \<and> length m \<le> 100"
  by (auto simp: parse_messages_def)

subsection \<open>Reading a well-formed handshake\<close>

text \<open>Bytes that are neither punctuation nor white space of the protocol, and words of them.\<close>

definition plain :: "char \<Rightarrow> bool" where
  "plain c \<longleftrightarrow> c \<noteq> CHR ''('' \<and> c \<noteq> CHR '')'' \<and> c \<noteq> CHR '' '' \<and> c \<noteq> CHR 0x0A \<and> c \<noteq> nul"

definition cap_word :: "string \<Rightarrow> bool" where
  "cap_word w \<longleftrightarrow> w \<noteq> [] \<and> (\<forall>c \<in> set w. plain c)"

text \<open>
  The client side of the protocol: a counted string, the capability words, and the whole
  response. The \<open>ra-client\<close> string and the \<open>client\<close> string after it are optional.
\<close>

definition wire_string :: "string \<Rightarrow> string" where
  "wire_string s = show_nat (length s) @ CHR '':'' # s"

definition wire_words :: "string list \<Rightarrow> string" where
  "wire_words ws = concat (map (\<lambda>w. w @ '' '') ws)"

definition wire_agent :: "(string \<times> string option) option \<Rightarrow> string" where
  "wire_agent a =
     (case a of
        None \<Rightarrow> []
      | Some (ra, cl) \<Rightarrow> wire_string ra @ '' ( '' @
          (case cl of None \<Rightarrow> [] | Some x \<Rightarrow> wire_string x @ '' '') @ '') '')"

definition wire_response :: "nat \<Rightarrow> string list \<Rightarrow> string \<Rightarrow> (string \<times> string option) option \<Rightarrow> string" where
  "wire_response v caps url a =
     ''( '' @ [digit v] @ '' ( '' @ wire_words caps @ '') '' @ wire_string url @ '' '' @ wire_agent a @ '') ''"

text \<open>One step of the loop for each kind of byte.\<close>

declare hds_loop.simps(2) [simp del]

lemma loop_punctuation [simp]:
  "hds_loop e s (CHR ''('' # r) = hds_loop e (s\<lparr>depth := depth s + 1\<rparr>) r"
  "hds_loop e s (CHR '')'' # r) = hds_loop e (s\<lparr>depth := depth s - 1\<rparr>) r"
  "hds_loop e s (CHR '' '' # r) =
     hds_loop e (if status s = kProtocolParsed \<and> tmp s \<noteq> []
       then s\<lparr>hds := (hds s)\<lparr>mCapabilities := mCapabilities (hds s) @ [tmp s]\<rparr>, tmp := []\<rparr> else s) r"
  by (simp_all add: hds_loop.simps(2) hds_char_def)

lemma plain_digit: "is_digit c \<Longrightarrow> plain c"
  using digit_facts by (auto simp: plain_def)

lemma loop_protocol:
  assumes "plain c" "status s = kParseReset" "depth s = 1"
  shows "hds_loop e s (c # r) =
    hds_loop e (s\<lparr>hds := (hds s)\<lparr>protocol := word_of_int (schar c - 48)\<rparr>, status := kProtocolParsed\<rparr>) r"
  using assms by (simp add: hds_loop.simps(2) hds_char_def plain_def)

lemma loop_word:
  assumes "\<forall>c \<in> set w. plain c" "status s = kProtocolParsed" "depth s = 2"
  shows "hds_loop e s (w @ r) = hds_loop e (s\<lparr>tmp := tmp s @ w\<rparr>) r"
  using assms
proof (induction w arbitrary: s)
  case (Cons c w)
  then have "hds_loop e s ((c # w) @ r) = hds_loop e (s\<lparr>tmp := tmp s @ [c]\<rparr>) (w @ r)"
    by (simp add: hds_loop.simps(2) hds_char_def plain_def)
  also have "\<dots> = hds_loop e (s\<lparr>tmp := tmp s @ c # w\<rparr>) r"
    using Cons.IH [of "s\<lparr>tmp := tmp s @ [c]\<rparr>"] Cons.prems by simp
  finally show ?case .
qed simp

lemma loop_words:
  assumes "\<forall>w \<in> set ws. cap_word w" "status s = kProtocolParsed" "depth s = 2" "tmp s = []"
  shows "hds_loop e s (wire_words ws @ r) =
    hds_loop e (s\<lparr>hds := (hds s)\<lparr>mCapabilities := mCapabilities (hds s) @ ws\<rparr>\<rparr>) r"
  using assms
proof (induction ws arbitrary: s)
  case (Cons w ws)
  let ?s = "s\<lparr>hds := (hds s)\<lparr>mCapabilities := mCapabilities (hds s) @ [w]\<rparr>\<rparr>"
  have "hds_loop e s (wire_words (w # ws) @ r) = hds_loop e ?s (wire_words ws @ r)"
    using Cons.prems loop_word [of w s e "CHR '' '' # wire_words ws @ r"]
    by (cases s) (simp add: wire_words_def cap_word_def)
  also have "\<dots> = hds_loop e (?s\<lparr>hds := (hds ?s)\<lparr>mCapabilities := mCapabilities (hds ?s) @ ws\<rparr>\<rparr>) r"
    using Cons.prems by (intro Cons.IH) auto
  finally show ?case by simp
qed (simp add: wire_words_def)

text \<open>The digits of a count, the colon and the counted bytes.\<close>

definition count_char :: "char \<Rightarrow> bool" where
  "count_char c \<longleftrightarrow> plain c \<and> c \<noteq> CHR '':''"

lemma show_nat_count: "\<forall>c \<in> set (show_nat n). count_char c"
  using show_nat_digits [of n] digit_facts(5) plain_digit by (auto simp: count_char_def)

lemma loop_count:
  assumes "\<forall>c \<in> set w. count_char c" "status s = kCapabilitiesParsed \<or> status s = kSubversionUrlParsed \<and> depth s = 1"
  shows "hds_loop e s (w @ r) = hds_loop e (s\<lparr>tmp := tmp s @ w\<rparr>) r"
  using assms
proof (induction w arbitrary: s)
  case (Cons c w)
  have c: "c \<noteq> CHR ''(''" "c \<noteq> CHR '')''" "c \<noteq> CHR '' ''" "c \<noteq> CHR 0x0A" "c \<noteq> nul" "c \<noteq> CHR '':''"
    using Cons.prems(1) by (simp_all add: count_char_def plain_def)
  from Cons.prems(2) have "hds_loop e s ((c # w) @ r) = hds_loop e (s\<lparr>tmp := tmp s @ [c]\<rparr>) (w @ r)"
    by (elim disjE) (simp_all add: hds_loop.simps(2) hds_char_def hds_url_def hds_agent_def c)
  also have "\<dots> = hds_loop e (s\<lparr>tmp := tmp s @ c # w\<rparr>) r"
    using Cons.IH [of "s\<lparr>tmp := tmp s @ [c]\<rparr>"] Cons.prems by simp
  finally show ?case .
qed simp

lemma loop_leave_words:
  assumes "\<forall>c \<in> set w. count_char c" "w \<noteq> []" "status s = kProtocolParsed" "depth s \<noteq> 2" "tmp s = []"
  shows "hds_loop e s (w @ r) = hds_loop e (s\<lparr>tmp := w, status := kCapabilitiesParsed\<rparr>) r"
proof -
  obtain c v where w: "w = c # v" using assms(2) by (cases w) auto
  then have "hds_loop e s (w @ r) = hds_loop e (s\<lparr>tmp := [c], status := kCapabilitiesParsed\<rparr>) (v @ r)"
    using assms
    by (cases s) (auto simp: hds_loop.simps(2) hds_char_def hds_url_def count_char_def plain_def)
  also have "\<dots> = hds_loop e (s\<lparr>tmp := w, status := kCapabilitiesParsed\<rparr>) r"
    using loop_count [of v "s\<lparr>tmp := [c], status := kCapabilitiesParsed\<rparr>"] assms(1) w
    by (cases s) simp
  finally show ?thesis .
qed

lemma loop_url_string:
  assumes "status s = kCapabilitiesParsed" "tmp s = show_nat (length str)"
    and "buffer_at e (CHR '':'' # str @ x # r)"
  shows "hds_loop e s (CHR '':'' # str @ x # r) =
    hds_loop e (s\<lparr>hds := (hds s)\<lparr>subversionURL := str\<rparr>, tmp := [], status := kSubversionUrlParsed\<rparr>) r"
proof -
  have "strtol (tmp s) = int (length str)"
    using assms(2,3) by (simp add: strtol_show_nat buffer_at_def LONG_MAX_def)
  from counted_string_nat [OF assms(3) this] show ?thesis
    using assms(1) by (simp add: hds_loop.simps(2) hds_char_def hds_url_def)
qed

lemma loop_agent_string:
  assumes "status s = kSubversionUrlParsed" "depth s = 1" "tmp s = show_nat (length str)"
    and "buffer_at e (CHR '':'' # str @ x # r)"
  shows "hds_loop e s (CHR '':'' # str @ x # r) =
    hds_loop e (s\<lparr>hds := (hds s)\<lparr>userAgent := str\<rparr>, tmp := [], status := kSubversionRUAParsed\<rparr>) r"
proof -
  have "strtol (tmp s) = int (length str)"
    using assms(3,4) by (simp add: strtol_show_nat buffer_at_def LONG_MAX_def)
  from counted_string_nat [OF assms(4) this] show ?thesis
    using assms(1,2) by (simp add: hds_loop.simps(2) hds_char_def hds_agent_def)
qed

text \<open>After the \<open>ra-client\<close> string every byte but NUL is skipped.\<close>

lemma loop_done:
  assumes "status s = kSubversionRUAParsed" "nul \<notin> set r"
  shows "\<exists>d. hds_loop e s r = Next (s\<lparr>depth := d\<rparr>) []"
  using assms
proof (induction r arbitrary: s)
  case Nil
  then show ?case by (auto intro: exI [of _ "depth s"])
next
  case (Cons c r)
  define d where "d = (if c = CHR ''('' then depth s + 1 else if c = CHR '')'' then depth s - 1 else depth s)"
  have "hds_loop e s (c # r) = hds_loop e (s\<lparr>depth := d\<rparr>) r"
    using Cons.prems by (cases s) (auto simp: d_def hds_loop.simps(2) hds_char_def)
  with Cons.IH [of "s\<lparr>depth := d\<rparr>"] Cons.prems show ?case by auto
qed

text \<open>From the capability list to the end of the URL.\<close>

definition url_parsed :: "nat \<Rightarrow> string list \<Rightarrow> string \<Rightarrow> parse_state" where
  "url_parsed v caps url =
     \<lparr>status = kSubversionUrlParsed, depth = 1, tmp = [],
      hds = empty_hds\<lparr>protocol := of_nat v, mCapabilities := caps, subversionURL := url\<rparr>\<rparr>"

definition parse_start :: parse_state where
  "parse_start = \<lparr>status = kParseReset, depth = 0, tmp = [], hds = empty_hds\<rparr>"

lemma schar_digit: "v < 10 \<Longrightarrow> schar (digit v) = 48 + int v"
  using uchar_digit [of v] by (simp add: schar_def)

lemma loop_prefix:
  assumes "v < 10" "\<forall>w \<in> set caps. cap_word w" "\<forall>c \<in> set n. count_char c" "n \<noteq> []"
  shows "hds_loop e parse_start (''( '' @ [digit v] @ '' ( '' @ wire_words caps @ '') '' @ n @ r) =
    hds_loop e \<lparr>status = kCapabilitiesParsed, depth = 1, tmp = n,
      hds = empty_hds\<lparr>protocol := of_nat v, mCapabilities := caps\<rparr>\<rparr> r"
proof -
  let ?t = "'') '' @ n @ r"
  let ?p = "\<lparr>status = kProtocolParsed, depth = 1, tmp = [], hds = empty_hds\<lparr>protocol := of_nat v\<rparr>\<rparr>"
  have "hds_loop e parse_start (''( '' @ [digit v] @ '' ( '' @ wire_words caps @ ?t) =
      hds_loop e (?p\<lparr>depth := 2\<rparr>) (wire_words caps @ ?t)"
    using assms(1)
    by (simp add: parse_start_def loop_protocol plain_digit schar_digit)
  also have "\<dots> = hds_loop e (?p\<lparr>depth := 2, hds := (hds ?p)\<lparr>mCapabilities := caps\<rparr>\<rparr>) ?t"
    using assms(2) loop_words [of caps "?p\<lparr>depth := 2\<rparr>" e ?t] by (simp add: empty_hds_def)
  also have "\<dots> = hds_loop e \<lparr>status = kCapabilitiesParsed, depth = 1, tmp = n,
      hds = empty_hds\<lparr>protocol := of_nat v, mCapabilities := caps\<rparr>\<rparr> r"
    using assms(3,4) loop_leave_words
      [of n "?p\<lparr>hds := empty_hds\<lparr>protocol := of_nat v, mCapabilities := caps\<rparr>\<rparr>" e r]
    by simp
  finally show ?thesis by simp
qed

lemma loop_response_url:
  assumes "v < 10" "\<forall>w \<in> set caps. cap_word w"
    and "buffer_at e (''( '' @ [digit v] @ '' ( '' @ wire_words caps @ '') '' @ wire_string url @ x # r)"
  shows "hds_loop e parse_start (''( '' @ [digit v] @ '' ( '' @ wire_words caps @ '') '' @ wire_string url @ x # r) =
    hds_loop e (url_parsed v caps url) r"
proof -
  have "buffer_at e (CHR '':'' # url @ x # r)"
    using assms(3) by (auto simp: buffer_at_def wire_string_def)
  then show ?thesis
    using loop_prefix [OF assms(1,2) show_nat_count show_nat_nonempty, of e "length url" "CHR '':'' # url @ x # r"]
    by (simp add: wire_string_def loop_url_string url_parsed_def)
qed

lemma loop_agent:
  assumes "buffer_at e (wire_agent a @ '') '')" "case a of Some (ra, Some cl) \<Rightarrow> nul \<notin> set cl | _ \<Rightarrow> True"
  shows "\<exists>s. hds_loop e (url_parsed v caps url) (wire_agent a @ '') '') = Next s [] \<and>
    hds s = (hds (url_parsed v caps url))\<lparr>userAgent := (case a of None \<Rightarrow> [] | Some (ra, _) \<Rightarrow> ra)\<rparr>"
proof (cases a)
  case None
  then show ?thesis by (simp add: wire_agent_def url_parsed_def empty_hds_def)
next
  case (Some b)
  obtain ra cl where b: "b = (ra, cl)" by (cases b)
  define rest where "rest = ''( '' @ (case cl of None \<Rightarrow> [] | Some x \<Rightarrow> wire_string x @ '' '') @ '') '' @ '') ''"
  have wire: "wire_agent a @ '') '' = show_nat (length ra) @ CHR '':'' # ra @ CHR '' '' # rest"
    by (simp add: Some b wire_agent_def wire_string_def rest_def)
  have "nul \<notin> set rest"
    using assms(2) digit_facts(4) [OF show_nat_digits [rule_format]] Some b
    by (auto simp: rest_def wire_string_def split: option.splits)
  moreover have "buffer_at e (CHR '':'' # ra @ CHR '' '' # rest)"
    using assms(1) unfolding wire by (auto simp: buffer_at_def)
  ultimately show ?thesis
    using loop_count [OF show_nat_count, of "url_parsed v caps url" e "length ra"]
      loop_done [of "(url_parsed v caps url)\<lparr>hds := (hds (url_parsed v caps url))\<lparr>userAgent := ra\<rparr>,
        status := kSubversionRUAParsed\<rparr>" rest e]
    unfolding wire by (auto simp: Some b url_parsed_def loop_agent_string)
qed

subsection \<open>Properties\<close>

lemma ParseSubversionHds_Some:
  assumes "b \<noteq> []"
  shows "ParseSubversionHds e (Some b) empty_hds =
    (case hds_loop e parse_start b of
       Raise f \<Rightarrow> Inl f
     | Return k h' \<Rightarrow> Inr (k, h')
     | Next s _ \<Rightarrow>
         if subversionURL (hds s) = [] then
           Inr (2, (hds s)\<lparr>lastError := ''Parse Subversion Handsake failed, cannot resolve url !''\<rparr>)
         else Inr (0, hds s))"
  using assms by (simp add: ParseSubversionHds_def parse_start_def)

lemma parse_wire_response:
  assumes "v < 10" and "\<forall>w \<in> set caps. cap_word w" and "url \<noteq> []"
    and "\<forall>ra cl. a = Some (ra, Some cl) \<longrightarrow> nul \<notin> set cl"
    and "buffer_at e (wire_response v caps url a)"
  shows "ParseSubversionHds e (Some (wire_response v caps url a)) empty_hds =
    Inr (0, \<lparr>protocol = of_nat v, mCapabilities = caps, subversionURL = url,
      userAgent = (case a of None \<Rightarrow> [] | Some (ra, _) \<Rightarrow> ra), lastError = []\<rparr>)"
proof -
  have "buffer_at e (wire_agent a @ '') '')"
    using assms(5) by (auto simp: wire_response_def buffer_at_def)
  moreover have "case a of Some (ra, Some cl) \<Rightarrow> nul \<notin> set cl | _ \<Rightarrow> True"
    using assms(4) by (auto split: option.splits)
  ultimately obtain s where
    s: "hds_loop e (url_parsed v caps url) (wire_agent a @ '') '') = Next s []"
      "hds s = (hds (url_parsed v caps url))\<lparr>userAgent := (case a of None \<Rightarrow> [] | Some (ra, _) \<Rightarrow> ra)\<rparr>"
    using loop_agent by blast
  have "hds_loop e parse_start (wire_response v caps url a) = Next s []"
    using loop_response_url [OF assms(1,2), of e url "CHR '' ''" "wire_agent a @ '') ''"] assms(5) s(1)
    by (simp add: wire_response_def)
  then show ?thesis
    using assms(3) s(2)
    by (subst ParseSubversionHds_Some) (simp_all add: wire_response_def url_parsed_def empty_hds_def)
qed

text \<open>
  C2: reading back what a client sends. For every one-digit protocol version, every list
  of capability words, every non-empty URL (any bytes) and every optional
  \<open>ra-client\<close>/\<open>client\<close> strings (the second without a NUL), parsing the client's response as the protocol prescribes
  it returns 0 with exactly those fields.
\<close>

theorem handshake_roundtrip:
  assumes "v < 10" and "\<forall>w \<in> set caps. cap_word w" and "url \<noteq> []"
    and "\<forall>ra cl. a = Some (ra, Some cl) \<longrightarrow> nul \<notin> set cl"
    and "buffer_at e (wire_response v caps url a)"
  shows "ParseSubversionHds e (Some (wire_response v caps url a)) empty_hds =
    Inr (0, \<lparr>protocol = of_nat v, mCapabilities = caps, subversionURL = url,
      userAgent = (case a of None \<Rightarrow> [] | Some (ra, _) \<Rightarrow> ra), lastError = []\<rparr>)"
  using assms by (rule parse_wire_response)

theorem handshake_roundtrip_witness:
  "ParseSubversionHds 4096
     (Some (wire_response 2 [''depth'', ''mergeinfo''] ''svn://h/o/r'' (Some (''SVN/1.8'', None)))) empty_hds =
   Inr (0, \<lparr>protocol = 2, mCapabilities = [''depth'', ''mergeinfo''], subversionURL = ''svn://h/o/r'',
     userAgent = ''SVN/1.8'', lastError = []\<rparr>)"
proof -
  have "buffer_at 4096 (wire_response 2 [''depth'', ''mergeinfo''] ''svn://h/o/r'' (Some (''SVN/1.8'', None)))"
    by (simp add: buffer_at_def wire_response_def wire_words_def wire_string_def wire_agent_def show_nat.simps)
  from handshake_roundtrip [OF _ _ _ _ this] show ?thesis
    by (simp add: cap_word_def plain_def)
qed

text \<open>
  C16: no byte outside the buffer is read. For every input, whatever counts it announces,
  the parse returns or stops with the \<open>std::length_error\<close> of a negative count; it never
  reads past the received bytes.
\<close>

theorem handshake_in_bounds:
  assumes "buffer_at e b"
  shows "returns (ParseSubversionHds e (Some b) h) \<or> ParseSubversionHds e (Some b) h = Inl LengthError"
  using hds_loop_fault [OF assms]
  by (auto simp: ParseSubversionHds_def split: if_splits parse_flow.splits)

theorem handshake_in_bounds_witness:
  "buffer_at 4096 ''( 2 ( ) 9:svn'' \<and>
   (returns (ParseSubversionHds 4096 (Some ''( 2 ( ) 9:svn'') empty_hds) \<or>
    ParseSubversionHds 4096 (Some ''( 2 ( ) 9:svn'') empty_hds = Inl LengthError)"
proof -
  have b: "buffer_at 4096 ''( 2 ( ) 9:svn''" by (simp add: buffer_at_def)
  from b handshake_in_bounds [OF b, of empty_hds] show ?thesis by blast
qed

lemma strtol_minus:
  assumes "int n \<le> LONG_MAX"
  shows "strtol (CHR ''-'' # show_nat n) = - int n"
proof -
  have "c_str (CHR ''-'' # show_nat n) = CHR ''-'' # show_nat n"
    using show_nat_digits digit_facts(4) by (intro c_str_id) auto
  then show ?thesis
    using assms show_nat_digits [of n]
    by (simp add: strtol_def is_space_def uchar_def takeWhile_all digits_value_show_nat
        LONG_MAX_def LONG_MIN_def)
qed

definition negative_url :: "nat \<Rightarrow> string list \<Rightarrow> nat \<Rightarrow> string \<Rightarrow> string" where
  "negative_url v caps n tail =
     ''( '' @ [digit v] @ '' ( '' @ wire_words caps @ '') '' @ (CHR ''-'' # show_nat n) @ CHR '':'' # tail"

lemma handshake_negative:
  assumes "v < 10" and "\<forall>w \<in> set caps. cap_word w" and "0 < n"
    and "int (length (negative_url v caps n tail) + n) \<le> e" and "e < 2 ^ 63"
  shows "ParseSubversionHds e (Some (negative_url v caps n tail)) empty_hds = Inl LengthError"
proof -
  have "counted_string e (CHR ''-'' # show_nat n) (CHR '':'' # tail) = Inl LengthError"
    using assms(3-5)
    by (intro counted_string_negative [of _ _ _ _ n])
      (auto simp: buffer_at_def strtol_minus LONG_MAX_def negative_url_def)
  then have "hds_loop e parse_start (negative_url v caps n tail) = Raise LengthError"
    unfolding negative_url_def
    using loop_prefix [OF assms(1,2), of "CHR ''-'' # show_nat n" e "CHR '':'' # tail"] show_nat_count [of n]
    by (simp add: count_char_def plain_def hds_loop.simps(2) hds_char_def hds_url_def)
  then show ?thesis
    by (subst ParseSubversionHds_Some) (simp_all add: negative_url_def)
qed

text \<open>
  A peer can make the parse throw. A response whose URL count is negative is not
  refused with an error code: the comparison with \<open>end\<close> lets it pass, and
  \<open>std::string::assign\<close> throws \<open>std::length_error\<close>, which no caller catches.
\<close>

theorem handshake_negative_length_throws:
  assumes "v < 10" and "\<forall>w \<in> set caps. cap_word w" and "0 < n"
    and "int (length (negative_url v caps n tail) + n) \<le> e" and "e < 2 ^ 63"
  shows "ParseSubversionHds e (Some (negative_url v caps n tail)) empty_hds = Inl LengthError"
  using assms by (rule handshake_negative)

theorem handshake_negative_length_throws_witness:
  "ParseSubversionHds 4096 (Some (negative_url 2 [''depth''] 5 ''svn:// )'')) empty_hds = Inl LengthError"
  by (rule handshake_negative_length_throws)
    (simp_all add: cap_word_def plain_def negative_url_def wire_words_def show_nat.simps)

text \<open>
  The return codes. A parse that returns gives 0, 1 or 2; it gives 0 only with a
  URL, and every other code comes with an error text.
\<close>

theorem handshake_codes:
  assumes "ParseSubversionHds e buffer h = Inr (k, h')"
  shows "(k = 0 \<and> subversionURL h' \<noteq> [] \<and> lastError h' = lastError h) \<or>
    (k \<in> {1, 2} \<and> lastError h' \<noteq> [])"
  using assms
  by (auto simp: ParseSubversionHds_def dest!: hds_loop_return hds_loop_lastError
      split: option.splits if_splits parse_flow.splits)

theorem handshake_codes_witness:
  "ParseSubversionHds 4096 (Some ''(( ) '') empty_hds =
     Inr (2, empty_hds\<lparr>lastError := ''Parse Subversion Handsake failed, cannot resolve url !''\<rparr>) \<and>
   (2::int) \<in> {1, 2}"
proof -
  have "ParseSubversionHds 4096 (Some ''(( ) '') empty_hds =
     Inr (2, empty_hds\<lparr>lastError := ''Parse Subversion Handsake failed, cannot resolve url !''\<rparr>)"
    by (simp add: ParseSubversionHds_def hds_loop.simps hds_char_def empty_hds_def)
  with handshake_codes [OF this] show ?thesis by simp
qed

text \<open>
  What a parse stores is bounded by what it received: the capability words, the
  URL and the user agent together are no longer than the buffer (plus what the object
  held before).
\<close>

theorem handshake_size:
  assumes "ParseSubversionHds e (Some b) h = Inr (k, h')"
  shows "hds_size h' \<le> hds_size h + length b"
  using assms
  by (auto simp: ParseSubversionHds_def split: if_splits parse_flow.splits
      dest!: hds_loop_size [THEN conjunct1, THEN mp] hds_loop_size [THEN conjunct2, THEN mp])

theorem handshake_size_witness:
  "hds_size (empty_hds\<lparr>protocol := 2, subversionURL := ''svn''\<rparr>) \<le> hds_size empty_hds + length ''( 2 ( ) 3:svn )''"
proof -
  have "ParseSubversionHds 4096 (Some ''( 2 ( ) 3:svn )'') empty_hds =
    Inr (0, empty_hds\<lparr>protocol := 2, subversionURL := ''svn''\<rparr>)"
    by code_simp
  from handshake_size [OF this] show ?thesis .
qed

definition cut_url :: "nat \<Rightarrow> string list \<Rightarrow> nat \<Rightarrow> string \<Rightarrow> string" where
  "cut_url v caps n part =
     ''( '' @ [digit v] @ '' ( '' @ wire_words caps @ '') '' @ show_nat n @ CHR '':'' # part"

text \<open>
  C26: a truncated URL is refused. When the buffer ends before the byte after the
  announced URL, the parse returns 2 with the text for an URL count too long.
\<close>

theorem handshake_truncated_refused:
  assumes "v < 10" and "\<forall>w \<in> set caps. cap_word w" and "length part \<le> n" and "int n \<le> LONG_MAX"
    and "buffer_at e (cut_url v caps n part)"
  shows "ParseSubversionHds e (Some (cut_url v caps n part)) empty_hds =
    Inr (2, empty_hds\<lparr>protocol := of_nat v, mCapabilities := caps,
      lastError := ''Malformed Network data, URL string length mark too long !''\<rparr>)"
proof -
  have "counted_string e (show_nat n) (CHR '':'' # part) = Inr None"
    using assms(3-5) counted_string_nat [of e "CHR '':''" part "show_nat n" n]
    by (auto simp: buffer_at_def strtol_show_nat cut_url_def)
  then have "hds_loop e parse_start (cut_url v caps n part) =
    Return 2 (empty_hds\<lparr>protocol := of_nat v, mCapabilities := caps,
      lastError := ''Malformed Network data, URL string length mark too long !''\<rparr>)"
    unfolding cut_url_def
    using loop_prefix [OF assms(1,2) show_nat_count show_nat_nonempty, of e n "CHR '':'' # part"]
    by (simp add: hds_loop.simps(2) hds_char_def hds_url_def)
  then show ?thesis
    by (subst ParseSubversionHds_Some) (simp_all add: cut_url_def)
qed

theorem handshake_truncated_refused_witness:
  "ParseSubversionHds 4096 (Some (cut_url 2 [''depth''] 9 ''svn://h'')) empty_hds =
    Inr (2, empty_hds\<lparr>protocol := of_nat 2, mCapabilities := [''depth''],
      lastError := ''Malformed Network data, URL string length mark too long !''\<rparr>)"
  by (rule handshake_truncated_refused)
    (simp_all add: cap_word_def plain_def LONG_MAX_def buffer_at_def cut_url_def wire_words_def show_nat.simps)

text \<open>
  The machine only goes forward. Along any run of the loop the state never returns to
  an earlier one and the pointer only moves towards the end of the buffer.
\<close>

theorem handshake_forward:
  assumes "(hds_step e)\<^sup>*\<^sup>* (s, p) (s', p')"
  shows "status s \<le> status s' \<and> (\<exists>k. p' = drop k p)"
  using assms by (rule hds_steps_forward)

theorem handshake_forward_witness:
  "kParseReset \<le> status (url_parsed 2 [] ''a'') \<and> (\<exists>k. ([]::string) = drop k ''( 2 ( ) 1:a )'')"
proof -
  have "hds_loop 64 parse_start ''( 2 ( ) 1:a )'' = Next (url_parsed 2 [] ''a''\<lparr>depth := 0\<rparr>) []"
    by code_simp
  from handshake_forward [OF conjunct1 [OF hds_loop_steps [OF this]]] show ?thesis
    by (simp add: parse_start_def)
qed

end
