(* ===== verification/Session.thy ===== *)
theory Session
  imports Handshake Router Klog
begin

section \<open>A proxied connection (\<open>SubversionSession.hpp\<close>, \<open>SubversionSession.cc\<close>)\<close>

text \<open>
  A session answers a client, reads its handshake, connects to the storage host the router
  chooses, passes the handshake on, and then relays in both directions. Every member
  function is a definition of the same name from the session and the logger to both and the
  calls it makes on the two sockets. An asynchronous call becomes an element of \<open>pending\<close>;
  \<open>complete\<close> lets one of them finish, with data or an error, and runs its handler, and
  \<open>session_step\<close> is the relation it gives.

  Boost.Asio is not under \<open>src\<close>; what the model takes of it is its documentation: a
  \<open>read_some\<close> stores between one byte and the size of the buffer, a \<open>write_some\<close> sends a
  non-empty beginning of the buffer, \<open>async_write\<close> all of it or fails; the buffer is not copied, and
  its contents count until the handler runs; each operation calls its handler once.

  The properties: the text of an error message, the exclusive use of the two buffers, the
  relay of both streams without loss, reordering or duplication, what an established session
  has passed on, and where a handler faults.
\<close>

subsection \<open>Data\<close>

datatype peer = Client | Storage

datatype which_buffer = buffer | clt_buffer

text \<open>What a write refers to: the first bytes of a member buffer, or a local array.\<close>

datatype source = InBuffer which_buffer nat | LocalArray string

datatype handler =
    Echo_downstream_handshake
  | Read_downstream_handshake
  | Async_connect_upstream
  | Read_upstream_handshake
  | Echo_upstream_handshake
  | Upstream_read
  | Downstream_write
  | Downstream_read
  | Upstream_write
  | Error_sent

datatype operation =
    ReadSome peer which_buffer handler
  | WriteSome peer source handler
  | WriteAll peer source handler
  | Connect string u16 handler

datatype asio_call = Begin operation | NoDelay peer | CancelOn peer | ShutdownBoth peer | CloseSocket peer

definition kDefaultBufferSize :: nat where
  "kDefaultBufferSize = 32 * 1024"

text \<open>The members; \<open>buffer_bytes\<close> and \<open>clt_bytes\<close> hold \<open>buffer_\<close> and \<open>clt_buffer_\<close>.\<close>

record session =
  node :: StorageElement
  client_hds :: SubversionHds
  handshakeSize :: nat
  buffer_bytes :: string
  clt_bytes :: string

text \<open>
  What the handlers use and do not change: the router, \<open>address::from_string\<close>, the address of
  \<open>clt_buffer_\<close>, the clock, the process and thread, \<open>fopen\<close>, and what \<open>%S\<close> makes of a
  \<open>const char *\<close> (undefined in C; the text or fault a C library gives). \<open>set_option\<close> and \<open>cancel\<close> are called in the form that throws
  when they fail; \<open>no_delay_ok\<close> and \<open>cancel_ok\<close> say whether they succeed.
\<close>

record environment =
  router_state :: RouterSeletor
  from_string :: "string \<Rightarrow> bool"
  clt_address :: int
  can_open :: "string \<Rightarrow> bool"
  now :: tm
  process_id :: int
  thread_id :: nat
  wide_text :: "string \<Rightarrow> string eff"
  no_delay_ok :: bool
  cancel_ok :: "peer \<Rightarrow> bool"

type_synonym outcome = "(session \<times> Klogger \<times> asio_call list) eff"

definition Log :: "environment \<Rightarrow> string \<Rightarrow> Klogger \<Rightarrow> Klogger eff" where
  "Log env msg k = log (can_open env) (now env) (process_id env) (thread_id env) kError msg k"

subsection \<open>The member functions\<close>

definition greeting :: string where
  "greeting = ''( success ( 2 2 ( ) ( edit-pipeline svndiff1 absent-entries '' @
     ''depth inherited-props log-revprops ) ) ) ''"

definition start :: "environment \<Rightarrow> session \<Rightarrow> Klogger \<Rightarrow> outcome" where
  "start env s k =
     (if \<not> no_delay_ok env then Inl SystemError
      else Inr (s, k, [NoDelay Client, Begin (WriteSome Client (LocalArray greeting) Echo_downstream_handshake)]))"

text \<open>\<open>cancel()\<close> on one of the two sockets, as the last thing a handler does.\<close>

definition cancel :: "environment \<Rightarrow> peer \<Rightarrow> session \<Rightarrow> Klogger \<Rightarrow> outcome" where
  "cancel env p s k = (if cancel_ok env p then Inr (s, k, [CancelOn p]) else Inl SystemError)"

definition stop :: "bool \<Rightarrow> bool \<Rightarrow> session \<Rightarrow> Klogger \<Rightarrow> outcome" where
  "stop socket_is_open backend_is_open s k = Inr (s, k,
     (if socket_is_open then [ShutdownBoth Client, CloseSocket Client] else []) @
     (if backend_is_open then [ShutdownBoth Storage, CloseSocket Storage] else []))"

definition error_text :: "int \<Rightarrow> u32 \<Rightarrow> string \<Rightarrow> string" where
  "error_text eid len msg =
     ''( failure ( ( '' @ show_int eid @ '' '' @ show_nat (unat len) @ '':'' @ c_str msg @ '' 0: 0 ) ) ) ''"

definition sendError :: "int \<Rightarrow> string \<Rightarrow> u32 \<Rightarrow> session \<Rightarrow> Klogger \<Rightarrow> outcome" where
  "sendError eid msg len s k =
     (let text = error_text eid len msg;
          stored = snprintf_text (unat (len + 64)) text @ [nul];
          ml = length text
      in if kDefaultBufferSize < length stored then Inl OutOfBounds
         else Inr (s\<lparr>buffer_bytes := stored @ drop (length stored) (buffer_bytes s)\<rparr>, k,
                   [Begin (WriteSome Client (InBuffer buffer (min ml kDefaultBufferSize)) Error_sent)]))"

text \<open>The lambda that completes \<open>sendError\<close>.\<close>

definition error_sent :: "bool \<Rightarrow> session \<Rightarrow> Klogger \<Rightarrow> outcome" where
  "error_sent e s k = Inr (s, k, if \<not> e then [ShutdownBoth Client] else [])"

definition echo_downstream_handshake :: "environment \<Rightarrow> bool \<Rightarrow> session \<Rightarrow> Klogger \<Rightarrow> outcome" where
  "echo_downstream_handshake env e s k =
     (if \<not> e then Inr (s, k, [Begin (ReadSome Client clt_buffer Read_downstream_handshake)]) else cancel env Client s k)"

definition read_downstream_handshake :: "environment \<Rightarrow> bool \<Rightarrow> nat \<Rightarrow> session \<Rightarrow> Klogger \<Rightarrow> outcome" where
  "read_downstream_handshake env e bytes_transferred s k =
     (if \<not> e then
        andThen (ParseSubversionHds (clt_address env + int bytes_transferred)
                   (Some (take bytes_transferred (clt_bytes s))) (client_hds s)) (\<lambda>(code, h).
        let s1 = s\<lparr>handshakeSize := bytes_transferred, client_hds := h\<rparr>
        in if code \<noteq> 0 then sendError 210004 (lastError h) (of_nat (length (lastError h))) s1 k
           else
             (case SubversionUriCanonicalize (subversionURL h) empty_url of (code2, svnurl) \<Rightarrow>
                if code2 \<noteq> 0 then sendError 210004 (lastError h) (of_nat (length (lastError h))) s1 k
                else
                  (case GetStorageElement (router_state env) svnurl (node s1) of (found, n) \<Rightarrow>
                     let s2 = s1\<lparr>node := n\<rparr>
                     in if \<not> found \<or> elem_address n = [] then
                          andThen (Log env (''Cannot found Storage machine address, URL:'' @ c_str (subversionURL h)) k) (\<lambda>k1.
                            sendError 200042 ''Cannot found Storage machine address '' 37 s2 k1)
                        else
                          andThen (access (can_open env) (now env)
                             (''Storage: '' @ c_str (elem_address n) @ '' | URL: '' @ c_str (subversionURL h) @ '' '') k) (\<lambda>k1.
                            if \<not> from_string env (elem_address n) then
                              sendError 200042 ''Error upstream Address !'' 24 s2 k1
                            else
                              Inr (s2, k1, [Begin (Connect (elem_address n) (elem_port n) Async_connect_upstream)])))))
      else
        andThen (Log env ''Read downstrean handshake message failure !'' k) (\<lambda>k1. cancel env Client s k1))"

definition async_connect_upstream :: "environment \<Rightarrow> bool \<Rightarrow> session \<Rightarrow> Klogger \<Rightarrow> outcome" where
  "async_connect_upstream env e s k =
     (if \<not> e then Inr (s, k, [Begin (ReadSome Storage buffer Read_upstream_handshake)])
      else
        andThen (Log env (''Storage server is not available ,Address: '' @ c_str (elem_address (node s))) k) (\<lambda>k1.
          sendError 200042 ''Storage server is not available'' 31 s k1))"

definition read_upstream_handshake :: "environment \<Rightarrow> bool \<Rightarrow> session \<Rightarrow> Klogger \<Rightarrow> outcome" where
  "read_upstream_handshake env e s k =
     (if \<not> e then
        Inr (s, k, [Begin (WriteSome Storage (InBuffer clt_buffer (handshakeSize s)) Echo_upstream_handshake)])
      else
        andThen (wide_text env (subversionURL (client_hds s))) (\<lambda>wide.
        andThen (Log env (''Cannot read storage ,URL: '' @ wide @ '' ,Address: '' @ c_str (elem_address (node s))) k) (\<lambda>k1.
          sendError 200042 ''Storage server is not available'' 31 s k1)))"

definition echo_upstream_handshake :: "environment \<Rightarrow> bool \<Rightarrow> session \<Rightarrow> Klogger \<Rightarrow> outcome" where
  "echo_upstream_handshake env e s k =
     (if \<not> e then
        Inr (s, k, [Begin (ReadSome Storage buffer Upstream_read), Begin (ReadSome Client clt_buffer Downstream_read)])
      else
        andThen (Log env (''Echo handshake to storage failure ,URL: '' @ c_str (subversionURL (client_hds s)) @
            '', Storage: '' @ c_str (elem_address (node s))) k) (\<lambda>k1.
        andThen (cancel env Storage s k1) (\<lambda>(s1, k2, cs).
        andThen (sendError 200042 ''Echo handshake to storage failure'' 33 s1 k2) (\<lambda>(s2, k3, cs2).
          Inr (s2, k3, cs @ cs2)))))"

definition upstream_read :: "environment \<Rightarrow> bool \<Rightarrow> nat \<Rightarrow> session \<Rightarrow> Klogger \<Rightarrow> outcome" where
  "upstream_read env e bytes_transferred s k =
     (if \<not> e then Inr (s, k, [Begin (WriteAll Client (InBuffer buffer bytes_transferred) Downstream_write)]) else cancel env Client s k)"

definition downstream_write :: "bool \<Rightarrow> session \<Rightarrow> Klogger \<Rightarrow> outcome" where
  "downstream_write e s k = Inr (s, k, if \<not> e then [Begin (ReadSome Storage buffer Upstream_read)] else [])"

definition downstream_read :: "environment \<Rightarrow> bool \<Rightarrow> nat \<Rightarrow> session \<Rightarrow> Klogger \<Rightarrow> outcome" where
  "downstream_read env e bytes_transferred s k =
     (if \<not> e then Inr (s, k, [Begin (WriteAll Storage (InBuffer clt_buffer bytes_transferred) Upstream_write)]) else cancel env Storage s k)"

definition upstream_write :: "bool \<Rightarrow> session \<Rightarrow> Klogger \<Rightarrow> outcome" where
  "upstream_write e s k = Inr (s, k, if \<not> e then [Begin (ReadSome Client clt_buffer Downstream_read)] else [])"

fun run_handler :: "environment \<Rightarrow> handler \<Rightarrow> bool \<Rightarrow> nat \<Rightarrow> session \<Rightarrow> Klogger \<Rightarrow> outcome" where
  "run_handler env Echo_downstream_handshake e n = echo_downstream_handshake env e"
| "run_handler env Read_downstream_handshake e n = read_downstream_handshake env e n"
| "run_handler env Async_connect_upstream e n = async_connect_upstream env e"
| "run_handler env Read_upstream_handshake e n = read_upstream_handshake env e"
| "run_handler env Echo_upstream_handshake e n = echo_upstream_handshake env e"
| "run_handler env Upstream_read e n = upstream_read env e n"
| "run_handler env Downstream_write e n = downstream_write e"
| "run_handler env Downstream_read e n = downstream_read env e n"
| "run_handler env Upstream_write e n = upstream_write e"
| "run_handler env Error_sent e n = error_sent e"

subsection \<open>Asynchronous completion\<close>

text \<open>
  How an operation ends. \<open>Received\<close> and \<open>Sent\<close> carry the bytes moved; a failed write carries
  the bytes that had been sent before the error.
\<close>

datatype ending = Received string | Sent string | Connected | Failed string

record world =
  sess :: session
  klog :: Klogger
  pending :: "operation list"
  moved :: "(handler \<times> string) list"
  effects :: "asio_call list"

fun buffer_of :: "session \<Rightarrow> which_buffer \<Rightarrow> string" where
  "buffer_of s buffer = buffer_bytes s"
| "buffer_of s clt_buffer = clt_bytes s"

fun store :: "which_buffer \<Rightarrow> string \<Rightarrow> session \<Rightarrow> session" where
  "store buffer d s = s\<lparr>buffer_bytes := d @ drop (length d) (buffer_bytes s)\<rparr>"
| "store clt_buffer d s = s\<lparr>clt_bytes := d @ drop (length d) (clt_bytes s)\<rparr>"

fun op_handler :: "operation \<Rightarrow> handler" where
  "op_handler (ReadSome p b h) = h"
| "op_handler (WriteSome p src h) = h"
| "op_handler (WriteAll p src h) = h"
| "op_handler (Connect a n h) = h"

fun source_length :: "source \<Rightarrow> nat" where
  "source_length (InBuffer b n) = n"
| "source_length (LocalArray d) = length d"

text \<open>
  Which bytes a write may put on the wire: a beginning of its source. The local array of
  \<open>start\<close> is gone when the handler runs, so nothing is known of bytes sent from it.
\<close>

fun transmits :: "session \<Rightarrow> source \<Rightarrow> string \<Rightarrow> bool" where
  "transmits s (InBuffer b n) d \<longleftrightarrow> length d \<le> n \<and> d = take (length d) (buffer_of s b)"
| "transmits s (LocalArray a) d \<longleftrightarrow> length d \<le> length a"

fun allowed :: "session \<Rightarrow> operation \<Rightarrow> ending \<Rightarrow> bool" where
  "allowed s (ReadSome p b h) (Received d) \<longleftrightarrow> d \<noteq> [] \<and> length d \<le> kDefaultBufferSize"
| "allowed s (ReadSome p b h) (Failed d) \<longleftrightarrow> d = []"
| "allowed s (WriteSome p src h) (Sent d) \<longleftrightarrow> transmits s src d \<and> (d \<noteq> [] \<or> source_length src = 0)"
| "allowed s (WriteSome p src h) (Failed d) \<longleftrightarrow> d = []"
| "allowed s (WriteAll p src h) (Sent d) \<longleftrightarrow> transmits s src d \<and> length d = source_length src"
| "allowed s (WriteAll p src h) (Failed d) \<longleftrightarrow> transmits s src d"
| "allowed s (Connect a n h) Connected \<longleftrightarrow> True"
| "allowed s (Connect a n h) (Failed d) \<longleftrightarrow> d = []"
| "allowed s _ _ \<longleftrightarrow> False"

fun ending_bytes :: "ending \<Rightarrow> string" where
  "ending_bytes (Received d) = d"
| "ending_bytes (Sent d) = d"
| "ending_bytes Connected = []"
| "ending_bytes (Failed d) = d"

fun failed :: "ending \<Rightarrow> bool" where
  "failed (Failed d) = True"
| "failed _ = False"

fun arrive :: "operation \<Rightarrow> ending \<Rightarrow> session \<Rightarrow> session" where
  "arrive (ReadSome p b h) (Received d) s = store b d s"
| "arrive _ _ s = s"

definition begun :: "asio_call list \<Rightarrow> operation list" where
  "begun cs = concat (map (\<lambda>c. case c of Begin o' \<Rightarrow> [o'] | _ \<Rightarrow> []) cs)"

definition complete :: "environment \<Rightarrow> nat \<Rightarrow> ending \<Rightarrow> world \<Rightarrow> world eff" where
  "complete env i r w =
     (let o' = pending w ! i in
      andThen (run_handler env (op_handler o') (failed r) (length (ending_bytes r)) (arrive o' r (sess w)) (klog w))
        (\<lambda>(s, k, cs). Inr \<lparr>sess = s, klog = k,
           pending = take i (pending w) @ drop (Suc i) (pending w) @ begun cs,
           moved = moved w @ [(op_handler o', ending_bytes r)], effects = effects w @ cs\<rparr>))"

definition new_session :: session where
  "new_session = \<lparr>node = \<lparr>elem_port = 0, elem_address = []\<rparr>, client_hds = empty_hds, handshakeSize = 0,
     buffer_bytes = replicate kDefaultBufferSize nul, clt_bytes = replicate kDefaultBufferSize nul\<rparr>"

definition started :: "Klogger \<Rightarrow> world" where
  "started k = \<lparr>sess = new_session, klog = k,
     pending = [WriteSome Client (LocalArray greeting) Echo_downstream_handshake], moved = [],
     effects = [NoDelay Client, Begin (WriteSome Client (LocalArray greeting) Echo_downstream_handshake)]\<rparr>"

text \<open>What the session is when \<open>start\<close> has returned.\<close>

definition launch :: "environment \<Rightarrow> Klogger \<Rightarrow> world eff" where
  "launch env k = andThen (start env new_session k) (\<lambda>(s, k1, cs). Inr
     \<lparr>sess = s, klog = k1, pending = begun cs, moved = [], effects = cs\<rparr>)"

lemma launch_started: "launch env k = (if no_delay_ok env then Inr (started k) else Inl SystemError)"
  by (simp add: launch_def start_def started_def begun_def)

inductive session_step :: "environment \<Rightarrow> world \<Rightarrow> world \<Rightarrow> bool" for env where
  step: "i < length (pending w) \<Longrightarrow> allowed (sess w) (pending w ! i) r \<Longrightarrow> complete env i r w = Inr w' \<Longrightarrow>
     session_step env w w'"

inductive_cases session_stepE: "session_step env w w'"

inductive reachable :: "environment \<Rightarrow> world \<Rightarrow> bool" for env where
  reach_start: "launch env k = Inr w \<Longrightarrow> reachable env w"
| reach_step: "reachable env w \<Longrightarrow> session_step env w w' \<Longrightarrow> reachable env w'"

text \<open>The bytes moved by the operations that complete with a given handler.\<close>

definition moved_by :: "handler \<Rightarrow> world \<Rightarrow> string" where
  "moved_by h w = concat (map snd (filter (\<lambda>m. fst m = h) (moved w)))"

subsection \<open>Error messages\<close>

lemma length_show_int: "0 \<le> i \<Longrightarrow> i < 10 ^ k \<Longrightarrow> 0 < k \<Longrightarrow> length (show_int i) \<le> k"
  using length_show_nat [of "nat i" k] by (simp add: show_int_def nat_less_iff)

text \<open>Every message the code sends has a six-digit code and fits the buffer.\<close>

lemma error_text_length:
  assumes "0 \<le> eid" "eid < 1000000"
  shows "length (error_text eid len msg) \<le> length (c_str msg) + 49"
proof -
  have "length (show_int eid) \<le> 6" using assms length_show_int [of eid 6] by simp
  moreover have "unat len < 10 ^ 10"
    using unsigned_less [of len, where ?'a = nat] by (rule less_trans) simp
  then have "length (show_nat (unat len)) \<le> 10" by (rule length_show_nat) simp
  ultimately show ?thesis by (simp add: error_text_def)
qed

lemma sendError_fits:
  assumes "0 \<le> eid" "eid < 1000000" "nul \<notin> set msg" "length msg \<le> 32000" "len = of_nat (length msg)"
  shows "sendError eid msg len s k =
    Inr (s\<lparr>buffer_bytes := error_text eid len msg @ nul # drop (Suc (length (error_text eid len msg))) (buffer_bytes s)\<rparr>, k,
      [Begin (WriteSome Client (InBuffer buffer (length (error_text eid len msg))) Error_sent)])"
proof -
  have l: "length (error_text eid len msg) \<le> length msg + 49"
    using error_text_length [OF assms(1,2), of len msg] by (simp add: c_str_id assms(3))
  have "unat (len + 64) = length msg + 64"
    using assms(4) by (simp add: assms(5) unat_word_ariths unat_of_nat)
  then have "snprintf_text (unat (len + 64)) (error_text eid len msg) = error_text eid len msg"
    using l by (simp add: snprintf_text_def)
  then show ?thesis
    using l assms(4) by (simp add: sendError_def Let_def kDefaultBufferSize_def)
qed

subsection \<open>What the handlers begin\<close>

definition to_client_error :: "operation list \<Rightarrow> bool" where
  "to_client_error os \<longleftrightarrow> (\<exists>n. os = [WriteSome Client (InBuffer buffer n) Error_sent])"

lemma begun_simps [simp]:
  "begun [] = []" "begun (Begin o' # cs) = o' # begun cs" "begun (NoDelay p # cs) = begun cs"
  "begun (CancelOn p # cs) = begun cs" "begun (ShutdownBoth p # cs) = begun cs" "begun (CloseSocket p # cs) = begun cs"
  by (simp_all add: begun_def)

lemma cancel_begins: "cancel env p s k = Inr (s', k', cs) \<Longrightarrow> s' = s \<and> k' = k \<and> cs = [CancelOn p]"
  by (auto simp: cancel_def split: if_splits)

lemma sendError_begins:
  "sendError eid msg len s k = Inr (s', k', cs) \<Longrightarrow>
     to_client_error (begun cs) \<and> clt_bytes s' = clt_bytes s \<and> handshakeSize s' = handshakeSize s \<and> node s' = node s \<and>
     (length (buffer_bytes s) = kDefaultBufferSize \<longrightarrow> length (buffer_bytes s') = kDefaultBufferSize)"
  by (auto simp: sendError_def Let_def to_client_error_def split: if_splits)

lemma read_downstream_handshake_begins:
  assumes "read_downstream_handshake env e n s k = Inr (s', k', cs)"
  shows "clt_bytes s' = clt_bytes s"
    and "length (buffer_bytes s) = kDefaultBufferSize \<Longrightarrow> length (buffer_bytes s') = kDefaultBufferSize" and "\<not> e \<Longrightarrow> handshakeSize s' = n"
    and "begun cs = [] \<or> to_client_error (begun cs) \<or>
       \<not> e \<and> begun cs = [Connect (elem_address (node s')) (elem_port (node s')) Async_connect_upstream]"
  using assms
  by (auto simp: read_downstream_handshake_def andThen_eq_Inr Let_def split: if_splits prod.splits
      dest!: sendError_begins cancel_begins)

lemma async_connect_upstream_begins:
  assumes "async_connect_upstream env e s k = Inr (s', k', cs)"
  shows "clt_bytes s' = clt_bytes s"
    and "length (buffer_bytes s) = kDefaultBufferSize \<Longrightarrow> length (buffer_bytes s') = kDefaultBufferSize" and "handshakeSize s' = handshakeSize s"
    and "to_client_error (begun cs) \<or> begun cs = [ReadSome Storage buffer Read_upstream_handshake]"
  using assms
  by (auto simp: async_connect_upstream_def andThen_eq_Inr split: if_splits dest!: sendError_begins)

lemma read_upstream_handshake_begins:
  assumes "read_upstream_handshake env e s k = Inr (s', k', cs)"
  shows "clt_bytes s' = clt_bytes s"
    and "length (buffer_bytes s) = kDefaultBufferSize \<Longrightarrow> length (buffer_bytes s') = kDefaultBufferSize" and "handshakeSize s' = handshakeSize s"
    and "to_client_error (begun cs) \<or>
       begun cs = [WriteSome Storage (InBuffer clt_buffer (handshakeSize s)) Echo_upstream_handshake]"
  using assms
  by (auto simp: read_upstream_handshake_def andThen_eq_Inr split: if_splits dest!: sendError_begins)

lemma echo_upstream_handshake_begins:
  assumes "echo_upstream_handshake env e s k = Inr (s', k', cs)"
  shows "clt_bytes s' = clt_bytes s"
    and "length (buffer_bytes s) = kDefaultBufferSize \<Longrightarrow> length (buffer_bytes s') = kDefaultBufferSize"
    and "to_client_error (begun cs) \<or>
     s' = s \<and> begun cs = [ReadSome Storage buffer Upstream_read, ReadSome Client clt_buffer Downstream_read]"
  using assms
  by (auto simp: echo_upstream_handshake_def andThen_eq_Inr split: if_splits dest!: sendError_begins cancel_begins)

lemmas handlers_begin = read_downstream_handshake_begins async_connect_upstream_begins
  read_upstream_handshake_begins echo_upstream_handshake_begins

subsection \<open>The invariant of a session\<close>

definition relay_handler :: "handler \<Rightarrow> bool" where
  "relay_handler h \<longleftrightarrow> h \<in> {Upstream_read, Downstream_write, Downstream_read, Upstream_write}"

text \<open>Before the relay: one operation at a time, and what has come from the client by then.\<close>

fun handshake_op :: "operation \<Rightarrow> world \<Rightarrow> bool" where
  "handshake_op (WriteSome p src h) w \<longleftrightarrow>
     (p = Client \<and> src = LocalArray greeting \<and> h = Echo_downstream_handshake \<and> moved w = []) \<or>
     (p = Client \<and> h = Error_sent \<and> (\<exists>n. src = InBuffer buffer n)) \<or>
     (p = Storage \<and> src = InBuffer clt_buffer (handshakeSize (sess w)) \<and> h = Echo_upstream_handshake \<and>
       moved_by Read_downstream_handshake w = take (handshakeSize (sess w)) (clt_bytes (sess w)) \<and>
       moved_by Echo_upstream_handshake w = [])"
| "handshake_op (ReadSome p b h) w \<longleftrightarrow>
     (p = Client \<and> b = clt_buffer \<and> h = Read_downstream_handshake \<and>
       moved_by Read_downstream_handshake w = [] \<and> moved_by Echo_upstream_handshake w = []) \<or>
     (p = Storage \<and> b = buffer \<and> h = Read_upstream_handshake \<and>
       moved_by Read_downstream_handshake w = take (handshakeSize (sess w)) (clt_bytes (sess w)) \<and>
       moved_by Echo_upstream_handshake w = [])"
| "handshake_op (Connect a n h) w \<longleftrightarrow> h = Async_connect_upstream \<and> a = elem_address (node (sess w)) \<and> n = elem_port (node (sess w)) \<and>
       moved_by Read_downstream_handshake w = take (handshakeSize (sess w)) (clt_bytes (sess w)) \<and>
       moved_by Echo_upstream_handshake w = []"
| "handshake_op (WriteAll p src h) w \<longleftrightarrow> False"

text \<open>One direction of the relay: at most one operation, and where the bytes read are.\<close>

definition of_direction :: "handler \<Rightarrow> handler \<Rightarrow> operation list \<Rightarrow> operation list" where
  "of_direction rh wh ops = filter (\<lambda>o'. op_handler o' = rh \<or> op_handler o' = wh) ops"

definition relays :: "which_buffer \<Rightarrow> peer \<Rightarrow> handler \<Rightarrow> peer \<Rightarrow> handler \<Rightarrow> operation list \<Rightarrow> string \<Rightarrow> string \<Rightarrow> string \<Rightarrow> bool" where
  "relays b src rh dst wh ops bytes got put \<longleftrightarrow>
     (ops = [] \<and> (\<exists>rest. got = put @ rest)) \<or>
     (ops = [ReadSome src b rh] \<and> got = put) \<or>
     (\<exists>n. ops = [WriteAll dst (InBuffer b n) wh] \<and> n \<le> length bytes \<and> got = put @ take n bytes)"

definition direction :: "which_buffer \<Rightarrow> peer \<Rightarrow> handler \<Rightarrow> peer \<Rightarrow> handler \<Rightarrow> world \<Rightarrow> bool" where
  "direction b src rh dst wh w \<longleftrightarrow> relays b src rh dst wh (of_direction rh wh (pending w))
     (buffer_of (sess w) b) (moved_by rh w) (moved_by wh w)"

abbreviation downstream :: "world \<Rightarrow> bool" where
  "downstream \<equiv> direction buffer Storage Upstream_read Client Downstream_write"

abbreviation upstream :: "world \<Rightarrow> bool" where
  "upstream \<equiv> direction clt_buffer Client Downstream_read Storage Upstream_write"

definition silent :: "world \<Rightarrow> bool" where
  "silent w \<longleftrightarrow> (\<forall>h. relay_handler h \<longrightarrow> moved_by h w = [])"

definition session_inv :: "world \<Rightarrow> bool" where
  "session_inv w \<longleftrightarrow>
     length (buffer_bytes (sess w)) = kDefaultBufferSize \<and> length (clt_bytes (sess w)) = kDefaultBufferSize \<and>
     (\<exists>rest. moved_by Read_downstream_handshake w = moved_by Echo_upstream_handshake w @ rest) \<and>
     (silent w \<and> (pending w = [] \<or> (\<exists>o'. pending w = [o'] \<and> handshake_op o' w)) \<or>
      (\<forall>o' \<in> set (pending w). relay_handler (op_handler o')) \<and> downstream w \<and> upstream w)"

lemma session_inv_started: "session_inv (started k)"
  by (simp add: session_inv_def started_def new_session_def silent_def moved_by_def)

lemma moved_by_complete:
  "complete env i r w = Inr w' \<Longrightarrow>
     moved_by h w' = moved_by h w @ (if op_handler (pending w ! i) = h then ending_bytes r else [])"
  by (auto simp: complete_def andThen_eq_Inr Let_def moved_by_def)

lemma silent_complete:
  "silent w \<Longrightarrow> complete env i r w = Inr w' \<Longrightarrow> \<not> relay_handler (op_handler (pending w ! i)) \<Longrightarrow> silent w'"
  by (auto simp: silent_def moved_by_complete)

text \<open>A handshake operation completes: the state after it, by its handler.\<close>

lemma complete_single:
  assumes "pending w = [o']" "complete env 0 r w = Inr w'"
  obtains s k cs where
    "run_handler env (op_handler o') (failed r) (length (ending_bytes r)) (arrive o' r (sess w)) (klog w) = Inr (s, k, cs)"
    "sess w' = s" "pending w' = begun cs"
  using assms by (auto simp: complete_def andThen_eq_Inr Let_def)

lemma session_inv_intro:
  assumes "silent w" "length (buffer_bytes (sess w)) = kDefaultBufferSize" "length (clt_bytes (sess w)) = kDefaultBufferSize"
    and "\<exists>rest. moved_by Read_downstream_handshake w = moved_by Echo_upstream_handshake w @ rest"
    and "pending w = [] \<or> to_client_error (pending w) \<or> (\<exists>o'. pending w = [o'] \<and> handshake_op o' w) \<or>
      pending w = [ReadSome Storage buffer Upstream_read, ReadSome Client clt_buffer Downstream_read]"
  shows "session_inv w"
  using assms(5)
proof (elim disjE)
  assume "pending w = [ReadSome Storage buffer Upstream_read, ReadSome Client clt_buffer Downstream_read]"
  then show ?thesis
    using assms(1-4) by (simp add: session_inv_def direction_def relays_def of_direction_def relay_handler_def silent_def)
qed (use assms(1-4) in \<open>auto simp: session_inv_def to_client_error_def\<close>)

lemma handshake_op_cases:
  assumes "handshake_op o' w"
  obtains
    (greet) "o' = WriteSome Client (LocalArray greeting) Echo_downstream_handshake" "moved w = []"
  | (read) "o' = ReadSome Client clt_buffer Read_downstream_handshake"
      "moved_by Read_downstream_handshake w = []" "moved_by Echo_upstream_handshake w = []"
  | (connect) a n where "o' = Connect a n Async_connect_upstream"
      "moved_by Read_downstream_handshake w = take (handshakeSize (sess w)) (clt_bytes (sess w))"
      "moved_by Echo_upstream_handshake w = []"
  | (storage) "o' = ReadSome Storage buffer Read_upstream_handshake"
      "moved_by Read_downstream_handshake w = take (handshakeSize (sess w)) (clt_bytes (sess w))"
      "moved_by Echo_upstream_handshake w = []"
  | (forward) "o' = WriteSome Storage (InBuffer clt_buffer (handshakeSize (sess w))) Echo_upstream_handshake"
      "moved_by Read_downstream_handshake w = take (handshakeSize (sess w)) (clt_bytes (sess w))"
      "moved_by Echo_upstream_handshake w = []"
  | (error) n where "o' = WriteSome Client (InBuffer buffer n) Error_sent"
  using assms by (cases o') auto

lemma take_prefix: "k \<le> n \<Longrightarrow> \<exists>rest. take n xs = take k xs @ rest"
  by (metis append_take_drop_id min.absorb1 take_take)

lemma store_length:
  "length d \<le> length (buffer_bytes s) \<Longrightarrow> length (buffer_bytes (store b d s)) = length (buffer_bytes s)"
  "length d \<le> length (clt_bytes s) \<Longrightarrow> length (clt_bytes (store b d s)) = length (clt_bytes s)"
  by (cases b; simp)+

lemma arrive_length:
  assumes "length (buffer_bytes s) = kDefaultBufferSize" "length (clt_bytes s) = kDefaultBufferSize" "allowed s o' r"
  shows "length (buffer_bytes (arrive o' r s)) = kDefaultBufferSize" "length (clt_bytes (arrive o' r s)) = kDefaultBufferSize"
  using assms by (induction o' r s rule: arrive.induct) (simp_all add: store_length)

lemma complete_handshake:
  assumes "session_inv w" "pending w = [o']" "handshake_op o' w" "silent w"
    and ok: "allowed (sess w) o' r" and c: "complete env 0 r w = Inr w'"
  shows "session_inv w'"
proof -
  have len: "length (buffer_bytes (sess w)) = kDefaultBufferSize" "length (clt_bytes (sess w)) = kDefaultBufferSize"
    and fwd: "\<exists>rest. moved_by Read_downstream_handshake w = moved_by Echo_upstream_handshake w @ rest"
    using assms(1) by (simp_all add: session_inv_def)
  have "\<not> relay_handler (op_handler o')" using assms(3) by (cases o') (auto simp: relay_handler_def)
  then have sil: "silent w'" using silent_complete [OF assms(4) c] assms(2) by simp
  have mv: "moved_by h w' = moved_by h w @ (if op_handler o' = h then ending_bytes r else [])" for h
    using moved_by_complete [OF c] assms(2) by simp
  obtain s k cs where
    run: "run_handler env (op_handler o') (failed r) (length (ending_bytes r)) (arrive o' r (sess w)) (klog w) = Inr (s, k, cs)"
    and w': "sess w' = s" "pending w' = begun cs"
    using complete_single [OF assms(2) c] .
  note arr = arrive_length [OF len ok]
  from assms(3) show ?thesis
  proof (cases rule: handshake_op_cases)
    case greet
    have "sess w' = sess w" and
      p: "pending w' = [] \<or> pending w' = [ReadSome Client clt_buffer Read_downstream_handshake]"
      using run w' greet(1) by (auto simp: echo_downstream_handshake_def split: if_splits dest!: cancel_begins)
    moreover have "moved_by Read_downstream_handshake w' = []" "moved_by Echo_upstream_handshake w' = []"
      using mv greet by (simp_all add: moved_by_def)
    ultimately show ?thesis using sil len by (intro session_inv_intro) auto
  next
    case read
    then have up: "moved_by Echo_upstream_handshake w' = []" using mv by simp
    have down: "moved_by Read_downstream_handshake w' = ending_bytes r" using mv read by simp
    have r: "read_downstream_handshake env (failed r) (length (ending_bytes r)) (arrive o' r (sess w)) (klog w) = Inr (s, k, cs)"
      using run read(1) by simp
    note b = read_downstream_handshake_begins [OF r]
    have "\<not> failed r \<Longrightarrow> ending_bytes r = take (handshakeSize s) (clt_bytes s)"
      using b(1,3) ok read(1) by (cases r) simp_all
    moreover have "pending w' = [] \<or> to_client_error (pending w') \<or>
        \<not> failed r \<and> pending w' = [Connect (elem_address (node s)) (elem_port (node s)) Async_connect_upstream]"
      using b(4) w' by simp
    ultimately show ?thesis
      using b(1,2) arr w' sil up down by (intro session_inv_intro) auto
  next
    case (connect a n)
    then have r: "async_connect_upstream env (failed r) (sess w) (klog w) = Inr (s, k, cs)"
      using run by simp
    note b = async_connect_upstream_begins [OF r]
    from b(4) w' show ?thesis
      using b(1-3) len sil mv connect by (intro session_inv_intro) auto
  next
    case storage
    then have r: "read_upstream_handshake env (failed r) (arrive o' r (sess w)) (klog w) = Inr (s, k, cs)"
      using run by simp
    note b = read_upstream_handshake_begins [OF r]
    have "clt_bytes (arrive o' r (sess w)) = clt_bytes (sess w)" "handshakeSize (arrive o' r (sess w)) = handshakeSize (sess w)"
      using storage(1) by (cases r; simp)+
    with b(4) w' show ?thesis
      using b(1-3) arr sil mv storage by (intro session_inv_intro) auto
  next
    case forward
    then have r: "echo_upstream_handshake env (failed r) (sess w) (klog w) = Inr (s, k, cs)"
      using run by simp
    note b = echo_upstream_handshake_begins [OF r]
    have "\<exists>rest. take (handshakeSize (sess w)) (clt_bytes (sess w)) = ending_bytes r @ rest"
      using ok forward(1) take_prefix [of "length (ending_bytes r)" "handshakeSize (sess w)" "clt_bytes (sess w)"]
      by (cases r) auto
    then have "\<exists>rest. moved_by Read_downstream_handshake w' = moved_by Echo_upstream_handshake w' @ rest"
      using mv forward by simp
    with b(3) w' show ?thesis
      using b(1,2) len sil by (intro session_inv_intro) auto
  next
    case (error n)
    have "sess w' = sess w" "pending w' = []"
      using run w' error by (auto simp: error_sent_def split: if_splits)
    then show ?thesis using sil len fwd mv error by (intro session_inv_intro) auto
  qed
qed

text \<open>A relay operation completes. Its direction has no other operation; the other one is untouched.\<close>

lemma direction_same:
  assumes "direction b src rh dst wh w"
    and "of_direction rh wh (pending w') = of_direction rh wh (pending w)"
    and "moved_by rh w' = moved_by rh w" "moved_by wh w' = moved_by wh w"
    and "buffer_of (sess w') b = buffer_of (sess w) b"
  shows "direction b src rh dst wh w'"
  using assms by (simp only: direction_def)

lemma of_direction_append [simp]: "of_direction rh wh (xs @ ys) = of_direction rh wh xs @ of_direction rh wh ys"
  by (simp add: of_direction_def)

lemma of_direction_Cons [simp]:
  "of_direction rh wh (o' # os) =
     (if op_handler o' = rh \<or> op_handler o' = wh then o' # of_direction rh wh os else of_direction rh wh os)"
  by (simp add: of_direction_def)

lemma of_direction_Nil [simp]: "of_direction rh wh [] = []"
  by (simp add: of_direction_def)

lemma direction_op:
  assumes "direction b src rh dst wh w" and "pending w = xs @ o' # ys"
    and "op_handler o' = rh \<or> op_handler o' = wh"
  obtains (reading) "of_direction rh wh xs = []" "of_direction rh wh ys = []"
      "o' = ReadSome src b rh" "moved_by rh w = moved_by wh w"
  | (writing) n where "of_direction rh wh xs = []" "of_direction rh wh ys = []"
      "o' = WriteAll dst (InBuffer b n) wh" "n \<le> length (buffer_of (sess w) b)"
      "moved_by rh w = moved_by wh w @ take n (buffer_of (sess w) b)"
proof -
  have "of_direction rh wh (pending w) = of_direction rh wh xs @ o' # of_direction rh wh ys"
    using assms(2,3) by simp
  then show ?thesis
    using assms(1) that unfolding direction_def relays_def
    by (cases "of_direction rh wh xs") auto
qed

text \<open>
  What a read and a write of one direction lead to: after a read its bytes are at the
  beginning of the buffer and a write of all of them is pending; after a write the next read is.
\<close>

lemma direction_after_read:
  assumes "moved_by rh w = moved_by wh w"
    and "of_direction rh wh (pending w') = (if failed r then [] else [WriteAll dst (InBuffer b (length d)) wh])"
    and "moved_by rh w' = moved_by rh w @ d" "moved_by wh w' = moved_by wh w"
    and "\<not> failed r \<Longrightarrow> take (length d) (buffer_of (sess w') b) = d"
  shows "direction b src rh dst wh w'"
proof (cases "failed r")
  case False
  then have "length d \<le> length (buffer_of (sess w') b)" using assms(5) by (metis length_take min_def nle_le)
  with False assms show ?thesis by (simp add: direction_def relays_def)
qed (use assms in \<open>simp add: direction_def relays_def\<close>)

lemma direction_after_write:
  assumes "moved_by rh w = moved_by wh w @ take n bytes" and "length d \<le> n" and "d = take (length d) bytes"
    and "\<not> failed r \<Longrightarrow> length d = n"
    and "of_direction rh wh (pending w') = (if failed r then [] else [ReadSome src b rh])"
    and "moved_by rh w' = moved_by rh w" "moved_by wh w' = moved_by wh w @ d"
  shows "direction b src rh dst wh w'"
proof (cases "failed r")
  case True
  have "\<exists>rest. take n bytes = d @ rest" using take_prefix [OF assms(2), of bytes] assms(3) by simp
  with True assms(1,5-7) show ?thesis by (simp add: direction_def relays_def)
next
  case False
  then have "take n bytes = d" using assms(3,4) by simp
  with False assms(1,5-7) show ?thesis by (simp add: direction_def relays_def)
qed

lemma complete_at:
  assumes "pending w = xs @ o' # ys" "complete env (length xs) r w = Inr w'"
  obtains s k cs where
    "run_handler env (op_handler o') (failed r) (length (ending_bytes r)) (arrive o' r (sess w)) (klog w) = Inr (s, k, cs)"
    "sess w' = s" "pending w' = xs @ ys @ begun cs"
    "\<And>h. moved_by h w' = moved_by h w @ (if op_handler o' = h then ending_bytes r else [])"
proof -
  have "pending w ! length xs = o'" using assms(1) by simp
  then show ?thesis
    using assms that moved_by_complete [OF assms(2)] by (auto simp: complete_def andThen_eq_Inr Let_def)
qed

definition relaying :: "world \<Rightarrow> bool" where
  "relaying w \<longleftrightarrow> (\<forall>o' \<in> set (pending w). relay_handler (op_handler o')) \<and> downstream w \<and> upstream w"

lemma complete_downstream:
  assumes "downstream w" "upstream w" and all: "\<forall>o' \<in> set (pending w). relay_handler (op_handler o')"
    and p: "pending w = xs @ o' # ys" and h: "op_handler o' = Upstream_read \<or> op_handler o' = Downstream_write"
    and ok: "allowed (sess w) o' r" and c: "complete env (length xs) r w = Inr w'"
  shows "relaying w'"
proof -
  obtain s k cs where
    run: "run_handler env (op_handler o') (failed r) (length (ending_bytes r)) (arrive o' r (sess w)) (klog w) = Inr (s, k, cs)"
    and w': "sess w' = s" "pending w' = xs @ ys @ begun cs"
    and mv: "\<And>h. moved_by h w' = moved_by h w @ (if op_handler o' = h then ending_bytes r else [])"
    using complete_at [OF p c] by blast
  have s: "s = arrive o' r (sess w)" using run h by (auto simp: upstream_read_def downstream_write_def split: if_splits dest!: cancel_begins)
  from assms(1) p h show ?thesis
  proof (cases rule: direction_op)
    case reading
    have cs: "begun cs = (if failed r then [] else [WriteAll Client (InBuffer buffer (length (ending_bytes r))) Downstream_write])"
      using run reading(3) by (auto simp: upstream_read_def split: if_splits dest!: cancel_begins)
    have "downstream w'"
      using reading w' cs mv ok s by (intro direction_after_read [where w = w and r = r and d = "ending_bytes r"]; cases r) simp_all
    moreover have "upstream w'"
      using reading(3) w' cs mv p s by (intro direction_same [OF assms(2)]; cases r) simp_all
    moreover have "\<forall>o' \<in> set (pending w'). relay_handler (op_handler o')"
      using all p w' cs by (auto simp: relay_handler_def)
    ultimately show ?thesis by (simp add: relaying_def)
  next
    case (writing n)
    have cs: "begun cs = (if failed r then [] else [ReadSome Storage buffer Upstream_read])"
      using run writing(3) by (auto simp: downstream_write_def)
    have "downstream w'"
      using writing w' cs mv ok s
      by (intro direction_after_write [where w = w and r = r and d = "ending_bytes r" and n = n and bytes = "buffer_bytes (sess w)"];
          cases r) simp_all
    moreover have "upstream w'"
      using writing(3) w' cs mv p s by (intro direction_same [OF assms(2)]; cases r) simp_all
    moreover have "\<forall>o' \<in> set (pending w'). relay_handler (op_handler o')"
      using all p w' cs by (auto simp: relay_handler_def)
    ultimately show ?thesis by (simp add: relaying_def)
  qed
qed

lemma complete_upstream:
  assumes "downstream w" "upstream w" and all: "\<forall>o' \<in> set (pending w). relay_handler (op_handler o')"
    and p: "pending w = xs @ o' # ys" and h: "op_handler o' = Downstream_read \<or> op_handler o' = Upstream_write"
    and ok: "allowed (sess w) o' r" and c: "complete env (length xs) r w = Inr w'"
  shows "relaying w'"
proof -
  obtain s k cs where
    run: "run_handler env (op_handler o') (failed r) (length (ending_bytes r)) (arrive o' r (sess w)) (klog w) = Inr (s, k, cs)"
    and w': "sess w' = s" "pending w' = xs @ ys @ begun cs"
    and mv: "\<And>h. moved_by h w' = moved_by h w @ (if op_handler o' = h then ending_bytes r else [])"
    using complete_at [OF p c] by blast
  have s: "s = arrive o' r (sess w)" using run h by (auto simp: downstream_read_def upstream_write_def split: if_splits dest!: cancel_begins)
  from assms(2) p h show ?thesis
  proof (cases rule: direction_op)
    case reading
    have cs: "begun cs = (if failed r then [] else [WriteAll Storage (InBuffer clt_buffer (length (ending_bytes r))) Upstream_write])"
      using run reading(3) by (auto simp: downstream_read_def split: if_splits dest!: cancel_begins)
    have "upstream w'"
      using reading w' cs mv ok s by (intro direction_after_read [where w = w and r = r and d = "ending_bytes r"]; cases r) simp_all
    moreover have "downstream w'"
      using reading(3) w' cs mv p s by (intro direction_same [OF assms(1)]; cases r) simp_all
    moreover have "\<forall>o' \<in> set (pending w'). relay_handler (op_handler o')"
      using all p w' cs by (auto simp: relay_handler_def)
    ultimately show ?thesis by (simp add: relaying_def)
  next
    case (writing n)
    have cs: "begun cs = (if failed r then [] else [ReadSome Client clt_buffer Downstream_read])"
      using run writing(3) by (auto simp: upstream_write_def)
    have "upstream w'"
      using writing w' cs mv ok s
      by (intro direction_after_write [where w = w and r = r and d = "ending_bytes r" and n = n and bytes = "clt_bytes (sess w)"];
          cases r) simp_all
    moreover have "downstream w'"
      using writing(3) w' cs mv p s by (intro direction_same [OF assms(1)]; cases r) simp_all
    moreover have "\<forall>o' \<in> set (pending w'). relay_handler (op_handler o')"
      using all p w' cs by (auto simp: relay_handler_def)
    ultimately show ?thesis by (simp add: relaying_def)
  qed
qed

subsection \<open>Every reachable state\<close>

lemma relay_handler_keeps:
  "run_handler env h e n s k = Inr (s', k', cs) \<Longrightarrow> relay_handler h \<Longrightarrow> s' = s \<and> k' = k"
  by (cases h) (auto simp: relay_handler_def upstream_read_def downstream_write_def downstream_read_def upstream_write_def
    split: if_splits dest!: cancel_begins)

lemma complete_relay_sess:
  "complete env i r w = Inr w' \<Longrightarrow> relay_handler (op_handler (pending w ! i)) \<Longrightarrow>
     sess w' = arrive (pending w ! i) r (sess w)"
  by (auto simp: complete_def andThen_eq_Inr Let_def dest: relay_handler_keeps)

lemma session_inv_step:
  assumes "session_inv w" "session_step env w w'"
  shows "session_inv w'"
proof -
  obtain i r where 1: "i < length (pending w)" "allowed (sess w) (pending w ! i) r" "complete env i r w = Inr w'"
    using assms(2) by (elim session_stepE)
  then obtain xs o' ys where p: "pending w = xs @ o' # ys" "length xs = i"
    by (metis id_take_nth_drop length_take min.absorb4)
  then have o': "pending w ! i = o'" by (metis nth_append_length)
  have ok: "allowed (sess w) o' r" using 1(2) o' by simp
  have len: "length (buffer_bytes (sess w)) = kDefaultBufferSize" "length (clt_bytes (sess w)) = kDefaultBufferSize"
    and fwd: "\<exists>rest. moved_by Read_downstream_handshake w = moved_by Echo_upstream_handshake w @ rest"
    using assms(1) by (simp_all add: session_inv_def)
  show ?thesis
  proof (cases "relay_handler (op_handler o')")
    case False
    then obtain "silent w" "pending w = [o']" "handshake_op o' w" "i = 0"
      using assms(1) p by (auto simp: session_inv_def append_eq_Cons_conv)
    then show ?thesis using complete_handshake [OF assms(1) _ _ _ ok] 1(3) by simp
  next
    case True
    have "\<not> handshake_op o' w" using True by (cases o') (auto simp: relay_handler_def)
    then have rel: "\<forall>o' \<in> set (pending w). relay_handler (op_handler o')" "downstream w" "upstream w"
      using assms(1) p by (auto simp: session_inv_def append_eq_Cons_conv)
    have c: "complete env (length xs) r w = Inr w'" using 1(3) p(2) by simp
    have "relaying w'"
      using True complete_downstream [OF rel(2,3,1) p(1) _ ok c] complete_upstream [OF rel(2,3,1) p(1) _ ok c]
      by (auto simp: relay_handler_def)
    moreover have len': "length (buffer_bytes (sess w')) = kDefaultBufferSize" "length (clt_bytes (sess w')) = kDefaultBufferSize"
      using arrive_length [OF len ok] complete_relay_sess [OF 1(3)] True o' by simp_all
    moreover have "moved_by Read_downstream_handshake w' = moved_by Read_downstream_handshake w"
        "moved_by Echo_upstream_handshake w' = moved_by Echo_upstream_handshake w"
      using True moved_by_complete [OF 1(3)] o' by (auto simp: relay_handler_def)
    ultimately show ?thesis
      using fwd unfolding session_inv_def relaying_def by simp
  qed
qed

lemma reachable_inv: "reachable env w \<Longrightarrow> session_inv w"
  by (induction rule: reachable.induct) (auto simp: launch_started intro: session_inv_started session_inv_step split: if_splits)

subsection \<open>Properties of the relay\<close>

definition uses :: "which_buffer \<Rightarrow> operation \<Rightarrow> bool" where
  "uses b o' \<longleftrightarrow> (case o' of
     ReadSome p b' h \<Rightarrow> b' = b
   | WriteSome p src h \<Rightarrow> (\<exists>n. src = InBuffer b n)
   | WriteAll p src h \<Rightarrow> (\<exists>n. src = InBuffer b n)
   | Connect a n h \<Rightarrow> False)"

lemma session_inv_streams:
  assumes "session_inv w"
  shows "\<exists>rest. moved_by Upstream_read w = moved_by Downstream_write w @ rest"
    and "\<exists>rest. moved_by Downstream_read w = moved_by Upstream_write w @ rest"
    and "ReadSome Storage buffer Upstream_read \<in> set (pending w) \<Longrightarrow> moved_by Upstream_read w = moved_by Downstream_write w"
    and "ReadSome Client clt_buffer Downstream_read \<in> set (pending w) \<Longrightarrow> moved_by Downstream_read w = moved_by Upstream_write w"
proof -
  have mem: "o' \<in> set (of_direction rh wh (pending w))" if "o' \<in> set (pending w)" "op_handler o' = rh" for o' rh wh
    using that by (simp add: of_direction_def)
  consider "silent w" "\<forall>o' \<in> set (pending w). handshake_op o' w" | "downstream w" "upstream w"
    using assms by (auto simp: session_inv_def)
  then show "\<exists>rest. moved_by Upstream_read w = moved_by Downstream_write w @ rest"
    and "\<exists>rest. moved_by Downstream_read w = moved_by Upstream_write w @ rest"
    and "ReadSome Storage buffer Upstream_read \<in> set (pending w) \<Longrightarrow> moved_by Upstream_read w = moved_by Downstream_write w"
    and "ReadSome Client clt_buffer Downstream_read \<in> set (pending w) \<Longrightarrow> moved_by Downstream_read w = moved_by Upstream_write w"
    using mem [of "ReadSome Storage buffer Upstream_read" Upstream_read Downstream_write]
      mem [of "ReadSome Client clt_buffer Downstream_read" Downstream_read Upstream_write]
    by (cases; auto simp: silent_def relay_handler_def direction_def relays_def)+
qed

text \<open>
  C1: The relay. In every reachable state the bytes written to the client are a beginning of the
  bytes read from the storage, in the same order, none lost, repeated or changed, and the
  same from the client to the storage; whenever the next read is pending, everything read so
  far has been written.
\<close>

theorem relay_preserves_streams:
  assumes "reachable env w"
  shows "(\<exists>rest. moved_by Upstream_read w = moved_by Downstream_write w @ rest) \<and>
    (\<exists>rest. moved_by Downstream_read w = moved_by Upstream_write w @ rest) \<and>
    (ReadSome Storage buffer Upstream_read \<in> set (pending w) \<longrightarrow> moved_by Upstream_read w = moved_by Downstream_write w) \<and>
    (ReadSome Client clt_buffer Downstream_read \<in> set (pending w) \<longrightarrow> moved_by Downstream_read w = moved_by Upstream_write w)"
  using session_inv_streams [OF reachable_inv [OF assms]] by blast

lemma uses_direction:
  assumes "relaying w"
  shows "filter (uses buffer) (pending w) = of_direction Upstream_read Downstream_write (pending w)"
    and "filter (uses clt_buffer) (pending w) = of_direction Downstream_read Upstream_write (pending w)"
proof -
  have "uses buffer o' \<longleftrightarrow> op_handler o' = Upstream_read \<or> op_handler o' = Downstream_write"
    and "uses clt_buffer o' \<longleftrightarrow> op_handler o' = Downstream_read \<or> op_handler o' = Upstream_write"
    if "o' \<in> set (pending w)" for o'
  proof -
    have "o' \<in> set (of_direction Upstream_read Downstream_write (pending w)) \<or>
        o' \<in> set (of_direction Downstream_read Upstream_write (pending w))"
      using assms that by (auto simp: relaying_def relay_handler_def of_direction_def)
    then show "uses buffer o' \<longleftrightarrow> op_handler o' = Upstream_read \<or> op_handler o' = Downstream_write"
      and "uses clt_buffer o' \<longleftrightarrow> op_handler o' = Downstream_read \<or> op_handler o' = Upstream_write"
      using assms by (auto simp: relaying_def direction_def relays_def uses_def)
  qed
  then show "filter (uses buffer) (pending w) = of_direction Upstream_read Downstream_write (pending w)"
    and "filter (uses clt_buffer) (pending w) = of_direction Downstream_read Upstream_write (pending w)"
    by (auto simp: of_direction_def intro: filter_cong)
qed

lemma session_inv_exclusive:
  assumes "session_inv w"
  shows "length (filter (uses b) (pending w)) \<le> 1"
proof -
  consider "length (pending w) \<le> 1" | "relaying w"
    using assms by (auto simp: session_inv_def relaying_def)
  then show ?thesis
  proof cases
    case 1
    then show ?thesis using length_filter_le le_trans by blast
  next
    case 2
    then show ?thesis
      using uses_direction [OF 2] by (cases b) (auto simp: relaying_def direction_def relays_def)
  qed
qed

text \<open>
  C18: No two pending operations share a member buffer, so the bytes a write refers to stay as they
  are until it has completed, as Asio demands.
\<close>

theorem one_operation_per_buffer:
  assumes "reachable env w"
  shows "length (filter (uses b) (pending w)) \<le> 1"
  using session_inv_exclusive [OF reachable_inv [OF assms]] .

text \<open>
  C31: The handshake on its way to the storage: what has been written of it is a beginning of what
  the client sent.
\<close>

theorem handshake_passed_on:
  assumes "reachable env w"
  shows "\<exists>rest. moved_by Read_downstream_handshake w = moved_by Echo_upstream_handshake w @ rest"
  using reachable_inv [OF assms] by (simp add: session_inv_def)

subsection \<open>Properties of the handshake\<close>

definition failure_reply :: "int \<Rightarrow> string \<Rightarrow> string" where
  "failure_reply eid msg =
     ''( failure ( ( '' @ show_int eid @ '' '' @ wire_string msg @ '' 0: 0 ) ) ) ''"

lemma error_text_reply:
  assumes "nul \<notin> set msg" "length msg \<le> 32000"
  shows "error_text eid (of_nat (length msg)) msg = failure_reply eid msg"
  using assms by (simp add: error_text_def failure_reply_def wire_string_def c_str_id unat_of_nat)

text \<open>A setting for the examples: one storage host for every owner, and every path opens.\<close>

definition example_env :: environment where
  "example_env = \<lparr>router_state = \<lparr>hostElement = [], defaultElement = ''10.0.0.1'', defaultPort = 3690\<rparr>,
     from_string = \<lambda>_. True, clt_address = 4096, can_open = \<lambda>_. True, now = example_tm,
     process_id = 1, thread_id = 1, wide_text = Inr, no_delay_ok = True, cancel_ok = \<lambda>_. True\<rparr>"

lemma example_env_simps [simp]:
  "no_delay_ok example_env" "cancel_ok example_env pr" "clt_address example_env = 4096" "from_string example_env a" "can_open example_env p" "now example_env = example_tm"
  "router_state example_env = \<lparr>hostElement = [], defaultElement = ''10.0.0.1'', defaultPort = 3690\<rparr>"
  by (simp_all add: example_env_def)

lemma sendError_reply:
  assumes "0 \<le> eid" "eid < 1000000" "nul \<notin> set msg" "length msg \<le> 32000"
  shows "\<exists>s'. sendError eid msg (of_nat (length msg)) s k =
      Inr (s', k, [Begin (WriteSome Client (InBuffer buffer (length (failure_reply eid msg))) Error_sent)]) \<and>
    take (length (failure_reply eid msg)) (buffer_bytes s') = failure_reply eid msg"
  using sendError_fits [OF assms refl, of s k] by (simp add: error_text_reply [OF assms(3,4)])

text \<open>
  A handshake the parser refuses is answered with one failure message, which is sent whole: the
  code 210004 and, as a counted string with the right count, the parser's reason. The
  session begins nothing else.
\<close>

theorem refused_handshake_reply:
  assumes "ParseSubversionHds (clt_address env + int n) (Some (take n (clt_bytes s))) (client_hds s) = Inr (code, h)"
    and "code \<noteq> 0"
  shows "lastError h \<noteq> [] \<and>
    (\<exists>s'. read_downstream_handshake env False n s k = Inr (s', k,
        [Begin (WriteSome Client (InBuffer buffer (length (failure_reply 210004 (lastError h)))) Error_sent)]) \<and>
      take (length (failure_reply 210004 (lastError h))) (buffer_bytes s') = failure_reply 210004 (lastError h))"
proof -
  have m: "lastError h \<in> set parse_messages" using parse_message [OF assms(1)] assms(2) by simp
  then have "nul \<notin> set (lastError h)" "length (lastError h) \<le> 32000"
    using parse_messages_printable by fastforce+
  from sendError_reply [OF _ _ this, of 210004] m show ?thesis
    using assms by (auto simp: read_downstream_handshake_def parse_messages_def)
qed

theorem refused_handshake_reply_witness:
  "\<exists>s'. read_downstream_handshake example_env False 1 new_session new_klogger = Inr (s', new_klogger,
      [Begin (WriteSome Client (InBuffer buffer (length (failure_reply 210004 ''Malformed Network data !''))) Error_sent)])"
proof -
  have "take 1 (clt_bytes new_session) = [nul]"
    by (simp add: new_session_def kDefaultBufferSize_def take_replicate)
  then have "ParseSubversionHds (clt_address example_env + int 1) (Some (take 1 (clt_bytes new_session))) (client_hds new_session) =
      Inr (2, empty_hds\<lparr>lastError := ''Malformed Network data !''\<rparr>)"
    by (simp add: ParseSubversionHds_def hds_loop.simps(2) hds_char_def new_session_def)
  from refused_handshake_reply [OF this] show ?thesis by auto
qed

text \<open>
  A handshake that parses but whose URL \<open>SubversionUriCanonicalize\<close> refuses is answered with an
  empty reason: \<open>hds.lastError\<close> is sent, which only the parser writes.
\<close>

theorem refused_url_reply_is_empty:
  assumes "ParseSubversionHds (clt_address env + int n) (Some (take n (clt_bytes s))) (client_hds s) = Inr (0, h)"
    and "lastError (client_hds s) = []" and "fst (SubversionUriCanonicalize (subversionURL h) empty_url) \<noteq> 0"
  shows "\<exists>s'. read_downstream_handshake env False n s k = Inr (s', k,
      [Begin (WriteSome Client (InBuffer buffer (length (failure_reply 210004 []))) Error_sent)]) \<and>
    take (length (failure_reply 210004 [])) (buffer_bytes s') = failure_reply 210004 []"
proof -
  have m: "lastError h = []" using parse_message [OF assms(1)] assms(2) by simp
  from sendError_reply [of 210004 "[]"] m show ?thesis
    using assms by (cases "SubversionUriCanonicalize (subversionURL h) empty_url")
      (auto simp: read_downstream_handshake_def Let_def)
qed

text \<open>A session whose client has sent the given bytes.\<close>

definition received :: "string \<Rightarrow> session" where
  "received d = store clt_buffer d new_session"

lemma received_simps [simp]:
  "take (length d) (clt_bytes (received d)) = d" "client_hds (received d) = empty_hds"
  "node (received d) = \<lparr>elem_port = 0, elem_address = []\<rparr>"
  by (simp_all add: received_def new_session_def)

definition repo_hds :: "nat \<Rightarrow> string list \<Rightarrow> string \<Rightarrow> (string \<times> string option) option \<Rightarrow> SubversionHds" where
  "repo_hds v caps u a = \<lparr>protocol = of_nat v, mCapabilities = caps, subversionURL = u,
     userAgent = (case a of None \<Rightarrow> [] | Some (ra, _) \<Rightarrow> ra), lastError = []\<rparr>"

lemma buffer_at_response:
  assumes "length u < 1000000"
  shows "buffer_at (4096 + int (length (wire_response 2 [] u None))) (wire_response 2 [] u None)"
proof -
  have "length (show_nat (length u)) \<le> 6" using assms length_show_nat [of "length u" 6] by simp
  then show ?thesis
    using assms by (simp add: buffer_at_def wire_response_def wire_words_def wire_string_def wire_agent_def)
qed

lemma small_response:
  assumes "u \<noteq> []" "length u < 1000000"
  shows "ParseSubversionHds (4096 + int (length (wire_response 2 [] u None))) (Some (wire_response 2 [] u None)) empty_hds =
    Inr (0, repo_hds 2 [] u None)"
  using parse_wire_response [OF _ _ assms(1) _ buffer_at_response [OF assms(2)]] by (simp add: repo_hds_def)

theorem refused_url_reply_is_empty_witness:
  "\<exists>s'. read_downstream_handshake example_env False (length (wire_response 2 [] ''svn:/x'' None))
       (received (wire_response 2 [] ''svn:/x'' None)) new_klogger = Inr (s', new_klogger,
      [Begin (WriteSome Client (InBuffer buffer (length (failure_reply 210004 []))) Error_sent)])"
proof -
  let ?d = "wire_response 2 [] ''svn:/x'' None"
  have p: "ParseSubversionHds (clt_address example_env + int (length ?d)) (Some (take (length ?d) (clt_bytes (received ?d))))
      (client_hds (received ?d)) =
    Inr (0, repo_hds 2 [] ''svn:/x'' None)"
    using small_response [of "''svn:/x''"] by simp
  have "fst (SubversionUriCanonicalize ''svn:/x'' empty_url) \<noteq> 0"
    by (simp add: SubversionUriCanonicalize_def url_char_def empty_url_def url_loop.simps)
  then show ?thesis
    using refused_url_reply_is_empty [OF p, of new_klogger] by (simp add: empty_hds_def repo_hds_def) blast
qed

subsection \<open>The way to the storage\<close>

text \<open>What the session uses of the interface of the router.\<close>

context storage_directory
begin

lemma found_pair:
  assumes "2 \<le> length o1"
  shows "find_storage r o1 e = (True, snd (find_storage r o1 e))"
  using long_found [OF assms, of r e] by (cases "find_storage r o1 e") simp

end

lemma read_handshake_routed:
  assumes "ParseSubversionHds (clt_address env + int n) (Some (take n (clt_bytes s))) (client_hds s) = Inr (0, h)"
    and "SubversionUriCanonicalize (subversionURL h) empty_url = (0, su)"
    and "2 \<le> length (owner su)" and "elem = snd (GetAddress (router_state env) (owner su) (node s))"
    and "elem_address elem \<noteq> []"
  shows "read_downstream_handshake env False n s k =
    andThen (access (can_open env) (now env)
        (''Storage: '' @ c_str (elem_address elem) @ '' | URL: '' @ c_str (subversionURL h) @ '' '') k) (\<lambda>k1.
      let s2 = s\<lparr>handshakeSize := n, client_hds := h, node := elem\<rparr> in
      if \<not> from_string env (elem_address elem) then sendError 200042 ''Error upstream Address !'' 24 s2 k1
      else Inr (s2, k1, [Begin (Connect (elem_address elem) (elem_port elem) Async_connect_upstream)]))"
proof -
  have "GetAddress (router_state env) (owner su) (node s) = (True, elem)"
    using router.found_pair [OF assms(3)] assms(4) by simp
  then show ?thesis
    using assms(1,2,5) by (simp add: read_downstream_handshake_def Let_def GetStorageElement_def)
qed

text \<open>What the session logs, and what it makes of a response with a repository URL.\<close>

definition storage_line :: "string \<Rightarrow> string \<Rightarrow> string" where
  "storage_line addr u = ''Storage: '' @ c_str addr @ '' | URL: '' @ c_str u @ '' ''"

lemma read_repository_handshake:
  assumes w: "v < 10" "\<forall>w \<in> set caps. cap_word w" "\<forall>ra cl. a = Some (ra, Some cl) \<longrightarrow> nul \<notin> set cl"
    and u: "u = url_text sch acc h own repo rest" "url_name sch" "url_name h" "\<forall>a. acc = Some a \<longrightarrow> url_name a"
      "CHR ''/'' \<notin> set own" "CHR ''/'' \<notin> set repo"
    and d: "d = wire_response v caps u a" "buffer_at (clt_address env + int (length d)) d"
      "take (length d) (clt_bytes s) = d" "client_hds s = empty_hds"
    and r: "2 \<le> length own" "elem = snd (GetAddress (router_state env) own (node s))" "elem_address elem \<noteq> []"
  shows "read_downstream_handshake env False (length d) s k =
    andThen (access (can_open env) (now env) (storage_line (elem_address elem) u) k) (\<lambda>k1.
      let s2 = s\<lparr>handshakeSize := length d, client_hds := repo_hds v caps u a, node := elem\<rparr> in
      if \<not> from_string env (elem_address elem) then sendError 200042 ''Error upstream Address !'' 24 s2 k1
      else Inr (s2, k1, [Begin (Connect (elem_address elem) (elem_port elem) Async_connect_upstream)]))"
proof -
  have "u \<noteq> []" by (simp add: u(1) url_text_def)
  then have p: "ParseSubversionHds (clt_address env + int (length d)) (Some (take (length d) (clt_bytes s))) (client_hds s) =
      Inr (0, repo_hds v caps u a)"
    using parse_wire_response [OF w(1,2) _ w(3)] d by (simp add: repo_hds_def)
  let ?su = "snd (SubversionUriCanonicalize u empty_url)"
  have c: "SubversionUriCanonicalize (subversionURL (repo_hds v caps u a)) empty_url = (0, ?su)" "owner ?su = own"
    using canonicalize_url_text [OF u(2-6), of rest] by (simp_all add: u(1) repo_hds_def)
  have "subversionURL (repo_hds v caps u a) = u" by (simp add: repo_hds_def)
  moreover have "2 \<le> length (owner ?su)" "elem = snd (GetAddress (router_state env) (owner ?su) (node s))"
    using r(1,2) c(2) by simp_all
  ultimately show ?thesis
    using read_handshake_routed [OF p c(1) _ _ r(3), of k] unfolding storage_line_def by simp
qed

text \<open>
  From the client's response to the storage host. For every well-formed response with a
  well-formed repository URL whose owner has at least two characters, the session logs the
  route and connects to the host and port \<open>GetAddress\<close> gives for that owner, having kept the
  handshake's length and fields.
\<close>

theorem session_connects:
  assumes "v < 10" and "\<forall>w \<in> set caps. cap_word w" and "\<forall>ra cl. a = Some (ra, Some cl) \<longrightarrow> nul \<notin> set cl"
    and "u = url_text sch acc h own repo rest" and "url_name sch" and "url_name h" and "\<forall>a. acc = Some a \<longrightarrow> url_name a"
    and "CHR ''/'' \<notin> set own" and "CHR ''/'' \<notin> set repo"
    and "d = wire_response v caps u a" and "buffer_at (clt_address env + int (length d)) d"
    and "take (length d) (clt_bytes s) = d" and "client_hds s = empty_hds"
    and "2 \<le> length own" and "elem = snd (GetAddress (router_state env) own (node s))" and "elem_address elem \<noteq> []"
    and "from_string env (elem_address elem)"
    and "access (can_open env) (now env) (storage_line (elem_address elem) u) k = Inr k1"
  shows "read_downstream_handshake env False (length d) s k =
    Inr (s\<lparr>handshakeSize := length d, client_hds := repo_hds v caps u a, node := elem\<rparr>, k1,
      [Begin (Connect (elem_address elem) (elem_port elem) Async_connect_upstream)])"
  using read_repository_handshake [OF assms(1-16), of k] assms(17,18) by simp

text \<open>A small response and a session that has received it, for the examples.\<close>

definition example_url :: string where
  "example_url = url_text ''svn'' None ''h'' ''apache'' ''r'' ''t''"

definition example_response :: string where
  "example_response = wire_response 2 [] example_url None"

lemma example_route:
  "GetAddress \<lparr>hostElement = [], defaultElement = ''10.0.0.1'', defaultPort = 3690\<rparr> ''apache'' e =
     (True, \<lparr>elem_port = 3690, elem_address = ''10.0.0.1''\<rparr>)"
  by (simp add: GetAddress_def)

lemma example_access:
  "\<exists>k1. access (can_open example_env) (now example_env) (storage_line ''10.0.0.1'' example_url) new_klogger = Inr k1"
  by (simp add: access_calendar calendar_example_tm log_line_intact length_access_prefix storage_line_def example_url_def
      url_text_def c_str_def writerAccess_def MAX_LINE_NUMBER_def new_klogger_def fwrite_def closed_def Let_def)

theorem session_connects_witness:
  "\<exists>s' k1. read_downstream_handshake example_env False (length example_response) (received example_response) new_klogger =
     Inr (s', k1, [Begin (Connect ''10.0.0.1'' 3690 Async_connect_upstream)])"
proof -
  obtain k1 where k1: "access (can_open example_env) (now example_env) (storage_line ''10.0.0.1'' example_url) new_klogger = Inr k1"
    using example_access by blast
  have b: "buffer_at (clt_address example_env + int (length example_response)) example_response"
    unfolding example_response_def by (simp add: buffer_at_response example_url_def url_text_def)
  have n: "snd (GetAddress (router_state example_env) ''apache'' (node (received example_response))) =
      \<lparr>elem_port = 3690, elem_address = ''10.0.0.1''\<rparr>"
    by (simp add: example_route)
  have "read_downstream_handshake example_env False (length example_response) (received example_response) new_klogger =
    Inr ((received example_response)\<lparr>handshakeSize := length example_response, client_hds := repo_hds 2 [] example_url None,
        node := \<lparr>elem_port = 3690, elem_address = ''10.0.0.1''\<rparr>\<rparr>, k1,
      [Begin (Connect (elem_address \<lparr>elem_port = 3690, elem_address = ''10.0.0.1''\<rparr>)
        (elem_port \<lparr>elem_port = 3690, elem_address = ''10.0.0.1''\<rparr>) Async_connect_upstream)])"
    by (rule session_connects [OF _ _ _ example_url_def _ _ _ _ _ example_response_def b _ _ _ n [symmetric]])
      (simp_all add: url_name_def k1 [simplified])
  then show ?thesis by simp
qed

text \<open>
  C28: The same response with a URL and an address of together 4052 bytes or more stops the server: the
  line \<open>klogger::Access\<close> composes for it does not fit the logger's stack buffer. The client chooses
  the URL, and needs no account.
\<close>

theorem long_url_overruns_logger:
  assumes "v < 10" and "\<forall>w \<in> set caps. cap_word w" and "\<forall>ra cl. a = Some (ra, Some cl) \<longrightarrow> nul \<notin> set cl"
    and "u = url_text sch acc h own repo rest" and "url_name sch" and "url_name h" and "\<forall>a. acc = Some a \<longrightarrow> url_name a"
    and "CHR ''/'' \<notin> set own" and "CHR ''/'' \<notin> set repo"
    and "d = wire_response v caps u a" and "buffer_at (clt_address env + int (length d)) d"
    and "take (length d) (clt_bytes s) = d" and "client_hds s = empty_hds"
    and "2 \<le> length own" and "elem = snd (GetAddress (router_state env) own (node s))" and "elem_address elem \<noteq> []"
    and "calendar (now env)" and "nul \<notin> set u" and "4052 \<le> length (c_str (elem_address elem)) + length u"
  shows "read_downstream_handshake env False (length d) s k = Inl OutOfBounds"
proof -
  have "4096 \<le> length (access_prefix (now env)) + length (storage_line (elem_address elem) u)"
    using assms(18,19) by (simp add: length_access_prefix [OF assms(17)] storage_line_def c_str_id)
  then have "access (can_open env) (now env) (storage_line (elem_address elem) u) k = Inl OutOfBounds"
    by (simp add: access_calendar [OF assms(17)] log_line_overrun)
  then show ?thesis using read_repository_handshake [OF assms(1-16), of k] by simp
qed

theorem long_url_overruns_logger_witness:
  "\<exists>d. read_downstream_handshake example_env False (length d) (received d) new_klogger = Inl OutOfBounds"
proof -
  let ?u = "url_text ''svn'' None ''h'' ''apache'' ''r'' (replicate 4100 CHR ''x'')"
  let ?d = "wire_response 2 [] ?u None"
  have len: "length ?u = 4117" by (simp add: url_text_def)
  have b: "buffer_at (clt_address example_env + int (length ?d)) ?d"
    using buffer_at_response [of ?u] len by simp
  have nul: "nul \<notin> set ?u" by (simp add: url_text_def)
  have "read_downstream_handshake example_env False (length ?d) (received ?d) new_klogger = Inl OutOfBounds"
    by (rule long_url_overruns_logger [where v = 2 and caps = "[]" and a = None and u = ?u and sch = "''svn''"
          and h = "''h''" and acc = None and own = "''apache''" and repo = "''r''", OF _ _ _ refl _ _ _ _ _ refl b _ _ _ refl])
      (simp_all add: url_name_def example_route len calendar_example_tm nul)
  then show ?thesis by blast
qed

subsection \<open>A handshake cut short\<close>

lemma reach_single:
  assumes "reachable env w" "pending w = [o']" "allowed (sess w) o' r"
    and "run_handler env (op_handler o') (failed r) (length (ending_bytes r)) (arrive o' r (sess w)) (klog w) = Inr (s, k, cs)"
  shows "\<exists>w'. reachable env w' \<and> session_step env w w' \<and> sess w' = s \<and> klog w' = k \<and> pending w' = begun cs \<and>
    moved w' = moved w @ [(op_handler o', ending_bytes r)]"
proof -
  let ?w = "\<lparr>sess = s, klog = k, pending = begun cs, moved = moved w @ [(op_handler o', ending_bytes r)],
    effects = effects w @ cs\<rparr>"
  have "complete env 0 r w = Inr ?w" using assms(2,4) by (simp add: complete_def)
  then have "session_step env w ?w" using assms(2,3) by (intro step [of 0]) simp_all
  with assms(1) show ?thesis using reach_step by (intro exI [of _ ?w]) simp
qed

lemma allowed_received: "d \<noteq> [] \<Longrightarrow> length d \<le> kDefaultBufferSize \<Longrightarrow> allowed s (ReadSome p b h) (Received d)"
  by simp

lemma length_example_response: "0 < length example_response" "length example_response \<le> 1000"
proof -
  have "length example_url = 18" by (simp add: example_url_def url_text_def)
  then have "length (show_nat (length example_url)) \<le> 2" using length_show_nat [of "length example_url" 2] by simp
  then show "0 < length example_response" "length example_response \<le> 1000"
    using \<open>length example_url = 18\<close>
    by (simp_all add: example_response_def wire_response_def wire_words_def wire_string_def wire_agent_def)
qed

text \<open>A run of the session up to the point where it passes the handshake on.\<close>

lemma example_connected:
  "\<exists>s' k1. run_handler example_env Read_downstream_handshake False (length example_response) (received example_response) new_klogger =
      Inr (s', k1, [Begin (Connect ''10.0.0.1'' 3690 Async_connect_upstream)]) \<and> handshakeSize s' = length example_response"
proof -
  obtain k1 where k1: "access (can_open example_env) (now example_env) (storage_line ''10.0.0.1'' example_url) new_klogger = Inr k1"
    using example_access by blast
  have b: "buffer_at (clt_address example_env + int (length example_response)) example_response"
    unfolding example_response_def by (simp add: buffer_at_response example_url_def url_text_def)
  have n: "snd (GetAddress (router_state example_env) ''apache'' (node (received example_response))) =
      \<lparr>elem_port = 3690, elem_address = ''10.0.0.1''\<rparr>"
    by (simp add: example_route)
  have "read_downstream_handshake example_env False (length example_response) (received example_response) new_klogger =
    andThen (access (can_open example_env) (now example_env)
      (storage_line (elem_address \<lparr>elem_port = 3690, elem_address = ''10.0.0.1''\<rparr>) example_url) new_klogger) (\<lambda>k1.
      let s2 = (received example_response)\<lparr>handshakeSize := length example_response, client_hds := repo_hds 2 [] example_url None,
        node := \<lparr>elem_port = 3690, elem_address = ''10.0.0.1''\<rparr>\<rparr> in
      if \<not> from_string example_env (elem_address \<lparr>elem_port = 3690, elem_address = ''10.0.0.1''\<rparr>)
      then sendError 200042 ''Error upstream Address !'' 24 s2 k1
      else Inr (s2, k1, [Begin (Connect (elem_address \<lparr>elem_port = 3690, elem_address = ''10.0.0.1''\<rparr>)
        (elem_port \<lparr>elem_port = 3690, elem_address = ''10.0.0.1''\<rparr>) Async_connect_upstream)]))"
    by (rule read_repository_handshake [OF _ _ _ example_url_def _ _ _ _ _ example_response_def b _ _ _ n [symmetric]])
      (simp_all add: url_name_def)
  then show ?thesis using k1 [simplified] by simp
qed

lemma example_forwarding:
  "\<exists>w. reachable example_env w \<and>
     pending w = [WriteSome Storage (InBuffer clt_buffer (length example_response)) Echo_upstream_handshake]"
proof -
  let ?d = example_response
  have g: "allowed new_session (WriteSome Client (LocalArray greeting) Echo_downstream_handshake) (Sent greeting)"
    by (simp add: greeting_def)
  have "launch example_env new_klogger = Inr (started new_klogger)" by (simp add: launch_started)
  from reach_single [OF reach_start [OF this] _ _, of _ "Sent greeting" new_session new_klogger
      "[Begin (ReadSome Client clt_buffer Read_downstream_handshake)]"] g
  obtain w1 where w1: "reachable example_env w1" "sess w1 = new_session" "klog w1 = new_klogger"
      "pending w1 = [ReadSome Client clt_buffer Read_downstream_handshake]"
    by (auto simp: started_def echo_downstream_handshake_def)
  obtain s2 k2 where r2: "run_handler example_env Read_downstream_handshake False (length ?d) (received ?d) new_klogger =
      Inr (s2, k2, [Begin (Connect ''10.0.0.1'' 3690 Async_connect_upstream)])" "handshakeSize s2 = length ?d"
    using example_connected by blast
  have d: "?d \<noteq> []" "length ?d \<le> kDefaultBufferSize"
    using length_example_response by (auto simp: kDefaultBufferSize_def)
  obtain w2 where w2: "reachable example_env w2" "sess w2 = s2" "pending w2 = [Connect ''10.0.0.1'' 3690 Async_connect_upstream]"
    using reach_single [OF w1(1,4) allowed_received [OF d], of s2 k2] r2(1) w1(2,3) by (auto simp: received_def)
  obtain w3 where w3: "reachable example_env w3" "sess w3 = s2" "pending w3 = [ReadSome Storage buffer Read_upstream_handshake]"
    using reach_single [OF w2(1,3), of Connected s2 "klog w2"] w2(2) by (auto simp: async_connect_upstream_def)
  show ?thesis
    using reach_single [OF w3(1,3) allowed_received [of "''( success )''"], of "store buffer ''( success )'' s2" "klog w3"]
      w3(2) r2(2) by (auto simp: read_upstream_handshake_def kDefaultBufferSize_def)
qed

lemma forward_some:
  assumes "reachable env w" "pending w = [WriteSome Storage (InBuffer clt_buffer n) Echo_upstream_handshake]"
    and "0 < j" "j \<le> n" "n \<le> kDefaultBufferSize"
  shows "\<exists>w'. reachable env w' \<and> session_step env w w' \<and>
     pending w' = [ReadSome Storage buffer Upstream_read, ReadSome Client clt_buffer Downstream_read] \<and>
     moved_by Echo_upstream_handshake w' = take j (moved_by Read_downstream_handshake w') \<and>
     moved_by Read_downstream_handshake w' = moved_by Read_downstream_handshake w \<and>
     length (moved_by Read_downstream_handshake w) = n"
proof -
  have inv: "session_inv w" by (rule reachable_inv [OF assms(1)])
  then have h: "handshake_op (WriteSome Storage (InBuffer clt_buffer n) Echo_upstream_handshake) w"
    and len: "length (clt_bytes (sess w)) = kDefaultBufferSize"
    using assms(2) by (auto simp: session_inv_def relay_handler_def)
  let ?d = "take j (clt_bytes (sess w))"
  have d: "length ?d = j" using len assms(4,5) by simp
  have ok: "allowed (sess w) (WriteSome Storage (InBuffer clt_buffer n) Echo_upstream_handshake) (Sent ?d)"
    using d assms(3,4) by auto
  obtain w' where w': "reachable env w'" "session_step env w w'"
    "pending w' = [ReadSome Storage buffer Upstream_read, ReadSome Client clt_buffer Downstream_read]"
    "moved w' = moved w @ [(Echo_upstream_handshake, ?d)]"
    using reach_single [OF assms(1,2) ok, of "sess w" "klog w"
        "[Begin (ReadSome Storage buffer Upstream_read), Begin (ReadSome Client clt_buffer Downstream_read)]"]
    by (auto simp: echo_upstream_handshake_def)
  have "moved_by Read_downstream_handshake w' = take n (clt_bytes (sess w))"
    "moved_by Read_downstream_handshake w = take n (clt_bytes (sess w))" "moved_by Echo_upstream_handshake w' = ?d"
    using h w'(4) by (auto simp: moved_by_def)
  then show ?thesis using w'(1-3) len assms(4,5) by (intro exI [of _ w']) (simp add: min_def)
qed

lemma example_relaying:
  "\<exists>w. reachable example_env w \<and>
     pending w = [ReadSome Storage buffer Upstream_read, ReadSome Client clt_buffer Downstream_read]"
proof -
  obtain w where w: "reachable example_env w"
    "pending w = [WriteSome Storage (InBuffer clt_buffer (length example_response)) Echo_upstream_handshake]"
    using example_forwarding by blast
  have "length example_response \<le> kDefaultBufferSize"
    using length_example_response by (simp add: kDefaultBufferSize_def)
  then show ?thesis using forward_some [OF w length_example_response(1)] by blast
qed

theorem relay_preserves_streams_witness:
  "\<exists>w. reachable example_env w \<and> pending w \<noteq> [] \<and> moved_by Upstream_read w = moved_by Downstream_write w"
proof -
  obtain w where "reachable example_env w"
    "pending w = [ReadSome Storage buffer Upstream_read, ReadSome Client clt_buffer Downstream_read]"
    using example_relaying by blast
  then show ?thesis using relay_preserves_streams [of example_env w] by auto
qed

theorem one_operation_per_buffer_witness:
  "\<exists>w. reachable example_env w \<and> length (pending w) = 2 \<and> length (filter (uses buffer) (pending w)) \<le> 1"
proof -
  obtain w where "reachable example_env w"
    "pending w = [ReadSome Storage buffer Upstream_read, ReadSome Client clt_buffer Downstream_read]"
    using example_relaying by blast
  then show ?thesis using one_operation_per_buffer [of example_env w buffer] by auto
qed

theorem handshake_passed_on_witness:
  "\<exists>w rest. reachable example_env w \<and> pending w \<noteq> [] \<and>
     moved_by Read_downstream_handshake w = moved_by Echo_upstream_handshake w @ rest"
proof -
  obtain w where "reachable example_env w"
    "pending w = [ReadSome Storage buffer Upstream_read, ReadSome Client clt_buffer Downstream_read]"
    using example_relaying by blast
  then show ?thesis using handshake_passed_on [of example_env w] by auto
qed

text \<open>
  Nothing makes the storage receive the whole handshake: \<open>async_write_some\<close> may send any non-empty
  part of it, \<open>echo_upstream_handshake\<close> ignores \<open>bytes_transferred\<close>, and the relay begins with the
  rest of the handshake unsent and no operation that would send it.
\<close>

theorem handshake_may_be_cut:
  assumes "reachable env w" and "pending w = [WriteSome Storage (InBuffer clt_buffer n) Echo_upstream_handshake]"
    and "0 < j" and "j < n" and "n \<le> kDefaultBufferSize"
  shows "\<exists>w'. reachable env w' \<and>
     pending w' = [ReadSome Storage buffer Upstream_read, ReadSome Client clt_buffer Downstream_read] \<and>
     moved_by Echo_upstream_handshake w' = take j (moved_by Read_downstream_handshake w') \<and>
     length (moved_by Echo_upstream_handshake w') < length (moved_by Read_downstream_handshake w')"
  using forward_some [OF assms(1-3) _ assms(5)] assms(4) by fastforce

theorem handshake_may_be_cut_witness:
  "\<exists>w'. reachable example_env w' \<and>
     length (moved_by Echo_upstream_handshake w') < length (moved_by Read_downstream_handshake w')"
proof -
  obtain w where w: "reachable example_env w"
    "pending w = [WriteSome Storage (InBuffer clt_buffer (length example_response)) Echo_upstream_handshake]"
    using example_forwarding by blast
  have "1 < length example_response" "length example_response \<le> kDefaultBufferSize"
    using length_example_response
    by (simp_all add: kDefaultBufferSize_def example_response_def wire_response_def)
  then show ?thesis using handshake_may_be_cut [OF w zero_less_one] by blast
qed

end
