(* ===== verification/Server.thy ===== *)
theory Server
  imports Config Session
begin

section \<open>The server (\<open>SubversionServer.cc\<close>)\<close>

text \<open>
  \<open>SubversionServer\<close> opens an acceptor on the configured address and keeps one accept pending;
  each accepted connection is a session of its own, started when it arrives. The calls on the
  acceptor and what they may throw (\<open>open_acceptor\<close>: \<open>from_string\<close>, \<open>open\<close>, \<open>bind\<close>, \<open>listen\<close>) are an
  argument, as Boost.Asio is not under \<open>src\<close>. A session object is the number of its
  allocation. What follows \<open>run\<close> is in \<open>Running_Server\<close>.

  The properties: when the server comes up, and that every accepted connection is started once, as
  a session of its own, with always one accept pending.
\<close>

record SubversionServer =
  thread_pool_size :: nat
  endpoint :: "string \<times> u16"
  new_connection :: nat
  accepting :: "nat list"
  started_sessions :: "nat list"

definition start_accept :: "SubversionServer \<Rightarrow> SubversionServer" where
  "start_accept s =
     (let fresh = new_connection s + 1
      in s\<lparr>new_connection := fresh, accepting := accepting s @ [fresh]\<rparr>)"

text \<open>The constructor; the pool size is stored as \<open>size_t\<close>, the port passed as \<open>unsigned short\<close>.\<close>

definition new_server ::
    "(string \<Rightarrow> u16 \<Rightarrow> unit eff) \<Rightarrow> environment \<Rightarrow> NetworkServerArgs \<Rightarrow> Klogger \<Rightarrow> (SubversionServer \<times> Klogger) eff" where
  "new_server open_acceptor env na k =
     (if unat (poolSize na) = 0 then
        andThen (log (can_open env) (now env) (process_id env) (thread_id env) kFatal ''io_service_pool size is 0'' k)
          (\<lambda>k1. Inl (RuntimeError ''io_service_pool size is 0''))
      else
        andThen (open_acceptor (net_address na) (ucast (net_port na))) (\<lambda>_. Inr
          (start_accept \<lparr>thread_pool_size = unat (poolSize na), endpoint = (net_address na, ucast (net_port na)),
             new_connection = 0, accepting = [], started_sessions = []\<rparr>, k)))"

text \<open>
  The completion of the pending accept, with an error or without; \<open>st\<close> is what the \<open>start\<close> of the new session does. When it throws,
  \<open>start_accept\<close> is not reached.
\<close>

definition handle_accept :: "unit eff \<Rightarrow> bool \<Rightarrow> SubversionServer \<Rightarrow> SubversionServer eff" where
  "handle_accept st e s =
     (let s1 = s\<lparr>accepting := tl (accepting s)\<rparr> in
      if \<not> e then andThen st (\<lambda>_. Inr (start_accept (s1\<lparr>started_sessions := started_sessions s1 @ [new_connection s1]\<rparr>)))
      else Inr (start_accept s1))"

definition SubversionServerInitialize ::
    "(string \<Rightarrow> u16 \<Rightarrow> unit eff) \<Rightarrow> environment \<Rightarrow> NetworkServerArgs \<Rightarrow> Klogger \<Rightarrow> (SubversionServer \<times> Klogger) eff" where
  "SubversionServerInitialize open_acceptor env na k =
     (let info = log (can_open env) (now env) (process_id env) (thread_id env) kInfo in
      andThen (info ''svnsrv running'' k) (\<lambda>k1.
      andThen (new_server open_acceptor env na k1) (\<lambda>(s, k2).
      andThen (info (''Listener address: '' @ c_str (net_address na) @ '':'' @ show_int (sint (net_port na)) @
          '' Thread counts: '' @ show_int (sint (poolSize na))) k2) (\<lambda>k3.
        Inr (s, k3)))))"

subsection \<open>Accepting\<close>

text \<open>A run of accepts.\<close>

fun accepts :: "(unit eff \<times> bool) list \<Rightarrow> SubversionServer \<Rightarrow> SubversionServer eff" where
  "accepts [] s = Inr s"
| "accepts ((st, e) # es) s = andThen (handle_accept st e s) (accepts es)"

definition accept_inv :: "SubversionServer \<Rightarrow> bool" where
  "accept_inv s \<longleftrightarrow> accepting s = [new_connection s] \<and> distinct (started_sessions s) \<and>
     (\<forall>i \<in> set (started_sessions s). i < new_connection s)"

lemma handle_accept_inv: "handle_accept st e s = Inr s' \<Longrightarrow> accept_inv s \<Longrightarrow> accept_inv s'"
  by (auto simp: accept_inv_def handle_accept_def start_accept_def andThen_eq_Inr Let_def less_Suc_eq split: if_splits)

lemma accepts_inv: "accepts es s = Inr s' \<Longrightarrow> accept_inv s \<Longrightarrow> accept_inv s'"
  by (induction es s rule: accepts.induct) (auto simp: andThen_eq_Inr dest: handle_accept_inv)

lemma accepts_count:
  "accepts es s = Inr s' \<Longrightarrow> length (started_sessions s') = length (started_sessions s) + length (filter (\<lambda>x. \<not> snd x) es)"
  by (induction es s rule: accepts.induct)
    (fastforce simp: handle_accept_def start_accept_def andThen_eq_Inr Let_def split: if_splits)+

lemma accepts_return: "\<forall>(st, e) \<in> set es. e \<or> st = Inr () \<Longrightarrow> \<exists>s'. accepts es s = Inr s'"
  by (induction es s rule: accepts.induct) (auto simp: handle_accept_def Let_def)

lemma new_server_up:
  assumes "poolSize na \<noteq> 0"
  shows "new_server open_acceptor env na k =
    andThen (open_acceptor (net_address na) (ucast (net_port na))) (\<lambda>_. Inr
      (\<lparr>thread_pool_size = unat (poolSize na), endpoint = (net_address na, ucast (net_port na)),
        new_connection = 1, accepting = [1], started_sessions = []\<rparr>, k))"
proof -
  have "unat (poolSize na) \<noteq> 0" using assms by (simp add: unat_eq_0)
  with assms show ?thesis by (simp add: new_server_def start_accept_def)
qed

lemma new_server_empty_pool:
  "poolSize na = 0 \<Longrightarrow>
     log (can_open env) (now env) (process_id env) (thread_id env) kFatal ''io_service_pool size is 0'' k = Inr k1 \<Longrightarrow>
     new_server open_acceptor env na k = Inl (RuntimeError ''io_service_pool size is 0'')"
  by (simp add: new_server_def)

subsection \<open>Properties\<close>

text \<open>
  The server comes up for every pool size but 0, when the acceptor can be opened, on the
  configured address and the port modulo \<open>2 ^ 16\<close>; then, however many connections arrive and
  accepts fail, as long as no \<open>start\<close> throws, each accepted connection has been started once, as a session of its own, and
  one accept is pending, for a session not yet started.
\<close>

theorem server_accepts:
  assumes "poolSize na \<noteq> 0" and "open_acceptor (net_address na) (ucast (net_port na)) = Inr ()"
    and "\<forall>(st, e) \<in> set es. e \<or> st = Inr ()"
  shows "\<exists>s s'. new_server open_acceptor env na k = Inr (s, k) \<and> thread_pool_size s = unat (poolSize na) \<and>
    endpoint s = (net_address na, ucast (net_port na)) \<and> accepts es s = Inr s' \<and>
    length (started_sessions s') = length (filter (\<lambda>x. \<not> snd x) es) \<and> distinct (started_sessions s') \<and>
    (\<exists>c. accepting s' = [c] \<and> c \<notin> set (started_sessions s'))"
proof -
  let ?s = "\<lparr>thread_pool_size = unat (poolSize na), endpoint = (net_address na, ucast (net_port na)),
    new_connection = 1, accepting = [1], started_sessions = []\<rparr>"
  have up: "new_server open_acceptor env na k = Inr (?s, k)"
    using new_server_up [OF assms(1), of open_acceptor env k] assms(2) by simp
  obtain s' where s': "accepts es ?s = Inr s'" using accepts_return [OF assms(3)] by blast
  have "accept_inv ?s" by (simp add: accept_inv_def)
  with accepts_inv [OF s'] have "accept_inv s'" by blast
  then have inv: "accepting s' = [new_connection s']" "distinct (started_sessions s')" "new_connection s' \<notin> set (started_sessions s')"
    by (auto simp: accept_inv_def)
  show ?thesis using up inv s' accepts_count [OF s'] by (intro exI [of _ ?s] exI [of _ s']) auto
qed

theorem server_accepts_witness:
  "\<exists>s s'. new_server (\<lambda>_ _. Inr ()) example_env (example_network\<lparr>net_port := 69226\<rparr>) new_klogger = Inr (s, new_klogger) \<and>
     endpoint s = (''0.0.0.0'', 3690) \<and> accepts [(Inr (), False), (Inr (), True), (Inr (), False)] s = Inr s' \<and> length (started_sessions s') = 2"
  using server_accepts [of "example_network\<lparr>net_port := 69226\<rparr>" "\<lambda>_ _. Inr ()" "[(Inr (), False), (Inr (), True), (Inr (), False)]"
      example_env new_klogger]
  by (auto simp: example_network_def)

end
