(* ===== verification/Launch.thy ===== *)
theory Launch
  imports Program Daemon Server
begin

section \<open>The whole of \<open>main\<close> (\<open>main.cc\<close>)\<close>

text \<open>
  What \<open>main\<close> does with the choice \<open>main_start\<close> made: it sends a signal to the daemon, becomes one and serves, or serves in the
  foreground, and with which number it ends. \<open>Program\<close> has the start, \<open>Daemon\<close> and \<open>Server\<close> the parts that are called here.

  The properties: the exit status of \<open>svnsrv -s\<close>, and that \<open>svnsrv -D\<close> comes to a server on the configured address in a process
  the pid file names.
\<close>

subsection \<open>Printing and signals\<close>

definition CONFIG_VERSION :: string where
  "CONFIG_VERSION = ''1.0.0.0''"

abbreviation newline :: char where
  "newline \<equiv> CHR 0x0A"

definition kVersion :: string where
  "kVersion = ''svnsrv version '' @ CONFIG_VERSION @ [newline] @
     ''svnsrv is authored by Force Charlie <forcemz@forcemz.net>.'' @ [newline] @
     ''Copyright (C) 2016 OSChina.NET .All Rights Reserved.'' @ [newline] @
     ''This software Licensed under the MTI License.'' @ [newline]"

definition kUsage :: string where
  "kUsage = ''OVERVIEW: svnsrv subversion proxy service'' @ [newline] @
     ''Usage: svnsrv [options] <input> '' @ [newline] @ [newline] @ ''OPTIONS:'' @ [newline] @
     ''  -D [--daemon]      run svnsrv as a daemon'' @ [newline] @
     ''  -c [--config]      set svnsrv config file,file is toml format'' @ [newline] @
     ''  -d [--debug]       run svnsrv as debug mode'' @ [newline] @
     ''  -h [-?|--help]     print svnsrv usage information and exit'' @ [newline] @
     ''  -v [--version]     print svnsrv version and exit'' @ [newline] @
     ''  -q [--quiet]       print svnsrv version short mode'' @ [newline] @
     ''  -s [--signal]      send a signal to svnsrv,argument: stop|restart '' @ [newline]"

text \<open>Printing returns the exit status and what is written on standard output.\<close>

definition PrintVersion :: "bool \<Rightarrow> int \<times> string" where
  "PrintVersion short = (0, if short then CONFIG_VERSION @ [newline] else kVersion)"

definition PrintUsage :: "int \<times> string" where
  "PrintUsage = (0, kUsage @ [newline])"

datatype ProcessSignalFlow = kRequireExit | kKillProcessFailed | kRequireContinue | kArgumentError

fun flow_code :: "ProcessSignalFlow \<Rightarrow> int" where
  "flow_code kRequireExit = 0"
| "flow_code kKillProcessFailed = 1"
| "flow_code kRequireContinue = 2"
| "flow_code kArgumentError = 3"

text \<open>
  What the system answers to the calls of a restart and a stop, besides the pid files: the exit of a process by \<open>exec\<close> or
  \<open>exit\<close> is a result of its own.
\<close>

record signal_calls =
  kill_value :: int
  exe_link :: "string option"
  cmdline_text :: "string option"
  forked :: int
  exec_ok :: bool
  errno_text :: string
  os_after :: os

datatype main_outcome =
    Status int
  | Becomes string "string list"
  | Waits_for_worker
  | Serves SubversionServer process

definition ProcessSignalArgs ::
    "(string \<Rightarrow> bool) \<Rightarrow> tm \<Rightarrow> signal_calls \<Rightarrow> string \<Rightarrow> LauncherArgs \<Rightarrow> os \<Rightarrow> process \<Rightarrow> (main_outcome \<times> (int \<times> signal) list) eff" where
  "ProcessSignalArgs fopen_ok t sc sig la os p =
     (if c_str sig = ''stop'' then
        andThen (DaemonStop os (self p) (kill_value sc) (pidFile la)) (\<lambda>(ok, sent).
          Inr (Status (flow_code (if ok then kRequireExit else kKillProcessFailed)), sent))
      else if c_str sig = ''restart'' then
        andThen (DaemonRestart fopen_ok t (exe_link sc) (cmdline_text sc) (forked sc) (exec_ok sc) (errno_text sc) os (os_after sc)
            (pidFile la) p) (\<lambda>(r, sent, p1).
          Inr (case r of
                 Reports ok \<Rightarrow> Status (flow_code (if ok then kRequireContinue else kKillProcessFailed))
               | Executes exe args \<Rightarrow> Becomes exe args
               | Ends n \<Rightarrow> Status n, sent))
      else Inr (Status (flow_code kArgumentError), []))"

subsection \<open>Serving\<close>

definition serve ::
    "(string \<Rightarrow> u16 \<Rightarrow> unit eff) \<Rightarrow> environment \<Rightarrow> NetworkServerArgs \<Rightarrow> process \<Rightarrow> main_outcome eff" where
  "serve open_acceptor env na p =
     andThen (SubversionServerInitialize open_acceptor (env\<lparr>process_id := self p, thread_id := thread p\<rparr>) na (logger p)) (\<lambda>(s, k).
       Inr (Serves s (p\<lparr>logger := k\<rparr>)))"

text \<open>
  The rest of \<open>main\<close>. \<open>st\<close> has the answers of the calls \<open>Daemonize\<close> makes, \<open>turns\<close> those of the
  master's \<open>fork\<close> calls, \<open>worker\<close> the process id of a worker and \<open>block\<close> the worker's memory for its environment.
\<close>

definition become_daemon ::
    "(string \<Rightarrow> u16 \<Rightarrow> unit eff) \<Rightarrow> environment \<Rightarrow> startup \<Rightarrow> int \<Rightarrow> (int \<times> tm) list \<Rightarrow> (int \<times> string) option \<Rightarrow>
     LauncherArgs \<Rightarrow> NetworkServerArgs \<Rightarrow> os \<Rightarrow> process \<Rightarrow> (main_outcome \<times> os) eff" where
  "become_daemon open_acceptor env st worker turns block la na os p =
     (let (_, p1) = DaemonSignalMethod p; msg = log_message (can_open env) (now env) in
      andThen (Daemonize (can_open env) (now env) st (pidFile la) os p1) (\<lambda>(r, os1, p2).
        case r of
          Exits n \<Rightarrow> Inr (Status n, os1)
        | Returns n \<Rightarrow>
            if n \<noteq> 0 then
              andThen (msg kError (''cannot create svnsrv daemon,this pid= '' @ show_int (self p2)) p2) (\<lambda>p3.
              andThen (flush_log p3) (\<lambda>p4. Inr (Status (- 1), os1)))
            else
              andThen (msg kInfo (''svnsrv run as daemon success,pid: '' @ show_int (self p2)) p2) (\<lambda>p3.
              andThen (flush_log p3) (\<lambda>p4.
              andThen (DaemonWait (can_open env) worker block (crashRestart la) turns p4) (\<lambda>w.
                case w of
                  None \<Rightarrow> Inr (Waits_for_worker, os1)
                | Some (ok, p5) \<Rightarrow>
                    if \<not> ok then
                      andThen (msg kError ''cannot create watcher process !'' p5) (\<lambda>p6. Inr (Status (- 1), os1))
                    else andThen (serve open_acceptor env na p5) (\<lambda>out. Inr (out, os1)))))))"

definition main_finish ::
    "(string \<Rightarrow> u16 \<Rightarrow> unit eff) \<Rightarrow> environment \<Rightarrow> signal_calls \<Rightarrow> startup \<Rightarrow> int \<Rightarrow> (int \<times> tm) list \<Rightarrow> (int \<times> string) option \<Rightarrow>
     os \<Rightarrow> process \<Rightarrow> main_result \<Rightarrow> (main_outcome \<times> os \<times> (int \<times> signal) list) eff" where
  "main_finish open_acceptor env sc st worker turns block os p r =
     (case r of
        Usage \<Rightarrow> Inr (Status (fst PrintUsage), os, [])
      | Version short \<Rightarrow> Inr (Status (fst (PrintVersion short)), os, [])
      | Failed_start n \<Rightarrow> Inr (Status n, os, [])
      | Choice mode router k \<Rightarrow>
          let p1 = p\<lparr>logger := k\<rparr>; env1 = env\<lparr>router_state := router\<rparr> in
          case mode of
            SendSignal sig la \<Rightarrow>
              andThen (ProcessSignalArgs (can_open env) (now env) sc sig la os p1) (\<lambda>(out, sent). Inr (out, os, sent))
          | BecomeDaemon la na \<Rightarrow>
              andThen (become_daemon open_acceptor env1 st worker turns block la na os p1) (\<lambda>(out, os1). Inr (out, os1, []))
          | Foreground na \<Rightarrow>
              andThen (serve open_acceptor env1 na (snd (ForegroundSignalMethod p1))) (\<lambda>out. Inr (out, os, [])))"

subsection \<open>The exit status of \<open>svnsrv -s\<close>\<close>

text \<open>
  The status of \<open>svnsrv -s\<close>: 0 when the daemon of the pid file took the signal, 1 when there is none or it could not be signalled,
  3 for any other word than the two. A restart that succeeds ends with 2, \<open>kRequireContinue\<close>, which \<open>main\<close>
  returns as it is, so that to the shell it has failed.
\<close>

theorem signal_status:
  assumes "check_pid os (self p) (c_str (pidFile la)) = Inr pid" and "check_pid (os_after sc) (self p) (c_str (pidFile la)) = Inr nid"
    and "exe_link sc \<noteq> Some []" and "cmdline_text sc = Some text" and "forked sc \<noteq> 0"
  shows "ProcessSignalArgs ok t sc sig la os p =
    Inr (Status
      (if c_str sig = ''stop'' then (if pid \<noteq> 0 \<and> kill_value sc = 0 then 0 else 1)
       else if c_str sig = ''restart'' then (if pid \<noteq> 0 \<and> nid \<noteq> 0 then 2 else 1)
       else 3),
     if (c_str sig = ''stop'' \<or> c_str sig = ''restart'') \<and> pid \<noteq> 0 then [(pid, SIGUSR1)] else [])"
  using assms by (simp add: ProcessSignalArgs_def DaemonStop_def DaemonRestart_def ParsePathAndArgv_def Let_def)

definition example_signal :: signal_calls where
  "example_signal = \<lparr>kill_value = 0, exe_link = Some ''/usr/bin/svnsrv'', cmdline_text = Some ''svnsrv'', forked = 60, exec_ok = True,
     errno_text = [], os_after = example_os\<rparr>"

theorem signal_status_witness:
  "ProcessSignalArgs (\<lambda>_. True) example_tm example_signal ''restart'' (example_launcher\<lparr>pidFile := ''svnsrv.pid''\<rparr>) example_os
     (example_process 50) = Inr (Status 2, [(41, SIGUSR1)])"
proof -
  have "c_str ''restart'' = ''restart''" "self (example_process 50) = 50" by (simp_all add: c_str_def example_process_def)
  with signal_status [of example_os "example_process 50" "example_launcher\<lparr>pidFile := ''svnsrv.pid''\<rparr>" 41 example_signal 41
      "''svnsrv''" "\<lambda>_. True" example_tm "''restart''"]
  show ?thesis by (simp add: example_daemon example_signal_def)
qed

subsection \<open>Facts about becoming a daemon\<close>

lemma Daemonize_goes_through:
  assumes "check_pid os (self p) (c_str f) = Inr 0" and "fork_value st = 0" and "setsid_ok st" and "null_fd st \<noteq> - 1"
    and "dup_stdin_ok st" and "dup_stdout_ok st" and "close_ok st" and "writable os (c_str f)"
  shows "\<exists>os1 p1. Daemonize ok t st f os p = Inr (Returns 0, os1, p1) \<and> thread p1 = thread p \<and> command_area p1 = command_area p"
  using assms by (auto simp: Daemonize_def write_pid_def mask_cache_def dup2_def Let_def)

text \<open>A logger on two files with room for \<open>n\<close> more lines; prefixes of a sensible length.\<close>

definition can_log :: "nat \<Rightarrow> Klogger \<Rightarrow> bool" where
  "can_log n k \<longleftrightarrow> (\<exists>e. logError k = Some (File e)) \<and> (\<exists>a. logAccess k = Some (File a)) \<and> unat (errorCounts k) + n \<le> 50000"

definition sensible_prefix :: "tm \<Rightarrow> int \<Rightarrow> nat \<Rightarrow> bool" where
  "sensible_prefix t pid tid \<longleftrightarrow> calendar t \<and>
     length (log_prefix t pid tid kError) \<le> 2000 \<and> length (log_prefix t pid tid kInfo) \<le> 2000"

lemma can_log_log:
  assumes "can_log (Suc n) k" and "sensible_prefix t pid tid" and "l = kError \<or> l = kInfo" and "length msg \<le> 2000"
  shows "\<exists>k1. log ok t pid tid l msg k = Inr k1 \<and> can_log n k1"
proof -
  obtain e where e: "logError k = Some (File e)" and c: "calendar t" using assms(1,2) by (auto simp: can_log_def sensible_prefix_def)
  have "length (log_prefix t pid tid l) + length msg \<le> 4094" using assms by (auto simp: can_log_def sensible_prefix_def)
  moreover have "\<not> MAX_LINE_NUMBER \<le> errorCounts k"
    using assms(1) by (simp add: can_log_def MAX_LINE_NUMBER_def not_le word_less_nat_alt)
  moreover from this have "unat (errorCounts k + 1) = unat (errorCounts k) + 1"
    by (simp add: MAX_LINE_NUMBER_def not_le word_less_nat_alt unat_word_ariths(1))
  ultimately show ?thesis
    using assms(1) e c
    by (simp add: log_calendar log_line_intact writerError_def fwrite_def closed_def can_log_def Let_def)
qed

lemma can_log_message:
  assumes "can_log (Suc n) (logger p)" and "sensible_prefix t (self p) (thread p)" and "l = kError \<or> l = kInfo" and "length msg \<le> 2000"
  shows "\<exists>k1. log_message ok t l msg p = Inr (p\<lparr>logger := k1\<rparr>) \<and> can_log n k1"
  using can_log_log [OF assms, of ok] by (auto simp: log_message_def)

lemma can_log_flush:
  assumes "can_log n (logger p)"
  shows "\<exists>k1. flush_log p = Inr (p\<lparr>logger := k1\<rparr>) \<and> can_log n k1"
proof -
  obtain e a where "logError (logger p) = Some (File e)" "logAccess (logger p) = Some (File a)"
    using assms by (auto simp: can_log_def)
  from flush_log_files [OF this] assms show ?thesis by (auto simp: can_log_def)
qed

lemma length_show_sint: "length (show_int (sint (w :: u32))) \<le> 11"
proof -
  have "- (2 ^ 31) \<le> sint w" "sint w < 2 ^ 31" using sint_ge [of w] sint_lt [of w] by simp_all
  then have "nat (sint w) < 10 ^ 10" "nat (- sint w) < 10 ^ 10" by simp_all
  from this [THEN length_show_nat] show ?thesis by (auto simp: show_int_def)
qed

lemma length_show_pid: "0 \<le> i \<Longrightarrow> i \<le> 2147483647 \<Longrightarrow> length (show_int i) \<le> 10"
  using length_show_nat [of "nat i" 10] by (simp add: show_int_def)

lemma initialize_comes_up:
  assumes "can_log 2 k" and "sensible_prefix (now env) (process_id env) (thread_id env)" and "poolSize na \<noteq> 0"
    and "open_acceptor (net_address na) (ucast (net_port na)) = Inr ()" and "length (net_address na) \<le> 1000"
  shows "\<exists>s k1. SubversionServerInitialize open_acceptor env na k = Inr (s, k1) \<and>
    endpoint s = (net_address na, ucast (net_port na)) \<and> thread_pool_size s = unat (poolSize na) \<and> length (accepting s) = 1"
proof -
  let ?msg = "''Listener address: '' @ c_str (net_address na) @ '':'' @ show_int (sint (net_port na)) @
    '' Thread counts: '' @ show_int (sint (poolSize na))"
  have l: "length ?msg \<le> 2000"
    using length_show_sint [of "net_port na"] length_show_sint [of "poolSize na"] length_c_str [of "net_address na"] assms(5) by simp
  have "can_log (Suc (Suc 0)) k" using assms(1) by (simp add: numeral_2_eq_2)
  then obtain k1 where k1: "log (can_open env) (now env) (process_id env) (thread_id env) kInfo ''svnsrv running'' k = Inr k1"
    and c1: "can_log (Suc 0) k1"
    using can_log_log [OF _ assms(2), of "Suc 0" k kInfo "''svnsrv running''" "can_open env"] by auto
  obtain k2 where "log (can_open env) (now env) (process_id env) (thread_id env) kInfo ?msg k1 = Inr k2"
    using can_log_log [OF c1 assms(2) _ l] by blast
  with k1 new_server_up [OF assms(3), of open_acceptor env k1] assms(4) show ?thesis
    by (simp add: SubversionServerInitialize_def Let_def)
qed

subsection \<open>\<open>svnsrv -D\<close> serves\<close>

text \<open>
  What becoming a worker asks for: the process is the one that the first \<open>fork\<close> of the master makes, and its area has room for the title.
\<close>

definition first_worker :: "(int \<times> string) option \<Rightarrow> (int \<times> tm) list \<Rightarrow> process \<Rightarrow> bool" where
  "first_worker block turns p \<longleftrightarrow> (\<exists>t0 a args envs l h g. turns = [(0, t0)] \<and> block = Some (h, g) \<and>
     command_area p = laid_out a args envs l \<and> args \<noteq> [] \<and> (\<forall>s \<in> set (args @ envs). nul \<notin> set s) \<and> apart a args envs h \<and>
     length (proc_cmdline envs) \<le> length g \<and> 24 \<le> length (proc_cmdline (args @ envs)))"

lemma DaemonWait_first:
  assumes "crash \<longrightarrow> first_worker block turns p"
  shows "\<exists>q. DaemonWait ok worker block crash turns p = Inr (Some (True, q)) \<and> child_pid q = (if crash then 0 else - 1) \<and>
    self q = (if crash then worker else self p) \<and> thread q = thread p \<and> logger q = logger p \<and> handlers q = handlers p"
proof (cases crash)
  case True
  then obtain t0 a args envs l h g where w: "turns = [(0, t0)]" "block = Some (h, g)" "command_area p = laid_out a args envs l"
    "args \<noteq> []" "\<forall>s \<in> set (args @ envs). nul \<notin> set s" "apart a args envs h" "length (proc_cmdline envs) \<le> length g"
    "24 \<le> length (proc_cmdline (args @ envs))"
    using assms by (auto simp: first_worker_def)
  obtain s where "relabel (Some (h, g)) ''svnsrv: worker process'' (laid_out a args envs l) = Inr s"
    using title_of_area [OF w(4-7), of "''svnsrv: worker process''" l] w(8) by auto
  with True w(1-3) show ?thesis by (simp add: DaemonWait_def set_name_def)
qed (simp add: DaemonWait_def set_name_def)

lemma serve_comes_up:
  assumes "can_log 2 (logger p)" and "sensible_prefix (now env) (self p) (thread p)" and "poolSize na \<noteq> 0"
    and "open_acceptor (net_address na) (ucast (net_port na)) = Inr ()" and "length (net_address na) \<le> 1000"
  shows "\<exists>s k. serve open_acceptor env na p = Inr (Serves s (p\<lparr>logger := k\<rparr>)) \<and> endpoint s = (net_address na, ucast (net_port na)) \<and>
    length (accepting s) = 1"
  using initialize_comes_up [of "logger p" "env\<lparr>process_id := self p, thread_id := thread p\<rparr>" na open_acceptor] assms
  by (auto simp: serve_def)

text \<open>
  C6: \<open>svnsrv -D\<close>: when the settings and the router table are loaded, no daemon runs and the system calls succeed, the process \<open>main\<close> goes on
  in comes to serve on the configured address, one accept pending; the pid file names it (or its master, when it is a worker), it
  ends on \<open>SIGUSR1\<close>, and \<open>child_pid\<close> says which kind of process it is.
\<close>

theorem daemon_serves:
  assumes "check_pid os (self p) (c_str (pidFile la)) = Inr 0" and "fork_value st = 0" and "setsid_ok st" and "null_fd st \<noteq> - 1"
    and "dup_stdin_ok st" and "dup_stdout_ok st" and "close_ok st" and "writable os (c_str (pidFile la))"
    and "0 < new_pid st" and "new_pid st \<le> 2147483647" and "can_log 3 k"
    and "sensible_prefix (now env) (new_pid st) (thread p)" and "crashRestart la \<longrightarrow> sensible_prefix (now env) worker (thread p)"
    and "poolSize na \<noteq> 0" and "open_acceptor (net_address na) (ucast (net_port na)) = Inr ()" and "length (net_address na) \<le> 1000"
    and "crashRestart la \<longrightarrow> first_worker block turns p"
  shows "\<exists>s q os1. main_finish open_acceptor env sc st worker turns block os p (Choice (BecomeDaemon la na) router k) =
      Inr (Serves s q, os1, []) \<and> endpoint s = (net_address na, ucast (net_port na)) \<and> length (accepting s) = 1 \<and>
      pid_files os1 (c_str (pidFile la)) = Some (show_int (new_pid st)) \<and> self q = (if crashRestart la then worker else new_pid st) \<and> handlers q SIGUSR1 = Handle_daemon_kill \<and>
      child_pid q = (if crashRestart la then 0 else - 1)"
proof -
  let ?env = "env\<lparr>router_state := router\<rparr>" and ?p = "snd (DaemonSignalMethod (p\<lparr>logger := k\<rparr>))"
  let ?msg = "''svnsrv run as daemon success,pid: '' @ show_int (new_pid st)"
  have p: "self ?p = self p" "thread ?p = thread p" "command_area ?p = command_area p" "logger ?p = k"
    "handlers ?p SIGUSR1 = Handle_daemon_kill" by (simp_all add: DaemonSignalMethod_def)
  obtain os1 p1 where d: "Daemonize (can_open ?env) (now ?env) st (pidFile la) os ?p = Inr (Returns 0, os1, p1)"
      "thread p1 = thread p" "command_area p1 = command_area p"
    using Daemonize_goes_through [of os ?p "pidFile la" st "can_open ?env" "now ?env"] assms(1-8) p by auto
  note s1 = Daemonize_success [OF d(1)]
  have "length ?msg \<le> 2000" using length_show_pid [of "new_pid st"] assms(9,10) by simp
  then obtain k1 where l: "log_message (can_open ?env) (now ?env) kInfo ?msg p1 = Inr (p1\<lparr>logger := k1\<rparr>)"
      "can_log 2 k1"
    using can_log_message [of 2 p1 "now ?env" kInfo ?msg "can_open ?env"] assms(11,12) s1(4,10) d(2) p by auto
  then obtain k2 where f: "flush_log (p1\<lparr>logger := k1\<rparr>) = Inr (p1\<lparr>logger := k2\<rparr>)" "can_log 2 k2"
    using can_log_flush [of 2 "p1\<lparr>logger := k1\<rparr>"] s1(4) d(2) by auto
  have "crashRestart la \<longrightarrow> first_worker block turns (p1\<lparr>logger := k2\<rparr>)"
    using assms(17) d(3) by (simp add: first_worker_def)
  then obtain q where w: "DaemonWait (can_open ?env) worker block (crashRestart la) turns (p1\<lparr>logger := k2\<rparr>) = Inr (Some (True, q))"
      "child_pid q = (if crashRestart la then 0 else - 1)" "self q = (if crashRestart la then worker else new_pid st)" "thread q = thread p" "logger q = k2"
      "handlers q = handlers ?p"
    using DaemonWait_first [of "crashRestart la" block turns "p1\<lparr>logger := k2\<rparr>" "can_open ?env" worker] s1(4,7) d(2) by auto
  have "sensible_prefix (now ?env) (self q) (thread q)" using assms(12,13) w(3,4) by auto
  then obtain s k3 where v: "serve open_acceptor ?env na q = Inr (Serves s (q\<lparr>logger := k3\<rparr>))"
      "endpoint s = (net_address na, ucast (net_port na))" "length (accepting s) = 1"
    using serve_comes_up [of q ?env na open_acceptor] assms(14-16) w(5) f(2) by auto
  have "become_daemon open_acceptor ?env st worker turns block la na os (p\<lparr>logger := k\<rparr>) = Inr (Serves s (q\<lparr>logger := k3\<rparr>), os1)"
    using d(1) l(1) f(1) w(1) v(1) s1(4) by (simp add: become_daemon_def split_beta Let_def)
  then have "main_finish open_acceptor env sc st worker turns block os p (Choice (BecomeDaemon la na) router k) =
      Inr (Serves s (q\<lparr>logger := k3\<rparr>), os1, [])"
    by (simp add: main_finish_def Let_def)
  moreover have "pid_files os1 (c_str (pidFile la)) = Some (show_int (new_pid st))" using s1(3) by simp
  ultimately show ?thesis using v(2,3) w(2,3,6) p(5) by auto
qed

lemma example_prefix:
  assumes "0 \<le> i" and "i < 100"
  shows "sensible_prefix example_tm i 8"
proof -
  have "length (show_int i) \<le> 2" "length (show_nat 8) \<le> 1"
    using length_show_nat [of "nat i" 2] length_show_nat [of 8 1] assms by (auto simp: show_int_def)
  then show ?thesis
    by (simp add: sensible_prefix_def calendar_example_tm log_prefix_def clock_calendar [OF calendar_example_tm])
qed

theorem daemon_serves_witness:
  "\<exists>s q os1. main_finish (\<lambda>_ _. Inr ()) example_env example_signal (example_startup 42) 43 [(0, example_tm)]
      (Some (5000, replicate 64 (CHR ''x''))) example_os (example_process 50)
      (Choice (BecomeDaemon (example_launcher\<lparr>pidFile := ''new.pid''\<rparr>) example_network) (router_state example_env) (logger (example_process 50))) =
      Inr (Serves s q, os1, []) \<and> endpoint s = (''0.0.0.0'', 3690) \<and> pid_files os1 ''new.pid'' = Some (show_int 42) \<and> child_pid q = 0"
proof -
  let ?la = "example_launcher\<lparr>pidFile := ''new.pid''\<rparr>" and ?p = "example_process 50"
  have n0: "c_str ''new.pid'' = ''new.pid''" by (simp add: c_str_def)
  then have f: "c_str (pidFile ?la) = ''new.pid''" by simp
  have t: "now example_env = example_tm" by simp
  have th: "thread ?p = 8" by (simp add: example_process_def)
  have c: "check_pid example_os (self ?p) (c_str (pidFile ?la)) = Inr 0"
    by (simp add: n0 check_pid_none example_os_def)
  have k: "can_log 3 (logger ?p)" by (simp add: can_log_def example_process_def new_klogger_def)
  have w: "crashRestart ?la \<longrightarrow> first_worker (Some (5000, replicate 64 (CHR ''x''))) [(0, example_tm)] ?p"
    unfolding first_worker_def
    by (intro impI exI [of _ example_tm] exI [of _ 1000] exI [of _ "[''svnsrv'', ''-D'']"]
        exI [of _ "[''PATH=/bin:/usr/bin'', ''HOME=/root'']"] exI [of _ 0] exI [of _ 5000]
        exI [of _ "replicate 64 (CHR ''x'')"]) (simp add: example_process_def apart_def)
  have n: "poolSize example_network \<noteq> 0" "length (net_address example_network) \<le> 1000" "crashRestart ?la"
    "net_address example_network = ''0.0.0.0''" "net_port example_network = 3690"
    by (simp_all add: example_network_def example_launcher_def)
  have "\<exists>s q os1. main_finish (\<lambda>_ _. Inr ()) example_env example_signal (example_startup 42) 43 [(0, example_tm)]
      (Some (5000, replicate 64 (CHR ''x''))) example_os ?p (Choice (BecomeDaemon ?la example_network) (router_state example_env) (logger ?p)) =
      Inr (Serves s q, os1, []) \<and> endpoint s = (net_address example_network, ucast (net_port example_network)) \<and> length (accepting s) = 1 \<and>
      pid_files os1 (c_str (pidFile ?la)) = Some (show_int (new_pid (example_startup 42))) \<and>
      self q = (if crashRestart ?la then 43 else new_pid (example_startup 42)) \<and> handlers q SIGUSR1 = Handle_daemon_kill \<and>
      child_pid q = (if crashRestart ?la then 0 else - 1)"
    by (rule daemon_serves [OF c _ _ _ _ _ _ _ _ _ k _ _ n(1) _ n(2) w])
      (simp_all add: n0 example_startup_def example_os_def t th example_prefix)
  then show ?thesis unfolding f using n by (auto simp: example_startup_def)
qed

end
