(* ===== verification/Bsd_Daemon.thy ===== *)
theory Bsd_Daemon
  imports Launch Daemon_Interface
begin

section \<open>The program on the BSD systems and macOS (\<open>daemonize_bsd.inl\<close>, \<open>Runtime.cc\<close>, \<open>main.cc\<close>)\<close>

text \<open>
  The functions of \<open>Daemonize.h\<close> as these systems have them, each a stub; \<open>main\<close> on top of them; and the four ways in which
  \<open>GetProcessImageFileFolder\<close> asks for the executable. What the system answers is an argument: for macOS the path \<open>_NSGetExecutablePath\<close> stores and the
  function \<open>realpath\<close>, for FreeBSD what \<open>sysctl\<close> leaves in the array (\<open>None\<close> when it fails, which is not tested), for the others the bytes of the link.
  All four define \<open>PATH_MAX\<close> as 1024, and macOS \<open>MAXPATHLEN\<close> as the same. A name has the suffix \<open>_bsd\<close> where the Linux build has it too.

  The properties: the folder is found on all four systems; \<open>-D\<close> serves in the process that was started, whatever the
  pid file says, and \<open>-s\<close> signals nobody.
\<close>

subsection \<open>The stubs\<close>

definition Daemonize_bsd :: "string \<Rightarrow> int" where
  "Daemonize_bsd pidfile = 0"

definition DaemonWait_bsd :: "string list \<Rightarrow> bool \<Rightarrow> bool" where
  "DaemonWait_bsd args crash = True"

definition DaemonSignalMethod_bsd :: int where
  "DaemonSignalMethod_bsd = 0"

definition ForegroundSignalMethod_bsd :: int where
  "ForegroundSignalMethod_bsd = 0"

definition DaemonStop_bsd :: "string \<Rightarrow> bool" where
  "DaemonStop_bsd f = True"

definition DaemonRestart_bsd :: "string \<Rightarrow> bool" where
  "DaemonRestart_bsd f = True"

subsection \<open>\<open>main\<close>\<close>

definition ProcessSignalArgs_bsd :: "string \<Rightarrow> LauncherArgs \<Rightarrow> int" where
  "ProcessSignalArgs_bsd sig la =
     (if c_str sig = ''stop'' then flow_code (if DaemonStop_bsd (pidFile la) then kRequireExit else kKillProcessFailed)
      else if c_str sig = ''restart'' then flow_code (if DaemonRestart_bsd (pidFile la) then kRequireContinue else kKillProcessFailed)
      else flow_code kArgumentError)"

definition become_daemon_bsd ::
    "(string \<Rightarrow> u16 \<Rightarrow> unit eff) \<Rightarrow> environment \<Rightarrow> string list \<Rightarrow> LauncherArgs \<Rightarrow> NetworkServerArgs \<Rightarrow> process \<Rightarrow> main_outcome eff" where
  "become_daemon_bsd open_acceptor env args la na p =
     (let msg = log_message (can_open env) (now env) in
      if Daemonize_bsd (pidFile la) \<noteq> 0 then
        andThen (msg kError (''cannot create svnsrv daemon,this pid= '' @ show_int (self p)) p) (\<lambda>p1.
        andThen (flush_log p1) (\<lambda>p2. Inr (Status (- 1))))
      else
        andThen (msg kInfo (''svnsrv run as daemon success,pid: '' @ show_int (self p)) p) (\<lambda>p1.
        andThen (flush_log p1) (\<lambda>p2.
          if \<not> DaemonWait_bsd args (crashRestart la) then
            andThen (msg kError ''cannot create watcher process !'' p2) (\<lambda>p3. Inr (Status (- 1)))
          else serve open_acceptor env na p2)))"

definition main_finish_bsd ::
    "(string \<Rightarrow> u16 \<Rightarrow> unit eff) \<Rightarrow> environment \<Rightarrow> string list \<Rightarrow> process \<Rightarrow> main_result \<Rightarrow> main_outcome eff" where
  "main_finish_bsd open_acceptor env args p r =
     (case r of
        Usage \<Rightarrow> Inr (Status (fst PrintUsage))
      | Version short \<Rightarrow> Inr (Status (fst (PrintVersion short)))
      | Failed_start n \<Rightarrow> Inr (Status n)
      | Choice mode router k \<Rightarrow>
          let p1 = p\<lparr>logger := k\<rparr>; env1 = env\<lparr>router_state := router\<rparr> in
          case mode of
            SendSignal sig la \<Rightarrow> Inr (Status (ProcessSignalArgs_bsd sig la))
          | BecomeDaemon la na \<Rightarrow> become_daemon_bsd open_acceptor env1 args la na p1
          | Foreground na \<Rightarrow> serve open_acceptor env1 na p1)"

subsection \<open>The folder of the executable\<close>

definition PATH_MAX_bsd :: nat where
  "PATH_MAX_bsd = 1024"

datatype executable =
    Apple "string option" "string \<Rightarrow> string option"
  | FreeBSD "string option"
  | NetBSD "string option"
  | DragonFly "string option"

text \<open>A text stored with its NUL at the start of an array; \<open>strncpy\<close> cuts at its size and fills up with NULs.\<close>

definition store_text :: "string \<Rightarrow> string \<Rightarrow> string eff" where
  "store_text s a = (if length a \<le> length s then Inl OutOfBounds else Inr (s @ nul # drop (Suc (length s)) a))"

definition strncpy_text :: "string \<Rightarrow> nat \<Rightarrow> string \<Rightarrow> string eff" where
  "strncpy_text s n a =
     (if length a < n then Inl OutOfBounds
      else let t = take n (c_str s) in Inr (t @ replicate (n - length t) nul @ drop n a))"

text \<open>\<open>readlink\<close> with the whole size of the array, and the NUL that is stored behind what it wrote.\<close>

definition link_text :: "string option \<Rightarrow> string \<Rightarrow> string option eff" where
  "link_text link exe_path =
     (case link of
        None \<Rightarrow> Inr None
      | Some target \<Rightarrow>
          let stored = take PATH_MAX_bsd target; len = length stored in
          if len = 0 then Inr None
          else if PATH_MAX_bsd \<le> len then Inl OutOfBounds
          else Inr (Some ((stored @ drop len exe_path)[len := nul])))"

definition GetProcessImageFileFolder_bsd :: "executable \<Rightarrow> string \<Rightarrow> (bool \<times> string) eff" where
  "GetProcessImageFileFolder_bsd exe dir =
     (let exe_path = replicate PATH_MAX_bsd nul in
      andThen
        (case exe of
           Apple None realpath \<Rightarrow> Inr None
         | Apple (Some s) realpath \<Rightarrow>
             andThen (store_text s exe_path) (\<lambda>a.
               case realpath (c_str a) of
                 None \<Rightarrow> Inr (Some a)
               | Some link_path \<Rightarrow> andThen (strncpy_text link_path PATH_MAX_bsd a) (\<lambda>a1. Inr (Some a1)))
         | FreeBSD None \<Rightarrow> Inr (Some exe_path)
         | FreeBSD (Some s) \<Rightarrow> andThen (store_text s exe_path) (\<lambda>a. Inr (Some a))
         | NetBSD link \<Rightarrow> link_text link exe_path
         | DragonFly link \<Rightarrow> link_text link exe_path)
        (\<lambda>found. case found of
           None \<Rightarrow> Inr (False, dir)
         | Some a \<Rightarrow>
             if nul \<notin> set a then Inl OutOfBounds
             else
               (case PathRemoveFileSpec (Some a) PATH_MAX_bsd of
                  (True, Some p) \<Rightarrow> Inr (True, c_str p)
                | _ \<Rightarrow> Inr (False, dir))))"

subsection \<open>Facts\<close>

text \<open>The path the system names: on macOS the one \<open>realpath\<close> gives, when it gives one.\<close>

fun named_path :: "executable \<Rightarrow> string option" where
  "named_path (Apple s realpath) =
     (case s of None \<Rightarrow> None | Some x \<Rightarrow> Some (case realpath x of None \<Rightarrow> x | Some y \<Rightarrow> y))"
| "named_path (FreeBSD s) = s"
| "named_path (NetBSD s) = s"
| "named_path (DragonFly s) = s"

text \<open>What the documentation of the calls says of a stored path: shorter than the array, without a NUL.\<close>

fun fits :: "executable \<Rightarrow> bool" where
  "fits (Apple s realpath) = (\<forall>x. s = Some x \<longrightarrow> nul \<notin> set x \<and> length x < PATH_MAX_bsd)"
| "fits exe = True"

lemma c_str_stored: "nul \<notin> set s \<Longrightarrow> c_str (s @ nul # r) = s"
  unfolding c_str_def by (intro takeWhile_append_stop) auto

lemma c_str_whole: "nul \<notin> set s \<Longrightarrow> c_str s = s"
  unfolding c_str_def by (rule takeWhile_eq_all_conv [THEN iffD2]) auto

lemma stored_in_array:
  assumes "length s < PATH_MAX_bsd"
  obtains r where "store_text s (replicate PATH_MAX_bsd nul) = Inr (s @ nul # r)" "length (s @ nul # r) = PATH_MAX_bsd"
  using assms by (auto simp: store_text_def)

lemma copied_in_array:
  assumes "length s < PATH_MAX_bsd" and "nul \<notin> set s" and "length a = PATH_MAX_bsd"
  obtains r where "strncpy_text s PATH_MAX_bsd a = Inr (s @ nul # r)"
proof -
  obtain m where "PATH_MAX_bsd - length s = Suc m" using assms(1) by (cases "PATH_MAX_bsd - length s") auto
  then show ?thesis using assms that by (simp add: strncpy_text_def c_str_whole)
qed

lemma link_in_array:
  assumes "length s < PATH_MAX_bsd" and "s \<noteq> []"
  obtains r where "link_text (Some s) (replicate PATH_MAX_bsd nul) = Inr (Some (s @ nul # r))"
proof -
  obtain m where m: "PATH_MAX_bsd - length s = Suc m" using assms(1) by (cases "PATH_MAX_bsd - length s") auto
  then show ?thesis using assms that by (simp add: link_text_def list_update_append)
qed

subsection \<open>Properties\<close>

text \<open>
  On each of the four systems the folder is the text before the last slash of the path the system names; when it names none, the call fails,
  also on FreeBSD, where the result of \<open>sysctl\<close> is not looked at.
\<close>

theorem process_folder_bsd:
  assumes "named_path exe = Some (d @ CHR ''/'' # f)" and "nul \<notin> set d" and "nul \<notin> set f" and "CHR ''/'' \<notin> set f"
    and "length d + length f + 1 < PATH_MAX_bsd" and "fits exe"
  shows "GetProcessImageFileFolder_bsd exe dir = Inr (True, folder (d @ CHR ''/'' # f))"
proof -
  let ?t = "d @ CHR ''/'' # f"
  have t: "length ?t < PATH_MAX_bsd" "nul \<notin> set ?t" "?t \<noteq> []" using assms(2,3,5) by simp_all
  have removed: "\<exists>q. PathRemoveFileSpec (Some (d @ CHR ''/'' # f @ nul # r)) PATH_MAX_bsd = (True, Some q) \<and> c_str q = folder ?t" for r
    using remove_file_of_path [OF assms(2-4), of PATH_MAX_bsd r] by (simp add: PATH_MAX_bsd_def)
  show ?thesis
  proof (cases exe)
    case (Apple s realpath)
    then obtain x where x: "s = Some x" using assms(1) by (auto split: option.splits)
    then have fit: "nul \<notin> set x" "length x < PATH_MAX_bsd" using Apple assms(6) by simp_all
    obtain r where r: "store_text x (replicate PATH_MAX_bsd nul) = Inr (x @ nul # r)" "length (x @ nul # r) = PATH_MAX_bsd"
      using stored_in_array [OF fit(2)] .
    obtain r' where r': "strncpy_text ?t PATH_MAX_bsd (x @ nul # r) = Inr (?t @ nul # r')"
      using copied_in_array [OF t(1,2) r(2)] .
    have "realpath x = None \<and> x = ?t \<or> realpath x = Some ?t" using Apple assms(1) x by (auto split: option.splits)
    then show ?thesis
      using Apple x r r' removed [of r] removed [of r'] c_str_stored [OF fit(1)]
      by (auto simp: GetProcessImageFileFolder_bsd_def Let_def)
  next
    case (FreeBSD s)
    obtain r where "store_text ?t (replicate PATH_MAX_bsd nul) = Inr (?t @ nul # r)" using stored_in_array [OF t(1)] .
    then show ?thesis using FreeBSD assms(1) removed [of r] by (auto simp: GetProcessImageFileFolder_bsd_def Let_def)
  next
    case (NetBSD s)
    obtain r where "link_text (Some ?t) (replicate PATH_MAX_bsd nul) = Inr (Some (?t @ nul # r))" using link_in_array [OF t(1,3)] .
    then show ?thesis using NetBSD assms(1) removed [of r] by (auto simp: GetProcessImageFileFolder_bsd_def Let_def)
  next
    case (DragonFly s)
    obtain r where "link_text (Some ?t) (replicate PATH_MAX_bsd nul) = Inr (Some (?t @ nul # r))" using link_in_array [OF t(1,3)] .
    then show ?thesis using DragonFly assms(1) removed [of r] by (auto simp: GetProcessImageFileFolder_bsd_def Let_def)
  qed
qed

theorem process_folder_bsd_witness:
  "GetProcessImageFileFolder_bsd (Apple (Some ''./svnsrv'') (\<lambda>p. Some ''/opt/bin/svnsrv'')) [] = Inr (True, ''/opt/bin'')"
proof -
  have "folder ''/opt/bin/svnsrv'' = ''/opt/bin''" using folder_split [of "''svnsrv''" "''/opt/bin''"] by simp
  then show ?thesis
    using process_folder_bsd [of "Apple (Some ''./svnsrv'') (\<lambda>p. Some ''/opt/bin/svnsrv'')" "''/opt/bin''" "''svnsrv''" "[]"]
    by (simp add: PATH_MAX_bsd_def)
qed

lemma folder_unknown:
  "named_path exe = None \<Longrightarrow> GetProcessImageFileFolder_bsd exe dir = Inr (False, dir)"
proof (cases exe)
  case (FreeBSD s)
  moreover have "PathRemoveFileSpec (Some (replicate PATH_MAX_bsd nul)) PATH_MAX_bsd = (False, Some (replicate PATH_MAX_bsd nul))"
    by (simp add: PathRemoveFileSpec_def PATH_MAX_bsd_def c_str_def)
  moreover assume "named_path exe = None"
  ultimately show ?thesis by (simp add: GetProcessImageFileFolder_bsd_def PATH_MAX_bsd_def)
qed (auto simp: GetProcessImageFileFolder_bsd_def link_text_def split: option.splits)

text \<open>
  On these systems every \<open>svnsrv -D\<close> that can log and open its acceptor serves, in the very process that was started, and says so in the log as a
  daemon: the pid file is neither read nor written, so a second start is not refused. \<open>svnsrv -s stop\<close> ends with status 0 and has done nothing.
\<close>

theorem every_start_serves_bsd:
  assumes "0 \<le> self p" and "self p \<le> 2147483647" and "can_log 3 k" and "sensible_prefix (now env) (self p) (thread p)"
    and "poolSize na \<noteq> 0" and "open_acceptor (net_address na) (ucast (net_port na)) = Inr ()" and "length (net_address na) \<le> 1000"
  shows "\<exists>s q. main_finish_bsd open_acceptor env args p (Choice (BecomeDaemon la na) router k) = Inr (Serves s (p\<lparr>logger := q\<rparr>)) \<and>
      endpoint s = (net_address na, ucast (net_port na)) \<and>
      main_finish_bsd open_acceptor env args p' (Choice (SendSignal ''stop'' la) router k') = Inr (Status 0)"
proof -
  let ?env = "env\<lparr>router_state := router\<rparr>" and ?msg = "''svnsrv run as daemon success,pid: '' @ show_int (self p)"
  have "length ?msg \<le> 2000" using length_show_pid [OF assms(1,2)] by simp
  then obtain k1 where l: "log_message (can_open ?env) (now ?env) kInfo ?msg (p\<lparr>logger := k\<rparr>) = Inr (p\<lparr>logger := k1\<rparr>)" "can_log 2 k1"
    using can_log_message [of 2 "p\<lparr>logger := k\<rparr>" "now ?env" kInfo ?msg "can_open ?env"] assms(3,4) by auto
  then obtain k2 where f: "flush_log (p\<lparr>logger := k1\<rparr>) = Inr (p\<lparr>logger := k2\<rparr>)" "can_log 2 k2"
    using can_log_flush [of 2 "p\<lparr>logger := k1\<rparr>"] by auto
  obtain s k3 where v: "serve open_acceptor ?env na (p\<lparr>logger := k2\<rparr>) = Inr (Serves s (p\<lparr>logger := k3\<rparr>))"
      "endpoint s = (net_address na, ucast (net_port na))"
    using serve_comes_up [of "p\<lparr>logger := k2\<rparr>" ?env na open_acceptor] assms(4-7) f(2) by auto
  have "main_finish_bsd open_acceptor env args p (Choice (BecomeDaemon la na) router k) = Inr (Serves s (p\<lparr>logger := k3\<rparr>))"
    using l(1) f(1) v(1) by (simp add: main_finish_bsd_def become_daemon_bsd_def Daemonize_bsd_def DaemonWait_bsd_def)
  moreover have "main_finish_bsd open_acceptor env args p' (Choice (SendSignal ''stop'' la) router k') = Inr (Status 0)"
    by (simp add: main_finish_bsd_def ProcessSignalArgs_bsd_def DaemonStop_bsd_def c_str_def)
  ultimately show ?thesis using v(2) by blast
qed

theorem every_start_serves_bsd_witness:
  "\<exists>s q. main_finish_bsd (\<lambda>_ _. Inr ()) example_env [''svnsrv'', ''-D''] (example_process 50)
     (Choice (BecomeDaemon example_launcher example_network) (router_state example_env) (logger (example_process 50))) = Inr (Serves s q) \<and>
   endpoint s = (''0.0.0.0'', 3690)"
proof -
  have p: "self (example_process 50) = 50" "thread (example_process 50) = 8" "now example_env = example_tm"
    "net_address example_network = ''0.0.0.0''" "net_port example_network = 3690" "poolSize example_network \<noteq> 0"
    by (simp_all add: example_process_def example_network_def)
  have k: "can_log 3 (logger (example_process 50))" by (simp add: can_log_def example_process_def new_klogger_def)
  from every_start_serves_bsd [of "example_process 50" _ example_env example_network "\<lambda>_ _. Inr ()", OF _ _ k] p show ?thesis
    by (force simp: example_prefix)
qed

text \<open>
  So the stubs do not keep the contract of a pid file: as soon as there are two processes, no reading of a state makes them one.
\<close>

lemma no_pid_file_bsd:
  assumes "who e1 \<noteq> who e2"
  shows "\<not> pid_file_daemon named sees (\<lambda>e s c s'. c = Daemonize_bsd f \<and> s' = s) who stops"
proof
  assume "pid_file_daemon named sees (\<lambda>e s c s'. c = Daemonize_bsd f \<and> s' = s) who stops"
  then have "named s = Some (who e)" for s e
    using pid_file_daemon.start_names [of named sees _ who stops e s s] by (simp add: Daemonize_bsd_def)
  with assms show False by (metis option.inject)
qed

end
