(* ===== verification/Running_Server.thy ===== *)
theory Running_Server
  imports Server
begin

section \<open>The server while it runs (\<open>SubversionServer.cc\<close>, \<open>SubversionSession.cc\<close>, \<open>klog.cc\<close>)\<close>

text \<open>
  All sessions of a server at once: \<open>run\<close> lets its threads execute whatever handler is ready, so a step of the server is the completion of the pending accept, which starts a
  session when there is no error, or of one pending operation of one session. The sessions share the logger and the one router table, which \<open>main\<close> has loaded
  before and nothing changes. A handler that ends with a fault
  (an exception leaves the thread function, undefined behaviour ends the process) takes the server with it, and so does an exception of \<open>start\<close>. What the clock and the system answer may
  differ from step to step, so each step has its own \<open>environment\<close>, which \<open>suits\<close> the server; one handler runs at a time.

  The properties: every session of a server relays its two streams, whatever the others do, and while it serves \<open>run\<close> never runs out of work; a client that answers well
  is connected to its host from any state of the server, and to no other; and one client can end all of them.
\<close>

record running =
  acceptor :: SubversionServer
  sessions :: "nat \<Rightarrow> world option"
  shared_log :: Klogger
  route_table :: RouterSeletor
  numeric_address :: "string \<Rightarrow> bool"

datatype server_state = Serving running | Crashed fault

text \<open>The router and \<open>address::from_string\<close> are those of the server; \<open>clt_buffer_\<close> lies below the end of the address space.\<close>

definition suits :: "running \<Rightarrow> environment \<Rightarrow> bool" where
  "suits r env \<longleftrightarrow> router_state env = route_table r \<and> from_string env = numeric_address r \<and>
     0 \<le> clt_address env \<and> clt_address env + int kDefaultBufferSize < 2 ^ 63"

definition accepted :: "environment \<Rightarrow> bool \<Rightarrow> running \<Rightarrow> server_state" where
  "accepted env e r =
     (let st = launch env (shared_log r) in
      case handle_accept (andThen st (\<lambda>_. Inr ())) e (acceptor r) of
        Inl f \<Rightarrow> Crashed f
      | Inr a \<Rightarrow> Serving (r\<lparr>acceptor := a, sessions :=
          (case st of Inr w \<Rightarrow> if e then sessions r else (sessions r)(new_connection (acceptor r) \<mapsto> w) | Inl f \<Rightarrow> sessions r)\<rparr>))"

text \<open>The \<open>j\<close>-th pending operation of session \<open>i\<close> ends with \<open>e\<close>.\<close>

definition completed :: "environment \<Rightarrow> nat \<Rightarrow> nat \<Rightarrow> ending \<Rightarrow> world \<Rightarrow> running \<Rightarrow> server_state" where
  "completed env i j e w r =
     (case complete env j e (w\<lparr>klog := shared_log r\<rparr>) of
        Inl f \<Rightarrow> Crashed f
      | Inr w' \<Rightarrow> Serving (r\<lparr>sessions := (sessions r)(i \<mapsto> w'), shared_log := klog w'\<rparr>))"

inductive server_step :: "server_state \<Rightarrow> server_state \<Rightarrow> bool" where
  accept: "suits r env \<Longrightarrow> accepting (acceptor r) \<noteq> [] \<Longrightarrow> server_step (Serving r) (accepted env e r)"
| completion: "suits r env \<Longrightarrow> sessions r i = Some w \<Longrightarrow> j < length (pending w) \<Longrightarrow> allowed (sess w) (pending w ! j) e \<Longrightarrow>
     server_step (Serving r) (completed env i j e w r)"

inductive_cases server_stepE: "server_step (Serving r) s"
inductive_cases crashed_stepE: "server_step (Crashed f) s"

definition launched :: "environment \<Rightarrow> SubversionServer \<Rightarrow> Klogger \<Rightarrow> server_state" where
  "launched env s k = Serving \<lparr>acceptor = s, sessions = Map.empty, shared_log = k, route_table = router_state env,
     numeric_address = from_string env\<rparr>"

subsection \<open>The invariant\<close>

text \<open>
  Until the client's response is parsed nothing has been written to the members it is parsed into, and no connection to a host has been begun.
\<close>

definition early :: "handler \<Rightarrow> bool" where
  "early h \<longleftrightarrow> h = Echo_downstream_handshake \<or> h = Read_downstream_handshake"

definition connects :: "world \<Rightarrow> (string \<times> u16) set" where
  "connects w = {(a, n). \<exists>h. Begin (Connect a n h) \<in> set (effects w)}"

definition unparsed :: "world \<Rightarrow> bool" where
  "unparsed w \<longleftrightarrow> (\<forall>o' \<in> set (pending w). early (op_handler o') \<longrightarrow> client_hds (sess w) = empty_hds \<and> connects w = {})"

text \<open>The connections a session begins are those \<open>read_downstream_handshake\<close> begins for what it has received.\<close>

definition connects_by :: "running \<Rightarrow> string \<Rightarrow> string \<Rightarrow> u16 \<Rightarrow> bool" where
  "connects_by r d a n \<longleftrightarrow> (\<exists>env s k s' k' cs h. suits r env \<and> client_hds s = empty_hds \<and> length d \<le> kDefaultBufferSize \<and> take (length d) (clt_bytes s) = d \<and>
     read_downstream_handshake env False (length d) s k = Inr (s', k', cs) \<and> Begin (Connect a n h) \<in> set cs)"

definition routed :: "running \<Rightarrow> world \<Rightarrow> bool" where
  "routed r w \<longleftrightarrow> (\<forall>(a, n) \<in> connects w. connects_by r (moved_by Read_downstream_handshake w) a n)"

lemma begun_iff: "Begin o' \<in> set cs \<longleftrightarrow> o' \<in> set (begun cs)"
  by (induction cs) (auto simp: begun_def split: asio_call.splits)

lemma connect_begun:
  assumes "run_handler env h e n s k = Inr (s', k', cs)" and "Connect a p q \<in> set (begun cs)"
  shows "h = Read_downstream_handshake \<and> \<not> e"
proof (cases h)
  case Read_downstream_handshake
  with assms show ?thesis
    using read_downstream_handshake_begins(4) [of env e n s k s' k' cs] by (auto simp: to_client_error_def)
next
  case Async_connect_upstream
  with assms show ?thesis
    using async_connect_upstream_begins(4) [of env e s k s' k' cs] by (auto simp: to_client_error_def)
next
  case Read_upstream_handshake
  with assms show ?thesis
    using read_upstream_handshake_begins(4) [of env e s k s' k' cs] by (auto simp: to_client_error_def)
next
  case Echo_upstream_handshake
  with assms show ?thesis
    using echo_upstream_handshake_begins(3) [of env e s k s' k' cs] by (auto simp: to_client_error_def)
qed (use assms in \<open>auto simp: echo_downstream_handshake_def upstream_read_def downstream_write_def downstream_read_def upstream_write_def
       error_sent_def split: if_splits dest!: cancel_begins\<close>)

lemma early_begun:
  assumes "run_handler env h e n s k = Inr (s', k', cs)" and "o' \<in> set (begun cs)" and "early (op_handler o')"
  shows "h = Echo_downstream_handshake \<and> s' = s"
proof (cases h)
  case Read_downstream_handshake
  with assms show ?thesis
    using read_downstream_handshake_begins(4) [of env e n s k s' k' cs] by (auto simp: to_client_error_def early_def)
next
  case Async_connect_upstream
  with assms show ?thesis
    using async_connect_upstream_begins(4) [of env e s k s' k' cs] by (auto simp: to_client_error_def early_def)
next
  case Read_upstream_handshake
  with assms show ?thesis
    using read_upstream_handshake_begins(4) [of env e s k s' k' cs] by (auto simp: to_client_error_def early_def)
next
  case Echo_upstream_handshake
  with assms show ?thesis
    using echo_upstream_handshake_begins(3) [of env e s k s' k' cs] by (auto simp: to_client_error_def early_def)
qed (use assms in \<open>auto simp: echo_downstream_handshake_def upstream_read_def downstream_write_def downstream_read_def upstream_write_def
       error_sent_def early_def split: if_splits dest!: cancel_begins\<close>)

lemma session_inv_early:
  assumes "session_inv w" and "o' \<in> set (pending w)" and "early (op_handler o')"
  shows "pending w = [o']"
  using assms by (auto simp: session_inv_def early_def relay_handler_def)

lemma session_inv_cases:
  assumes "session_inv w" and "pending w = [o']"
  shows "relay_handler (op_handler o') \<or> handshake_op o' w"
  using assms by (auto simp: session_inv_def)

lemma session_inv_klog [simp]: "session_inv (w\<lparr>klog := k\<rparr>) = session_inv w"
proof -
  have "moved_by h (w\<lparr>klog := k\<rparr>) = moved_by h w" for h by (simp add: moved_by_def)
  moreover from this have "handshake_op o' (w\<lparr>klog := k\<rparr>) = handshake_op o' w" for o' by (cases o') simp_all
  ultimately show ?thesis by (simp add: session_inv_def silent_def direction_def)
qed

lemma connects_klog [simp]: "connects (w\<lparr>klog := k\<rparr>) = connects w"
  by (simp add: connects_def)

lemma unparsed_klog [simp]: "unparsed (w\<lparr>klog := k\<rparr>) = unparsed w"
  by (simp add: unparsed_def)

lemma routed_klog [simp]: "routed r (w\<lparr>klog := k\<rparr>) = routed r w"
  by (simp add: routed_def moved_by_def)

lemma arrive_hds [simp]: "client_hds (arrive o' e s) = client_hds s"
proof (cases "\<exists>p b h d. o' = ReadSome p b h \<and> e = Received d")
  case True
  then obtain p b h d where "o' = ReadSome p b h" "e = Received d" by blast
  then show ?thesis by (cases b) simp_all
qed (cases o'; cases e; simp)

lemma connects_complete:
  assumes "complete env j e w = Inr w'" and "p \<in> connects w'" and "p \<notin> connects w"
  obtains s k cs h where "op_handler (pending w ! j) = Read_downstream_handshake" "\<not> failed e" "Begin (Connect (fst p) (snd p) h) \<in> set cs"
    "read_downstream_handshake env False (length (ending_bytes e)) (arrive (pending w ! j) e (sess w)) (klog w) = Inr (s, k, cs)"
proof -
  let ?o = "pending w ! j"
  obtain s k cs where run: "run_handler env (op_handler ?o) (failed e) (length (ending_bytes e)) (arrive ?o e (sess w)) (klog w) = Inr (s, k, cs)"
    and w': "effects w' = effects w @ cs"
    using assms(1) by (auto simp: complete_def andThen_eq_Inr Let_def)
  obtain h where "Begin (Connect (fst p) (snd p) h) \<in> set (effects w')" using assms(2) by (auto simp: connects_def)
  moreover have "Begin (Connect (fst p) (snd p) h) \<notin> set (effects w)" using assms(3) by (cases p) (auto simp: connects_def)
  ultimately have h: "Begin (Connect (fst p) (snd p) h) \<in> set cs" by (simp add: w')
  then have "op_handler ?o = Read_downstream_handshake \<and> \<not> failed e" using connect_begun [OF run] by (simp add: begun_iff)
  then show thesis using that h run by simp
qed

lemma unparsed_step:
  assumes "session_inv w" and "unparsed w" and "j < length (pending w)" and "complete env j e w = Inr w'"
  shows "unparsed w'"
proof -
  let ?o = "pending w ! j"
  obtain s k cs where h: "run_handler env (op_handler ?o) (failed e) (length (ending_bytes e)) (arrive ?o e (sess w)) (klog w) = Inr (s, k, cs)"
    and w': "sess w' = s" "pending w' = take j (pending w) @ drop (Suc j) (pending w) @ begun cs"
    using assms(4) by (auto simp: complete_def andThen_eq_Inr Let_def)
  show ?thesis
    unfolding unparsed_def
  proof (intro ballI impI)
    fix o' assume o': "o' \<in> set (pending w')" "early (op_handler o')"
    show "client_hds (sess w') = empty_hds \<and> connects w' = {}"
    proof (cases "o' \<in> set (begun cs)")
      case True
      with early_begun [OF h _ o'(2)] have echo: "op_handler ?o = Echo_downstream_handshake" "s = arrive ?o e (sess w)" by auto
      then have "client_hds (sess w) = empty_hds" "connects w = {}"
        using assms(2,3) nth_mem [of j "pending w"] by (auto simp: unparsed_def early_def)
      moreover have "connects w' \<subseteq> connects w"
      proof
        fix p assume "p \<in> connects w'"
        then show "p \<in> connects w" using connects_complete [OF assms(4), of p] echo(1) by (cases "p \<in> connects w") auto
      qed
      ultimately show ?thesis using w'(1) echo(2) by simp
    next
      case False
      with o'(1) w'(2) have "o' \<in> set (take j (pending w) @ drop (Suc j) (pending w))" by simp
      moreover from this have "o' \<in> set (pending w)" by (auto dest: in_set_takeD in_set_dropD)
      with session_inv_early [OF assms(1) _ o'(2)] assms(3) have "pending w = [o']" "j = 0" by auto
      ultimately show ?thesis by simp
    qed
  qed
qed

lemma routed_step:
  assumes "session_inv w" and "unparsed w" and "routed r w" and "suits r env"
    and "j < length (pending w)" and "allowed (sess w) (pending w ! j) e" and "complete env j e w = Inr w'"
  shows "routed r w'"
  unfolding routed_def
proof (intro ballI, clarify)
  fix a n assume new: "(a, n) \<in> connects w'"
  let ?o = "pending w ! j"
  have mv: "moved_by h w' = moved_by h w @ (if op_handler ?o = h then ending_bytes e else [])" for h
    by (rule moved_by_complete [OF assms(7)])
  show "connects_by r (moved_by Read_downstream_handshake w') a n"
  proof (cases "op_handler ?o = Read_downstream_handshake")
    case True
    then have p: "pending w = [?o]" using session_inv_early [OF assms(1) nth_mem [OF assms(5)]] by (simp add: early_def)
    have "\<not> relay_handler (op_handler ?o)" using True by (simp add: relay_handler_def)
    then have "handshake_op ?o w" using session_inv_cases [OF assms(1) p] by simp
    with True have o: "?o = ReadSome Client clt_buffer Read_downstream_handshake" "moved_by Read_downstream_handshake w = []"
      by (cases ?o; auto)+
    have fresh: "client_hds (sess w) = empty_hds" "connects w = {}"
      using assms(2) True nth_mem [OF assms(5)] by (auto simp: unparsed_def early_def)
    obtain s k cs h where b: "\<not> failed e" "Begin (Connect a n h) \<in> set cs"
      "read_downstream_handshake env False (length (ending_bytes e)) (arrive ?o e (sess w)) (klog w) = Inr (s, k, cs)"
      by (rule connects_complete [OF assms(7) new]) (simp_all add: fresh)
    then obtain d where d: "e = Received d" "length d \<le> kDefaultBufferSize" using assms(6) o(1) by (cases e) auto
    then have "moved_by Read_downstream_handshake w' = d" "take (length d) (clt_bytes (arrive ?o e (sess w))) = d"
      using mv [of Read_downstream_handshake] o True by simp_all
    then show ?thesis using b d fresh(1) assms(4) unfolding connects_by_def by (metis arrive_hds ending_bytes.simps(1))
  next
    case False
    then have "(a, n) \<in> connects w" using connects_complete [OF assms(7) new] by (cases "(a, n) \<in> connects w") auto
    with assms(3) mv [of Read_downstream_handshake] False show ?thesis by (auto simp: routed_def)
  qed
qed

definition running_inv :: "server_state \<Rightarrow> bool" where
  "running_inv s \<longleftrightarrow> (case s of
     Crashed f \<Rightarrow> True
   | Serving r \<Rightarrow> accept_inv (acceptor r) \<and> dom (sessions r) = set (started_sessions (acceptor r)) \<and>
       (\<forall>i w. sessions r i = Some w \<longrightarrow> session_inv w \<and> unparsed w \<and> routed r w))"

lemma started_facts: "unparsed (started k)" "routed r (started k)"
  by (simp_all add: unparsed_def routed_def connects_def started_def new_session_def)

text \<open>The router is the same in every state.\<close>

lemma same_config:
  assumes "route_table r' = route_table r" and "numeric_address r' = numeric_address r"
  shows "suits r' = suits r" "connects_by r' = connects_by r" "routed r' = routed r"
proof -
  show s: "suits r' = suits r" using assms by (simp add: fun_eq_iff suits_def)
  then show c: "connects_by r' = connects_by r" by (simp add: fun_eq_iff connects_by_def)
  then show "routed r' = routed r" by (simp add: fun_eq_iff routed_def)
qed

lemma config_step:
  "server_step (Serving r) (Serving r') \<Longrightarrow> route_table r' = route_table r \<and> numeric_address r' = numeric_address r"
  by (elim server_stepE) (auto simp: accepted_def completed_def Let_def split: sum.splits)

lemma no_return: "server_step\<^sup>*\<^sup>* (Crashed f) s \<Longrightarrow> s = Crashed f"
  by (induction rule: rtranclp_induct) (auto elim: crashed_stepE)

lemma config_reached:
  "server_step\<^sup>*\<^sup>* (Serving r) (Serving r') \<Longrightarrow> route_table r' = route_table r \<and> numeric_address r' = numeric_address r"
proof (induction "Serving r'" arbitrary: r' rule: rtranclp_induct)
  case (step s r')
  show ?case
  proof (cases s)
    case (Serving r1)
    with step.hyps(2) step.hyps(3) config_step [of r1 r'] show ?thesis by auto
  next
    case (Crashed f)
    with step.hyps(2) show ?thesis by (auto elim: crashed_stepE)
  qed
qed simp

lemma accepted_serving:
  assumes "accepted env e r = Serving r'"
  shows "handle_accept (Inr ()) e (acceptor r) = Inr (acceptor r')" and "shared_log r' = shared_log r"
    and "sessions r' = (if e then sessions r else (sessions r)(new_connection (acceptor r) \<mapsto> started (shared_log r)))"
    and "route_table r' = route_table r" and "numeric_address r' = numeric_address r"
  using assms by (auto simp: accepted_def handle_accept_def launch_started Let_def split: if_splits sum.splits)

lemma running_inv_accept:
  assumes "running_inv (Serving r)"
  shows "running_inv (accepted env e r)"
proof (cases "accepted env e r")
  case (Serving r')
  note a = accepted_serving [OF Serving]
  have "set (started_sessions (acceptor r')) = set (started_sessions (acceptor r)) \<union> (if e then {} else {new_connection (acceptor r)})"
    using a(1) [symmetric] by (auto simp: handle_accept_def start_accept_def)
  with assms a same_config [OF a(4,5)] handle_accept_inv [OF a(1)] show ?thesis
    by (auto simp: running_inv_def Serving session_inv_started started_facts split: if_splits)
qed (simp add: running_inv_def)

lemma running_inv_completed:
  assumes "running_inv (Serving r)" and "suits r env" and "sessions r i = Some w" and "j < length (pending w)"
    and "allowed (sess w) (pending w ! j) e"
  shows "running_inv (completed env i j e w r)"
proof (cases "complete env j e (w\<lparr>klog := shared_log r\<rparr>)")
  case (Inl f)
  then show ?thesis by (simp add: completed_def running_inv_def)
next
  case (Inr w')
  let ?w = "w\<lparr>klog := shared_log r\<rparr>"
  have inv: "session_inv ?w" "unparsed ?w" "routed r ?w" using assms(1,3) by (simp_all add: running_inv_def)
  have "session_step env ?w w'" using assms(4,5) Inr by (intro step [of j]) simp_all
  then have "session_inv w'" by (rule session_inv_step [OF inv(1)])
  moreover have "unparsed w'" "routed r w'"
    using unparsed_step [OF inv(1,2) _ Inr] routed_step [OF inv assms(2) _ _ Inr] assms(4,5) by simp_all
  ultimately have w': "session_inv w' \<and> unparsed w' \<and> routed r w'" by simp
  let ?r = "r\<lparr>sessions := (sessions r)(i \<mapsto> w'), shared_log := klog w'\<rparr>"
  have "routed ?r = routed r" by (rule same_config) simp_all
  with w' assms(1,3) Inr show ?thesis by (auto simp: completed_def running_inv_def)
qed

lemma running_inv_reached: "server_step\<^sup>*\<^sup>* s s' \<Longrightarrow> running_inv s \<Longrightarrow> running_inv s'"
proof (induction rule: rtranclp_induct)
  case (step s1 s2)
  from step.hyps(2) step.IH [OF step.prems] show ?case
    by (cases rule: server_step.cases) (auto intro: running_inv_accept running_inv_completed)
qed

lemma running_inv_launched:
  assumes "new_server open_acceptor env na k0 = Inr (s, k)"
  shows "running_inv (launched env' s k)"
proof -
  have "poolSize na \<noteq> 0"
  proof
    assume "poolSize na = 0"
    with assms show False by (simp add: new_server_def andThen_def split: sum.splits)
  qed
  with assms have "accept_inv s \<and> started_sessions s = []"
    by (auto simp: new_server_up fault_simps accept_inv_def)
  then show ?thesis by (simp add: running_inv_def launched_def)
qed

subsection \<open>A client from its arrival to the relay\<close>

text \<open>One step of a session with a single pending operation.\<close>

lemma advance_session:
  assumes "suits r env" and "sessions r i = Some w" and "pending w = [o']" and "allowed (sess w) o' e"
    and "run_handler env (op_handler o') (failed e) (length (ending_bytes e)) (arrive o' e (sess w)) (shared_log r) = Inr (s, k, cs)"
  shows "\<exists>w'. server_step (Serving r) (Serving (r\<lparr>sessions := (sessions r)(i \<mapsto> w'), shared_log := k\<rparr>)) \<and>
    sess w' = s \<and> pending w' = begun cs \<and> moved w' = moved w @ [(op_handler o', ending_bytes e)] \<and> effects w' = effects w @ cs"
proof -
  have "server_step (Serving r) (completed env i 0 e w r)" using assms(1-4) by (intro completion) simp_all
  then show ?thesis using assms(3,5)
    by (intro exI [of _ "\<lparr>sess = s, klog = k, pending = begun cs, moved = moved w @ [(op_handler o', ending_bytes e)],
      effects = effects w @ cs\<rparr>"]) (simp add: completed_def complete_def)
qed

text \<open>What an established session has done for a client that sent \<open>d\<close> and was routed to \<open>elem\<close>.\<close>

definition relaying_to :: "StorageElement \<Rightarrow> string \<Rightarrow> world \<Rightarrow> bool" where
  "relaying_to elem d w \<longleftrightarrow>
     pending w = [ReadSome Storage buffer Upstream_read, ReadSome Client clt_buffer Downstream_read] \<and>
     moved_by Read_downstream_handshake w = d \<and> moved_by Echo_upstream_handshake w = d \<and>
     Begin (Connect (elem_address elem) (elem_port elem) Async_connect_upstream) \<in> set (effects w)"

lemma client_reaches_relay:
  assumes env: "suits r env" "no_delay_ok env" and acc: "accepting (acceptor r) \<noteq> []"
    and d: "d \<noteq> []" "length d \<le> kDefaultBufferSize" and g: "(g :: string) \<noteq> []" "length g \<le> kDefaultBufferSize"
    and routed: "\<And>s. take (length d) (clt_bytes s) = d \<Longrightarrow> client_hds s = empty_hds \<Longrightarrow> \<exists>hds.
      read_downstream_handshake env False (length d) s (shared_log r) = Inr (s\<lparr>handshakeSize := length d, client_hds := hds, node := elem\<rparr>, k1,
        [Begin (Connect (elem_address elem) (elem_port elem) Async_connect_upstream)])"
  shows "\<exists>r' w. server_step\<^sup>*\<^sup>* (Serving r) (Serving r') \<and> sessions r' = (sessions r)(new_connection (acceptor r) \<mapsto> w) \<and> relaying_to elem d w"
proof -
  let ?i = "new_connection (acceptor r)" and ?l = "shared_log r" and ?connect = "Connect (elem_address elem) (elem_port elem) Async_connect_upstream"
  obtain a where a: "handle_accept (Inr ()) False (acceptor r) = Inr a" by (simp add: handle_accept_def Let_def)
  define at where "at w k = r\<lparr>acceptor := a, sessions := (sessions r)(?i \<mapsto> w), shared_log := k\<rparr>" for w k
  have at: "sessions (at w k) ?i = Some w" "shared_log (at w k) = k" "(at w k)\<lparr>sessions := (sessions (at w k))(?i \<mapsto> w'), shared_log := k'\<rparr> = at w' k'"
    for w k w' k' by (simp_all add: at_def)
  have fits: "suits (at w k) env" for w k using env(1) by (simp add: at_def suits_def)
  note go = advance_session [OF fits at(1), unfolded at(2,3)]
  have "accepted env False r = Serving (at (started ?l) ?l)"
    using a env(2) by (simp add: at_def accepted_def launch_started Let_def)
  then have 0: "server_step (Serving r) (Serving (at (started ?l) ?l))"
    using accept [OF env(1) acc, of False] by simp
  have "pending (started ?l) = [WriteSome Client (LocalArray greeting) Echo_downstream_handshake]" "sess (started ?l) = new_session"
    "moved (started ?l) = []" by (simp_all add: started_def)
  then obtain w1 where 1: "server_step (Serving (at (started ?l) ?l)) (Serving (at w1 ?l))"
      "sess w1 = new_session" "pending w1 = [ReadSome Client clt_buffer Read_downstream_handshake]" "moved w1 = [(Echo_downstream_handshake, greeting)]"
    using go [of "started ?l" "WriteSome Client (LocalArray greeting) Echo_downstream_handshake" "Sent greeting" ?l new_session ?l
      "[Begin (ReadSome Client clt_buffer Read_downstream_handshake)]"]
    by (auto simp: echo_downstream_handshake_def greeting_def)
  let ?s1 = "store clt_buffer d new_session"
  have s1: "take (length d) (clt_bytes ?s1) = d" "client_hds ?s1 = empty_hds" by (simp_all add: new_session_def)
  obtain hds where h: "read_downstream_handshake env False (length d) ?s1 ?l = Inr (?s1\<lparr>handshakeSize := length d, client_hds := hds, node := elem\<rparr>, k1,
      [Begin ?connect])"
    using routed [OF s1] by blast
  define s2 where "s2 = ?s1\<lparr>handshakeSize := length d, client_hds := hds, node := elem\<rparr>"
  have s2: "handshakeSize s2 = length d" "take (length d) (clt_bytes s2) = d" "node s2 = elem" by (simp_all add: s2_def)
  obtain w2 where 2: "server_step (Serving (at w1 ?l)) (Serving (at w2 k1))" "sess w2 = s2" "pending w2 = [?connect]"
      "moved w2 = moved w1 @ [(Read_downstream_handshake, d)]" "effects w2 = effects w1 @ [Begin ?connect]"
    using go [of w1 "ReadSome Client clt_buffer Read_downstream_handshake" "Received d" ?l s2 k1 "[Begin ?connect]"] h d 1(2,3)
    by (auto simp: s2_def)
  obtain w3 where 3: "server_step (Serving (at w2 k1)) (Serving (at w3 k1))" "sess w3 = s2"
      "pending w3 = [ReadSome Storage buffer Read_upstream_handshake]" "moved w3 = moved w2 @ [(Async_connect_upstream, [])]"
      "effects w3 = effects w2 @ [Begin (ReadSome Storage buffer Read_upstream_handshake)]"
    using go [of w2 ?connect Connected k1 s2 k1 "[Begin (ReadSome Storage buffer Read_upstream_handshake)]"] 2(2,3) by (auto simp: async_connect_upstream_def)
  let ?s4 = "store buffer g s2"
  obtain w4 where 4: "server_step (Serving (at w3 k1)) (Serving (at w4 k1))" "sess w4 = ?s4"
      "pending w4 = [WriteSome Storage (InBuffer clt_buffer (length d)) Echo_upstream_handshake]" "moved w4 = moved w3 @ [(Read_upstream_handshake, g)]"
      "effects w4 = effects w3 @ [Begin (WriteSome Storage (InBuffer clt_buffer (length d)) Echo_upstream_handshake)]"
    using go [of w3 "ReadSome Storage buffer Read_upstream_handshake" "Received g" k1 ?s4 k1
      "[Begin (WriteSome Storage (InBuffer clt_buffer (length d)) Echo_upstream_handshake)]"] g s2(1) 3(2,3)
    by (auto simp: read_upstream_handshake_def)
  obtain w5 where 5: "server_step (Serving (at w4 k1)) (Serving (at w5 k1))"
      "pending w5 = [ReadSome Storage buffer Upstream_read, ReadSome Client clt_buffer Downstream_read]"
      "moved w5 = moved w4 @ [(Echo_upstream_handshake, d)]"
      "effects w5 = effects w4 @ [Begin (ReadSome Storage buffer Upstream_read), Begin (ReadSome Client clt_buffer Downstream_read)]"
    using go [of w4 "WriteSome Storage (InBuffer clt_buffer (length d)) Echo_upstream_handshake" "Sent d" k1 ?s4 k1
      "[Begin (ReadSome Storage buffer Upstream_read), Begin (ReadSome Client clt_buffer Downstream_read)]"] d s2(2) 4(2,3)
    by (auto simp: echo_upstream_handshake_def)
  have "server_step\<^sup>*\<^sup>* (Serving r) (Serving (at w5 k1))"
    using 0 1(1) 2(1) 3(1) 4(1) 5(1) by (meson rtranclp.rtrancl_into_rtrancl rtranclp.rtrancl_refl)
  moreover have "relaying_to elem d w5"
    using 2(5) 3(5) 4(5) 5(2,4) by (auto simp: relaying_to_def moved_by_def 1(4) 2(4) 3(4) 4(4) 5(3))
  moreover have "sessions (at w5 k1) = (sessions r)(?i \<mapsto> w5)" by (simp add: at_def)
  ultimately show ?thesis by blast
qed

subsection \<open>Properties\<close>

text \<open>
  C17: Every session of a running server relays: whatever the other sessions do, however accepts and operations interleave, the bytes written to its client are a beginning
  of those read from its storage, and the same from the client to the storage, and no two of its operations share a buffer. There is a session
  for each connection that was accepted and for no other. As long as the server serves exactly one accept is pending, with or without sessions, so \<open>run\<close> has work and does not return; what ends
  it is a fault in a handler or an exception of \<open>start\<close>.
\<close>

theorem every_session_relays:
  assumes "new_server open_acceptor env na k0 = Inr (s, k)" and "server_step\<^sup>*\<^sup>* (launched env0 s k) (Serving r)"
  shows "accepting (acceptor r) = [new_connection (acceptor r)] \<and> dom (sessions r) = set (started_sessions (acceptor r)) \<and>
    (\<forall>i w b. sessions r i = Some w \<longrightarrow>
       (\<exists>rest. moved_by Upstream_read w = moved_by Downstream_write w @ rest) \<and>
       (\<exists>rest. moved_by Downstream_read w = moved_by Upstream_write w @ rest) \<and>
       length (filter (uses b) (pending w)) \<le> 1)"
proof -
  have "running_inv (Serving r)" using running_inv_reached [OF assms(2) running_inv_launched [OF assms(1)]] .
  then have "accepting (acceptor r) = [new_connection (acceptor r)]" "dom (sessions r) = set (started_sessions (acceptor r))"
    and "sessions r i = Some w \<Longrightarrow> session_inv w" for i w
    by (auto simp: running_inv_def accept_inv_def)
  then show ?thesis using session_inv_streams(1,2) session_inv_exclusive by blast
qed

text \<open>
  C29: A client whose connection does not take the option \<open>no_delay\<close> (one that is reset before it is accepted, on a system where \<open>setsockopt\<close> then fails) ends the server: from any
  state in which it serves, \<open>start\<close> calls the \<open>set_option\<close> that throws, nothing between it and the thread function catches the exception, and no step follows, of this or another session.
\<close>

theorem failing_option_ends_server:
  assumes "new_server open_acceptor env na k0 = Inr (s, k)" and "server_step\<^sup>*\<^sup>* (launched env0 s k) (Serving r)"
    and "suits r env1" and "\<not> no_delay_ok env1"
  shows "accepted env1 False r = Crashed SystemError \<and> server_step (Serving r) (Crashed SystemError) \<and>
    \<not> (\<exists>s'. server_step (Crashed SystemError) s')"
proof -
  have "running_inv (Serving r)" using running_inv_reached [OF assms(2) running_inv_launched [OF assms(1)]] .
  then have acc: "accepting (acceptor r) \<noteq> []" by (simp add: running_inv_def accept_inv_def)
  have "accepted env1 False r = Crashed SystemError"
    using assms(4) by (simp add: accepted_def launch_started handle_accept_def Let_def)
  then show ?thesis using accept [OF assms(3) acc, of False] by (auto elim: crashed_stepE)
qed

text \<open>
  C36: One client can end the server for all: while its session waits for the response, a response with a negative byte count makes the parse throw, nothing catches the
  exception, and no step of any session follows. It needs no account and no other session can prevent it.
\<close>

theorem one_client_ends_server:
  assumes "new_server open_acceptor env0 na k0 = Inr (s, k)" and "server_step\<^sup>*\<^sup>* (launched env' s k) (Serving r)" and "sessions r i = Some w"
    and "pending w = [ReadSome Client clt_buffer Read_downstream_handshake]"
    and "d = negative_url v caps n tail" and "v < 10" and "\<forall>c \<in> set caps. cap_word c" and "0 < n" and "length d \<le> kDefaultBufferSize"
    and "suits r env" and "int n \<le> clt_address env" and "clt_address env + int (length d) < 2 ^ 63"
  shows "completed env i 0 (Received d) w r = Crashed LengthError \<and> server_step (Serving r) (Crashed LengthError) \<and>
    \<not> (\<exists>s'. server_step (Crashed LengthError) s')"
proof -
  have "running_inv (Serving r)" using running_inv_reached [OF assms(2) running_inv_launched [OF assms(1)]] .
  with assms(3,4) have hds: "client_hds (sess w) = empty_hds" by (auto simp: running_inv_def unparsed_def early_def)
  have "ParseSubversionHds (clt_address env + int (length d)) (Some d) empty_hds = Inl LengthError"
    unfolding assms(5) using assms(5-8,11,12) by (intro handshake_negative) simp_all
  then have c: "completed env i 0 (Received d) w r = Crashed LengthError"
    using assms(4) hds by (simp add: completed_def complete_def read_downstream_handshake_def)
  have "d \<noteq> []" by (simp add: assms(5) negative_url_def)
  then have "server_step (Serving r) (completed env i 0 (Received d) w r)"
    using assms(3,4,9,10) by (intro completion) simp_all
  then show ?thesis using c by (auto elim: crashed_stepE)
qed

lemma two_steps: "R a b \<Longrightarrow> R b c \<Longrightarrow> R\<^sup>*\<^sup>* a c"
  by (simp add: rtranclp.rtrancl_into_rtrancl [of R a b c])

text \<open>A server with one client that has been greeted.\<close>

lemma example_running:
  "\<exists>s r w. new_server (\<lambda>_ _. Inr ()) example_env example_network new_klogger = Inr (s, new_klogger) \<and>
     server_step\<^sup>*\<^sup>* (launched example_env s new_klogger) (Serving r) \<and> suits r example_env \<and> sessions r 1 = Some w \<and>
     pending w = [ReadSome Client clt_buffer Read_downstream_handshake]"
proof -
  let ?s = "\<lparr>thread_pool_size = unat (poolSize example_network), endpoint = (net_address example_network, ucast (net_port example_network)),
    new_connection = 1, accepting = [1], started_sessions = []\<rparr>" and ?w = "started new_klogger"
  have s: "new_server (\<lambda>_ _. Inr ()) example_env example_network new_klogger = Inr (?s, new_klogger)"
    by (subst new_server_up) (simp_all add: example_network_def)
  define r where "r = \<lparr>acceptor = ?s, sessions = Map.empty, shared_log = new_klogger, route_table = router_state example_env,
    numeric_address = from_string example_env\<rparr>"
  have r: "launched example_env ?s new_klogger = Serving r" "acceptor r = ?s" "sessions r = Map.empty" "shared_log r = new_klogger"
    "suits r example_env"
    unfolding r_def by (simp_all add: launched_def suits_def kDefaultBufferSize_def)
  obtain a where a: "handle_accept (Inr ()) False ?s = Inr a" by (simp add: handle_accept_def Let_def)
  define r1 where "r1 = r\<lparr>acceptor := a, sessions := [1 \<mapsto> ?w]\<rparr>"
  have r1: "sessions r1 1 = Some ?w" "shared_log r1 = new_klogger" "suits r1 example_env" using r(4,5) by (simp_all add: r1_def suits_def)
  have "accepted example_env False r = Serving r1"
    using a r(2-4) by (simp add: accepted_def r1_def launch_started Let_def example_env_def)
  then have one: "server_step (Serving r) (Serving r1)" using accept [OF r(5), of False] r(2) by simp
  obtain w where w: "complete example_env 0 (Sent greeting) (?w\<lparr>klog := shared_log r1\<rparr>) = Inr w"
      "pending w = [ReadSome Client clt_buffer Read_downstream_handshake]"
    by (simp add: complete_def started_def echo_downstream_handshake_def)
  define r2 where "r2 = r1\<lparr>sessions := (sessions r1)(1 \<mapsto> w), shared_log := klog w\<rparr>"
  have r2: "sessions r2 1 = Some w" "suits r2 example_env" using r1(3) by (simp_all add: r2_def suits_def)
  have "server_step (Serving r1) (completed example_env 1 0 (Sent greeting) ?w r1)"
    by (rule completion [OF r1(3,1)]) (simp_all add: started_def greeting_def)
  then have two: "server_step (Serving r1) (Serving r2)" using w(1) by (simp add: completed_def r2_def)
  have "server_step\<^sup>*\<^sup>* (launched example_env ?s new_klogger) (Serving r2)" unfolding r(1) using one two by (rule two_steps)
  then show ?thesis using s r2 w(2) by blast
qed

theorem every_session_relays_witness:
  "\<exists>(r :: running). sessions r 1 \<noteq> None \<and> accepting (acceptor r) = [new_connection (acceptor r)] \<and> 1 \<in> set (started_sessions (acceptor r)) \<and>
     length (filter (uses clt_buffer) (pending (the (sessions r 1)))) \<le> 1"
proof -
  obtain s r w where r: "new_server (\<lambda>_ _. Inr ()) example_env example_network new_klogger = Inr (s, new_klogger)"
     "server_step\<^sup>*\<^sup>* (launched example_env s new_klogger) (Serving r)" "sessions r 1 = Some w"
     "pending w = [ReadSome Client clt_buffer Read_downstream_handshake]"
    using example_running by blast
  show ?thesis using every_session_relays [OF r(1,2)] r(3,4) by (intro exI [of _ r]) auto
qed

theorem failing_option_ends_server_witness:
  "\<exists>r. server_step (Serving r) (Crashed SystemError) \<and> sessions r 1 \<noteq> None"
proof -
  obtain s r w where r: "new_server (\<lambda>_ _. Inr ()) example_env example_network new_klogger = Inr (s, new_klogger)"
     "server_step\<^sup>*\<^sup>* (launched example_env s new_klogger) (Serving r)" "suits r example_env" "sessions r 1 = Some w"
    using example_running by blast
  have "suits r (example_env\<lparr>no_delay_ok := False\<rparr>)" using r(3) by (simp add: suits_def)
  then have "server_step (Serving r) (Crashed SystemError)"
    using failing_option_ends_server [OF r(1,2), of "example_env\<lparr>no_delay_ok := False\<rparr>"] by simp
  with r(4) show ?thesis by blast
qed

theorem one_client_ends_server_witness:
  "\<exists>r. server_step (Serving r) (Crashed LengthError) \<and> sessions r 1 \<noteq> None"
proof -
  obtain s r w where r: "new_server (\<lambda>_ _. Inr ()) example_env example_network new_klogger = Inr (s, new_klogger)"
     "server_step\<^sup>*\<^sup>* (launched example_env s new_klogger) (Serving r)" "sessions r 1 = Some w"
     "pending w = [ReadSome Client clt_buffer Read_downstream_handshake]" "suits r example_env"
    using example_running by blast
  let ?d = "negative_url 2 [] 5 ''svn:// )''"
  have len: "length ?d \<le> 100" by (simp add: negative_url_def wire_words_def show_nat.simps)
  then have "length ?d \<le> kDefaultBufferSize" "clt_address example_env + int (length ?d) < 2 ^ 63" by (simp_all add: kDefaultBufferSize_def)
  then have "server_step (Serving r) (Crashed LengthError)"
    using one_client_ends_server [OF r(1-4), where v = 2 and caps = "[]" and n = 5 and env = example_env, OF refl] r(5) by simp
  with r(3) show ?thesis by blast
qed

end
