(* ===== verification/Spec2Isabelle.thy ===== *)
theory Spec2Isabelle
  imports Config_Files Toml_Invariant Win_Daemon Bsd_Daemon Running_Server
begin

text \<open>
  \<^bold>\<open>svnsrv\<close> is a Subversion proxy. It listens for \<open>svn://\<close> clients, greets them as a server would, reads the client's
  response, takes the repository URL from it, chooses a storage host by the first two characters of the repository's
  owner, connects to that host, passes the client's response on, and from then on relays bytes in both directions.

  \<^bold>\<open>The parts and the theories.\<close> Names are those of the source; files are under \<open>src/src\<close>.

  \<^item> \<open>Svn_Prelude\<close>: faults (an uncaught exception or an undefined access is a value \<open>Inl\<close>), characters, integer
    widths, list facts. \<open>C_Runtime\<close>: \<open>strtol\<close>, decimal printing, \<open>std::string::assign\<close>.
  \<^item> \<open>Handshake\<close> (\<open>SubversionHds.cc\<close>, \<open>ParseSubversionHds\<close>): the state machine over the bytes received, with addresses, as the
    end test is an addition of pointers. Lemmas: the invariant of a run, the bound on what is stored, the round trip with
    a client's well-formed response, the refusals.
  \<^item> \<open>Url\<close> (\<open>SubversionHds.cc\<close>, \<open>SubversionUriCanonicalize\<close>): the slash counter and the reference \<open>domRefs\<close>.
  \<^item> \<open>Toml\<close> (\<open>cpptoml.h\<close>): values, arrays, tables, plain and dotted lookup, typed getters.
  \<^item> \<open>Toml_Parser\<close> (\<open>cpptoml.h\<close>, \<open>parser\<close>): every function of the parser, on the rest of the line and the lines not yet read.
    \<open>Toml_Reading\<close>: printed strings and numbers are read back, parsing ends. \<open>Toml_Date\<close>: dates and how they are printed.
    \<open>Toml_Text\<close>: the specification of documents made of headers and pairs (\<open>item\<close>, \<open>apply_item\<close>), that the parser implements it, and
    the texts it reads wrongly. \<open>Toml_Writer\<close> (\<open>toml_writer\<close>): printing a tree, and that the text
    is read back. \<open>Toml_Build\<close>: the parts for programs that make a tree themselves. \<open>Toml_Invariant\<close>: what every parsed tree satisfies.
    \<open>Toml_Sections\<close>: what a document gives for a key and for a table array, read from its lines, and that the tree answers the same.
    \<open>Config_Files\<close>: the two files of the program, any document that gives them, and those in the repository's \<open>config\<close>.
  \<^item> \<open>Router\<close> (\<open>RouterSeletor.cc\<close>): loading the host table and the lookup. \<open>storage_directory\<close> is the interface
    between the table and its lookup, interpreted on the code's definitions.
  \<^item> \<open>Klog\<close> (\<open>klog.cc\<close>): the two logs, their rolling and the stack buffer of a line; a stream is the list of calls made on it, and \<open>disk\<close> the files these leave.
    Each call reads the clock, so each line has its own time.
  \<^item> \<open>Session\<close> (\<open>SubversionSession.cc\<close>): one definition per handler, with the asynchronous operations it begins as its result; the calls that throw on failure (\<open>set_option\<close>, \<open>cancel\<close>) fault as the environment says; and the
    step relation \<open>session_step\<close>, in which any pending operation may complete, with an error or with any part of
    the bytes Asio's documentation allows. \<open>session_inv\<close> is the invariant behind the relay properties.
  \<^item> \<open>Paths\<close> (\<open>Runtime.cc\<close>, POSIX half), \<open>Config\<close> (\<open>TOMLParse.cc\<close>): the search for the settings file and its values.
  \<^item> \<open>Permute\<close>, \<open>Getopt\<close> (\<open>argv_getopt.inl\<close>, \<open>Argv.hpp\<close>): the command line. \<open>Program\<close> (\<open>main.cc\<close>): the option loop and the
    start up to the choice between signal, daemon and foreground.
  \<^item> \<open>Daemon_Interface\<close> (\<open>Daemonize.h\<close>): the contract of a pid file as the locale \<open>pid_file_daemon\<close>, interpreted for Linux and for Windows.
  \<^item> \<open>Process_Title\<close> (\<open>ProcessTitle.hpp\<close>), \<open>Daemon\<close> (\<open>daemonize_linux.inl\<close>): the pid file, becoming a daemon, the handlers, stop and
    restart, and the master with its workers; \<open>master_step\<close> lets the signal arrive at any moment of the master.
  \<^item> \<open>Win_Runtime\<close> (\<open>Runtime.cc\<close>, \<open>TOMLParse.cc\<close>, Windows half), \<open>Win_Daemon\<close> (\<open>daemonize_win.inl\<close>): the same functions in the Windows build,
    with the suffix \<open>_win\<close> where both have the name; the state is the calls made on the system, in their order.
  \<^item> \<open>Bsd_Daemon\<close> (\<open>daemonize_bsd.inl\<close>, \<open>Runtime.cc\<close>): the stubs for the BSD systems and macOS, \<open>main\<close> with them, and the executable's path there.
  \<^item> \<open>Server\<close> (\<open>SubversionServer.cc\<close>): the acceptor. \<open>Launch\<close> (\<open>main.cc\<close>): the end of \<open>main\<close>. \<open>Running_Server\<close>: the acceptor and all sessions as one
    step relation \<open>server_step\<close>, in which any pending handler runs next and a fault in one, or in \<open>start\<close>, ends the server; the router table is loaded once and
    every step uses it (\<open>suits\<close>); \<open>running_inv\<close> is the invariant.
  \<^item> This theory has the properties that span all of it: from the two files to the server, and from a client's arrival to the relay with its host.

  \<^bold>\<open>What is shown.\<close> Relay: nothing lost, repeated or changed in either direction, no buffer shared by two operations, for every session of a
  server with any number of them; a client that answers well is connected from any state of the server, and in no run to another host than the file names for it. Handshake and URL: round
  trips with what a client sends, no read outside the buffer, refusal of what is cut. Routing: the table as loaded implements
  the lookup of the first enabled range that holds the two characters. Configuration: files with any sections and keys in any order are loaded as
  written, with the defaults for what is missing. Command line: permutation, abbreviations, the end of the option loop. Daemon: one daemon per pid file, stopping reaches master and
  worker, a worker that ends is replaced; on Windows a daemon starts in two stages and a restart repeats its command line. Where the code has a defect, the theorem states the code's behaviour and its conditions (long
  URLs and the log buffer, a socket option that cannot be set, a log renamed twice in a minute, negative counts, the port of a URL, the moment between \<open>fork\<close> and the assignment of \<open>child_pid\<close>, and others).

  \<^bold>\<open>Assumptions.\<close> \<open>long\<close> has 64 bits and \<open>char\<close> is signed (LP64 Linux); the properties of the program as a whole are about the Linux
  branches of the preprocessor. Not under
  \<open>src\<close>, hence arguments of the definitions: Boost.Asio (its documented completion rules are \<open>allowed\<close> and \<open>session_step\<close>;
  \<open>from_string\<close>, \<open>open_acceptor\<close>), the file system and system calls (\<open>no_delay_ok\<close>, \<open>cancel_ok\<close>, \<open>host_system\<close>, \<open>os\<close>, \<open>startup\<close>, \<open>signal_calls\<close>,
  \<open>fopen_ok\<close>), the local time, the address of a buffer (\<open>buffer_at\<close>: it does not reach the end of the address space).
  The text of a file is the argument \<open>files\<close>, and \<open>std::stod\<close> is \<open>stod\<close>, of \<open>Toml_Parser.parse_file\<close>; the theories of the program take
  the function \<open>parse_file\<close> as an argument, and the properties here apply them to the parser. The text a \<open>printf\<close> format with \<open>%S\<close> makes of a narrow string is \<open>wide_text\<close>, as it is undefined.

  \<^bold>\<open>Loops and fuel.\<close> Loops over a buffer are structural or have a measure. The option loop of \<open>main\<close> has fuel; \<open>option_loop_ends\<close> shows that one more
  than the bytes and arguments left to read is enough for every command line. The master's loop may run for ever: it is
  given a list of turns, and \<open>None\<close> says that it still waits. The parser's recursion through nested values has fuel; \<open>parse_ends\<close> shows that
  three units for each byte, and ten, are never used up.

  \<^bold>\<open>Not modelled.\<close> Two handlers at the same moment in two threads of \<open>SubversionServer::run\<close>: \<open>server_step\<close> lets completions come in any order, one
  handler at a time. (The two directions of a relay, the handlers of one session that may overlap, work on different buffers, as
  \<open>one_operation_per_buffer\<close> shows.) The mutexes of the logger. Whether a stopped server's \<open>run\<close> returns: \<open>handle_stop\<close> is called nowhere.
  Messages on standard error. In \<open>cpptoml.h\<close>, the iterators and the type traits; the parser uses the branch of \<open>is_date\<close>
  that is compiled, as no build defines \<open>CPPTOML_HAS_STD_REGEX\<close>. The \<open>getopt_long\<close> of the C library, which \<open>main\<close> calls on Linux: \<open>argv_getopt.inl\<close>,
  which is modelled, is compiled under \<open>_MSC_VER\<close> only.
\<close>

section \<open>From the files to the storage host\<close>

text \<open>The router that a table of hosts with a default is loaded as.\<close>

definition configured_router :: "string \<Rightarrow> u16 \<Rightarrow> (string \<times> HostElement) list \<Rightarrow> RouterSeletor" where
  "configured_router d p ents = \<lparr>hostElement = map (\<lambda>(s, e). with_range s e) ents, defaultElement = d, defaultPort = p\<rparr>"



lemma routed_response:
  assumes "\<forall>(s, e) \<in> set ents. range_bounds s \<noteq> None" and "router_state env = configured_router dflt p ents"
    and "ascii x" and "ascii y"
    and "elem = chosen \<lparr>elem_port = p, elem_address = dflt\<rparr> (map_option snd (find (\<lambda>(s, e). enabled e \<and> spans s (x, y)) ents))"
    and "v < 10" and "\<forall>w \<in> set caps. cap_word w" and "\<forall>ra cl. a = Some (ra, Some cl) \<longrightarrow> nul \<notin> set cl"
    and "u = url_text sch acc h (x # y # own) repo rest" and "url_name sch" and "url_name h" and "\<forall>a. acc = Some a \<longrightarrow> url_name a"
    and "CHR ''/'' \<notin> set (x # y # own)" and "CHR ''/'' \<notin> set repo"
    and "d = wire_response v caps u a" and "buffer_at (clt_address env + int (length d)) d"
    and "elem_address elem \<noteq> []" and "from_string env (elem_address elem)"
    and "access (can_open env) (now env) (storage_line (elem_address elem) u) k = Inr k1"
    and "take (length d) (clt_bytes s) = d" and "client_hds s = empty_hds"
  shows "read_downstream_handshake env False (length d) s k =
    Inr (s\<lparr>handshakeSize := length d, client_hds := repo_hds v caps u a, node := elem\<rparr>, k1,
      [Begin (Connect (elem_address elem) (elem_port elem) Async_connect_upstream)])"
proof -
  have "elem = snd (GetAddress (router_state env) (x # y # own) (node s))"
    unfolding assms(2) configured_router_def using route_spans [OF assms(1,3,4)] assms(5) by simp
  then show ?thesis
    using read_repository_handshake [OF assms(6-16,20,21) _ _ assms(17), of k] assms(18,19) by simp
qed




text \<open>An example: a client asks for a repository of \<open>Apache\<close>.\<close>

definition example_routing :: environment where
  "example_routing = example_env\<lparr>router_state := configured_router ''10.0.0.9'' 3690 example_hosts\<rparr>"

definition example_repository :: string where
  "example_repository = url_text ''svn'' None ''h'' ''Apache'' ''r'' ''t''"

abbreviation example_storage :: StorageElement where
  "example_storage \<equiv> \<lparr>elem_port = 3691, elem_address = ''10.0.0.2''\<rparr>"

lemma example_ranges: "\<forall>(s, e) \<in> set example_hosts. range_bounds s \<noteq> None"
  by (simp add: example_hosts_def range_bounds_def plain_pair_def range_char_def ascii_def uchar_def Let_def)

lemma example_chosen:
  "example_storage = chosen \<lparr>elem_port = 3690, elem_address = ''10.0.0.9''\<rparr>
     (map_option snd (find (\<lambda>(s, e). enabled e \<and> spans s (CHR ''A'', CHR ''p'')) example_hosts))"
  by (simp add: chosen_def example_hosts_def spans_def range_bounds_def plain_pair_def range_char_def pair_le_def
      ascii_def uchar_def Let_def)

lemma example_response: "buffer_at (clt_address example_routing + int (length (wire_response 2 [] example_repository None)))
    (wire_response 2 [] example_repository None)"
  using buffer_at_response [of example_repository] by (simp add: example_routing_def example_repository_def url_text_def)

lemma example_logged:
  "\<exists>k1. access (can_open example_routing) (now example_routing) (storage_line (elem_address example_storage) example_repository) new_klogger = Inr k1"
proof -
  have "length (storage_line ''10.0.0.2'' example_repository) \<le> 4068" by (simp add: example_repository_def storage_line_def c_str_def url_text_def)
  then show ?thesis
    by (auto simp: example_routing_def access_calendar calendar_example_tm log_line_intact length_access_prefix
        writerAccess_def MAX_LINE_NUMBER_def new_klogger_def fwrite_def closed_def Let_def)
qed

text \<open>
  C3: A session of that server: a client's well-formed response for a URL whose owner begins with
  two ASCII characters makes the session connect to the first enabled host of the file
  whose range spans them, or to the default.
\<close>

theorem configured_server_routes:
  assumes "\<forall>(s, e) \<in> set ents. range_bounds s \<noteq> None" and "router_state env = configured_router dflt p ents"
    and "ascii x" and "ascii y"
    and "elem = chosen \<lparr>elem_port = p, elem_address = dflt\<rparr> (map_option snd (find (\<lambda>(s, e). enabled e \<and> spans s (x, y)) ents))"
    and "v < 10" and "\<forall>w \<in> set caps. cap_word w" and "\<forall>ra cl. a = Some (ra, Some cl) \<longrightarrow> nul \<notin> set cl"
    and "u = url_text sch acc h (x # y # own) repo rest" and "url_name sch" and "url_name h" and "\<forall>a. acc = Some a \<longrightarrow> url_name a"
    and "CHR ''/'' \<notin> set (x # y # own)" and "CHR ''/'' \<notin> set repo"
    and "d = wire_response v caps u a" and "buffer_at (clt_address env + int (length d)) d"
    and "elem_address elem \<noteq> []" and "from_string env (elem_address elem)"
    and "access (can_open env) (now env) (storage_line (elem_address elem) u) k = Inr k1"
    and "take (length d) (clt_bytes s) = d" and "client_hds s = empty_hds"
  shows "read_downstream_handshake env False (length d) s k =
    Inr (s\<lparr>handshakeSize := length d, client_hds := repo_hds v caps u a, node := elem\<rparr>, k1,
      [Begin (Connect (elem_address elem) (elem_port elem) Async_connect_upstream)])"
  using assms by (rule routed_response)

theorem configured_server_routes_witness:
  "\<exists>s' k1. read_downstream_handshake example_routing False (length (wire_response 2 [] example_repository None))
       (received (wire_response 2 [] example_repository None)) new_klogger =
     Inr (s', k1, [Begin (Connect ''10.0.0.2'' 3691 Async_connect_upstream)])"
proof -
  let ?d = "wire_response 2 [] example_repository None"
  obtain k1 where k1: "access (can_open example_routing) (now example_routing)
      (storage_line (elem_address example_storage) example_repository) new_klogger = Inr k1"
    using example_logged ..
  have "read_downstream_handshake example_routing False (length ?d) (received ?d) new_klogger =
    Inr ((received ?d)\<lparr>handshakeSize := length ?d, client_hds := repo_hds 2 [] example_repository None, node := example_storage\<rparr>, k1,
      [Begin (Connect (elem_address example_storage) (elem_port example_storage) Async_connect_upstream)])"
    by (rule configured_server_routes [OF example_ranges _ _ _ example_chosen _ _ _ example_repository_def _ _ _ _ _ refl example_response _ _ k1])
      (simp_all add: example_routing_def ascii_def uchar_def url_name_def)
  then show ?thesis by simp
qed



end
